(* ===== verification/Prelude.thy ===== *)
theory Prelude
  imports "HOL-Library.Word"
begin

text \<open>
  What every component of the ALTUS model shares.

  \<^item> The fixed-width types of the C code (\<open>u8\<close>, \<open>u16\<close>, \<open>u32\<close>, \<open>u64\<close>) as words, so that
    \<open>+\<close> and \<open>-\<close> wrap exactly as \<^verbatim>\<open>unsigned\<close> arithmetic does.
  \<^item> The faults of the C abstract machine (\<open>fault\<close>) and the sequencing operator \<open>rbind\<close> of the
    result type \<open>fault + 'a\<close>: an operation that would dereference \<^verbatim>\<open>NULL\<close>, use freed memory, run
    over the end of an array or call \<^verbatim>\<open>exit(-1)\<close> yields \<open>Inl\<close>.
  \<^item> Sequence-number arithmetic.  ALTUS compares two 32-bit sequence numbers by the sign of their
    difference, \<^verbatim>\<open>(int)(a - b) > 0\<close>; \<open>sgt0\<close> is that test, \<open>soff b s\<close> is the distance from a base
    \<open>b\<close> forward to \<open>s\<close>, and \<open>sgt0_soff\<close> says that on any window of 2^31 numbers the test is the
    order of the distances, whether or not the window contains the wrap-around point.
\<close>

section \<open>Collections\<close>

named_theorems seq_simps \<open>sequence-number arithmetic\<close>
named_theorems array_simps \<open>reads of updated fixed-size arrays\<close>
named_theorems heap_simps \<open>reads of updated heaps\<close>

section \<open>Machine types\<close>

type_synonym u8 = "8 word"
type_synonym u16 = "16 word"
type_synonym u32 = "32 word"
type_synonym u64 = "64 word"

section \<open>Faults and the result type\<close>

datatype fault =
    NullDeref      \<comment> \<open>a null pointer is dereferenced\<close>
  | UseAfterFree   \<comment> \<open>an object that is not (or no longer) allocated is used\<close>
  | OutOfBounds    \<comment> \<open>an array is read or written past its end\<close>
  | ExitProgram    \<comment> \<open>the code ends the program: exit(-1), or an assertion that fails\<close>
  | IntOverflow    \<comment> \<open>signed arithmetic leaves the range of its type\<close>
  | OutOfFuel      \<comment> \<open>a pointer walk took more steps than its bound\<close>

type_synonym 'a res = "fault + 'a"

definition rbind :: "'e + 'a \<Rightarrow> ('a \<Rightarrow> 'e + 'b) \<Rightarrow> 'e + 'b" where
  "rbind m f = (case m of Inl e \<Rightarrow> Inl e | Inr x \<Rightarrow> f x)"

lemma rbind_simps [simp]:
  "rbind (Inl e) f = Inl e" "rbind (Inr x) f = f x"
  by (simp_all add: rbind_def)

lemma rbind_cong [fundef_cong]:
  "m = m' \<Longrightarrow> (\<And>x. m' = Inr x \<Longrightarrow> f x = f' x) \<Longrightarrow> rbind m f = rbind m' f'"
  by (cases m') simp_all

lemma rbind_Inr_iff: "rbind m f = Inr y \<longleftrightarrow> (\<exists>x. m = Inr x \<and> f x = Inr y)"
  by (cases m) simp_all

lemma rbind_if: "rbind (if c then a else b) f = (if c then rbind a f else rbind b f)"
  by simp

section \<open>Lists\<close>

lemma nth_splice [array_simps]:
  "i \<le> length xs \<Longrightarrow> j \<le> length xs \<Longrightarrow> m < Suc (i + (length xs - j)) \<Longrightarrow>
     (take i xs @ y # drop j xs) ! m =
       (if m < i then xs ! m else if m = i then y else xs ! (j + (m - Suc i)))"
proof (cases "m \<le> i")
  case False
  then obtain k where "m = i + Suc k"
    using less_imp_Suc_add [of i m] by auto
  moreover assume "i \<le> length xs" "j \<le> length xs" "m < Suc (i + (length xs - j))"
  ultimately show ?thesis by (simp add: nth_append)
qed (auto simp: nth_append)

section \<open>Sequence numbers\<close>

text \<open>\<^verbatim>\<open>(int)(x) > 0\<close> for an unsigned \<open>x\<close>.\<close>

definition sgt0 :: "u32 \<Rightarrow> bool" where "sgt0 x \<longleftrightarrow> 0 < sint x"

text \<open>The distance from \<open>b\<close> forward to \<open>s\<close>, modulo 2^32.\<close>


definition soff :: "u32 \<Rightarrow> u32 \<Rightarrow> nat" where "soff b s = unat (s - b)"

lemma unat_u32_lt [simp]: "unat (x :: u32) < 4294967296"
  using unsigned_less[of x] by simp

lemma uint_u32_bounds: "0 \<le> uint (X :: u32)" "uint X < 4294967296"
  using uint_lt2p[of X] by auto

lemma sint_cases_int: "sint (X::u32) = (if uint X < 2147483648 then uint X else uint X - 4294967296)"
proof -
  note b = uint_u32_bounds[of X]
  have s: "sint X = signed_take_bit 31 (uint X)" by (simp add: sint_uint)
  show ?thesis
  proof (cases "uint X < 2147483648")
    case True
    have "- (2 ^ 31) \<le> uint X" using b(1) by (rule order_trans [rotated]) simp
    then have "signed_take_bit 31 (uint X) = uint X"
      using True by (intro signed_take_bit_int_eq_self) simp_all
    with True s show ?thesis by simp
  next
    case False
    have "signed_take_bit 31 (uint X) = signed_take_bit 31 (uint X - 4294967296)"
      unfolding signed_take_bit_eq_iff_take_bit_eq by (simp add: take_bit_eq_mod)
    also have "\<dots> = uint X - 4294967296"
      using b False by (intro signed_take_bit_int_eq_self) simp_all
    finally show ?thesis using False s by simp
  qed
qed

lemma sint_cases: "sint (X::u32) = (if unat X < 2147483648 then int (unat X) else int (unat X) - 4294967296)"
proof -
  have u: "uint X = int (unat X)" by simp
  show ?thesis unfolding sint_cases_int u by (simp only: split: if_split) linarith
qed

lemma unat_minus_cases: "unat (x - y :: u32) = (if unat y \<le> unat x then unat x - unat y else unat x + 4294967296 - unat y)"
proof -
  have u: "uint x = int (unat x)" "uint y = int (unat y)" "uint (x - y) = int (unat (x - y))" by simp_all
  have "uint (x - y) = (if uint y \<le> uint x then uint x - uint y else uint x - uint y + 4294967296)"
    using uint_sub_if'[of x y] by simp
  then show ?thesis unfolding u using unat_u32_lt[of y] by (simp only: split: if_splits) linarith+
qed

lemma mod_once: "(n::nat) < 2 * m \<Longrightarrow> n mod m = (if n < m then n else n - m)"
  by (simp add: mod_if)

lemma unat_plus_cases: "unat (x + y :: u32) = (if unat x + unat y < 4294967296 then unat x + unat y else unat x + unat y - 4294967296)"
proof -
  have "unat (x + y) = (unat x + unat y) mod 4294967296" by (simp add: unat_word_ariths)
  moreover have "unat x + unat y < 2 * 4294967296" using unat_u32_lt[of x] unat_u32_lt[of y] by linarith
  ultimately show ?thesis by (simp only: mod_once)
qed

lemma soff_lt [simp]: "soff b s < 4294967296"
  by (simp add: soff_def)

lemma soff_inject [simp]: "soff b x = soff b y \<longleftrightarrow> x = y"
  using word_unat_eq_iff [of "x - b" "y - b"] by (simp add: soff_def)

lemma soff_self [simp]: "soff b b = 0"
  by (simp add: soff_def)

lemma soff_eq_0 [simp]: "soff b x = 0 \<longleftrightarrow> x = b"
  by (simp add: soff_def unat_eq_0)

lemma soff_add:
  assumes a: "soff b s + unat n < 4294967296"
  shows "soff b (s + n) = soff b s + unat n"
proof -
  have "s + n - b = (s - b) + n" by simp
  then show ?thesis using a unfolding soff_def by (simp only: unat_plus_cases) simp
qed

lemma sgt0_soff:
  assumes "soff b x < 2147483648" "soff b y < 2147483648"
  shows "sgt0 (x - y) \<longleftrightarrow> soff b y < soff b x"
proof -
  have "x - y = (x - b) - (y - b)" by simp
  then have "sgt0 (x - y) \<longleftrightarrow> 0 < sint ((x - b) - (y - b))" by (simp add: sgt0_def)
  also have "\<dots> \<longleftrightarrow> unat (y - b) < unat (x - b)"
    using assms unfolding soff_def sint_cases unat_minus_cases[of "x - b" "y - b"]
    by (simp only: split: if_splits) linarith
  finally show ?thesis by (simp add: soff_def)
qed

end
