(* ===== verification/NodeHeap.thy ===== *)
theory NodeHeap
  imports Prelude
begin

text \<open>
  The heap the windowed queue works on: nodes (\<^verbatim>\<open>WQ_Node\<close> of \<^verbatim>\<open>src/ALTUS/windowedqueue.h\<close>) at
  addresses, with \<^verbatim>\<open>malloc\<close> and \<^verbatim>\<open>free\<close>, and the predicate \<open>linked\<close> that reads a chain of nodes as a
  list of addresses.

  Addresses are natural numbers, 0 is \<^verbatim>\<open>NULL\<close>.  The heap is total: what a fresh node holds is
  whatever the heap holds at its address, so nothing can be proved about the contents of memory that
  was not written.  \<^verbatim>\<open>malloc\<close> hands out addresses in order and fails when the limit is reached.
\<close>

section \<open>Nodes and the heap\<close>

type_synonym addr = nat

record WQ_Node =
  to_head :: addr
  to_tail :: addr
  ndata :: "nat \<Rightarrow> u8"       \<comment> \<open>char data[ALTUS_NODE_SIZE]\<close>
  validBlockCount :: u32

record heap =
  node :: "addr \<Rightarrow> WQ_Node"
  live :: "addr \<Rightarrow> bool"
  brk :: addr
  limit :: addr

abbreviation (input) ALTUS_NODE_SIZE :: nat where "ALTUS_NODE_SIZE \<equiv> 4096"

definition malloc :: "heap \<Rightarrow> addr \<times> heap" where
  "malloc h =
     (if brk h < limit h then (brk h, h\<lparr>live := (live h)(brk h := True), brk := brk h + 1\<rparr>)
      else (0, h))"

definition free :: "heap \<Rightarrow> addr \<Rightarrow> heap res" where
  "free h a =
     (if a = 0 then Inr h
      else if live h a then Inr (h\<lparr>live := (live h)(a := False)\<rparr>)
      else Inl UseAfterFree)"

definition deref :: "heap \<Rightarrow> addr \<Rightarrow> WQ_Node res" where
  "deref h a = (if a = 0 then Inl NullDeref else if live h a then Inr (node h a) else Inl UseAfterFree)"

definition upd :: "heap \<Rightarrow> addr \<Rightarrow> (WQ_Node \<Rightarrow> WQ_Node) \<Rightarrow> heap res" where
  "upd h a f =
     (if a = 0 then Inl NullDeref
      else if live h a then Inr (h\<lparr>node := (node h)(a := f (node h a))\<rparr>)
      else Inl UseAfterFree)"

text \<open>
  \<^verbatim>\<open>memcpy\<close> of the \<open>n\<close> bytes of \<open>src\<close> from \<open>soff\<close> into a node's data at \<open>off\<close>: a copy that would leave
  either array is a fault.
\<close>

definition blit :: "(nat \<Rightarrow> u8) \<Rightarrow> nat \<Rightarrow> u8 list \<Rightarrow> (nat \<Rightarrow> u8)" where
  "blit d off bs = (\<lambda>i. if off \<le> i \<and> i < off + length bs then bs ! (i - off) else d i)"

definition memcpy_node :: "heap \<Rightarrow> addr \<Rightarrow> nat \<Rightarrow> u8 list \<Rightarrow> nat \<Rightarrow> nat \<Rightarrow> heap res" where
  "memcpy_node h a off src from n =
     (if ALTUS_NODE_SIZE < off + n \<or> length src < from + n then Inl OutOfBounds
      else upd h a (\<lambda>nd. nd\<lparr>ndata := blit (ndata nd) off (take n (drop from src))\<rparr>))"

section \<open>Reading updated heaps\<close>

lemma deref_ok [simp]: "a \<noteq> 0 \<Longrightarrow> live h a \<Longrightarrow> deref h a = Inr (node h a)"
  by (simp add: deref_def)

lemma upd_ok [simp]:
  "a \<noteq> 0 \<Longrightarrow> live h a \<Longrightarrow> upd h a f = Inr (h\<lparr>node := (node h)(a := f (node h a))\<rparr>)"
  by (simp add: upd_def)

lemma deref_null [simp]: "deref h 0 = Inl NullDeref"
  by (simp add: deref_def)

section \<open>Chains of nodes\<close>

text \<open>
  \<open>linked h ns\<close>: the nodes at the addresses \<open>ns\<close> are allocated, distinct and doubly linked in that
  order, with \<^verbatim>\<open>NULL\<close> at both ends.
\<close>

definition linked :: "heap \<Rightarrow> addr list \<Rightarrow> bool" where
  "linked h ns \<longleftrightarrow> ns \<noteq> [] \<and> distinct ns \<and> (\<forall>a\<in>set ns. a \<noteq> 0 \<and> live h a) \<and>
     (\<forall>i. Suc i < length ns \<longrightarrow>
        to_tail (node h (ns ! i)) = ns ! Suc i \<and> to_head (node h (ns ! Suc i)) = ns ! i) \<and>
     to_tail (node h (last ns)) = 0 \<and> to_head (node h (hd ns)) = 0"

lemma linked_nonempty: "linked h ns \<Longrightarrow> ns \<noteq> []"
  and linked_distinct: "linked h ns \<Longrightarrow> distinct ns"
  and linked_live: "linked h ns \<Longrightarrow> a \<in> set ns \<Longrightarrow> a \<noteq> 0 \<and> live h a"
  and linked_next: "linked h ns \<Longrightarrow> Suc i < length ns \<Longrightarrow> to_tail (node h (ns ! i)) = ns ! Suc i"
  and linked_last: "linked h ns \<Longrightarrow> to_tail (node h (last ns)) = 0"
  by (simp_all add: linked_def)

text \<open>The links, the liveness and nothing else of the nodes in the chain matter.\<close>

lemma linked_frame:
  assumes "linked h ns"
    and "\<And>a. a \<in> set ns \<Longrightarrow> live h' a"
    and "\<And>a. a \<in> set ns \<Longrightarrow> to_tail (node h' a) = to_tail (node h a)"
    and "\<And>a. a \<in> set ns \<Longrightarrow> to_head (node h' a) = to_head (node h a)"
  shows "linked h' ns"
  using assms unfolding linked_def by (auto simp: nth_mem)

text \<open>Appending a fresh node at the tail, and taking the first node off.\<close>

lemma linked_snoc:
  assumes l: "linked h ns" and a: "a \<notin> set ns" "a \<noteq> 0" "live h' a"
    and same: "\<And>x. x \<in> set ns \<Longrightarrow> live h' x" "\<And>x. x \<in> set ns \<Longrightarrow> to_head (node h' x) = to_head (node h x)"
      "\<And>x. x \<in> set ns \<Longrightarrow> x \<noteq> last ns \<Longrightarrow> to_tail (node h' x) = to_tail (node h x)"
    and new: "to_tail (node h' (last ns)) = a" "to_head (node h' a) = last ns" "to_tail (node h' a) = 0"
  shows "linked h' (ns @ [a])"
proof -
  have ne: "ns \<noteq> []" and d: "distinct ns" using l by (auto simp: linked_def)
  have nl: "ns ! i \<noteq> last ns" if "Suc i < length ns" for i
    using that d ne by (simp add: last_conv_nth nth_eq_iff_index_eq)
  have "to_tail (node h' ((ns @ [a]) ! i)) = (ns @ [a]) ! Suc i \<and>
        to_head (node h' ((ns @ [a]) ! Suc i)) = (ns @ [a]) ! i" if "Suc i < length (ns @ [a])" for i
  proof (cases "Suc i < length ns")
    case True
    then show ?thesis using l same nl [OF True] by (simp add: nth_append linked_def)
  next
    case False
    then have "i = length ns - 1" "Suc i = length ns" using that by auto
    then have "ns ! i = last ns" "Suc i = length ns" using ne by (simp_all add: last_conv_nth)
    then show ?thesis using new by (simp add: nth_append)
  qed
  then show ?thesis
    using l a same new ne by (auto simp: linked_def)
qed

lemma linked_tl:
  assumes l: "linked h (n # m # ns)"
    and same: "\<And>x. x \<in> set (m # ns) \<Longrightarrow> live h' x"
      "\<And>x. x \<in> set ns \<Longrightarrow> to_head (node h' x) = to_head (node h x)"
      "\<And>x. x \<in> set (m # ns) \<Longrightarrow> to_tail (node h' x) = to_tail (node h x)"
    and new: "to_head (node h' m) = 0"
  shows "linked h' (m # ns)"
proof -
  have "to_tail (node h' ((m # ns) ! i)) = (m # ns) ! Suc i \<and>
        to_head (node h' ((m # ns) ! Suc i)) = (m # ns) ! i" if "Suc i < length (m # ns)" for i
  proof -
    have "to_tail (node h ((n # m # ns) ! Suc i)) = (n # m # ns) ! Suc (Suc i)"
      "to_head (node h ((n # m # ns) ! Suc (Suc i))) = (n # m # ns) ! Suc i"
      using l that unfolding linked_def by (metis length_Cons Suc_less_eq)+
    moreover have "(m # ns) ! i \<in> set (m # ns)" "(m # ns) ! Suc i \<in> set ns"
      using that nth_mem [of i "m # ns"] by auto
    ultimately show ?thesis using same by simp
  qed
  moreover have "to_tail (node h' (last (m # ns))) = 0"
    using l same(3) [of "last (m # ns)"] by (simp add: linked_def del: last.simps) auto
  ultimately show ?thesis using l same(1) new by (auto simp: linked_def)
qed

end
