(* ===== verification/UBList.thy ===== *)
theory UBList
  imports Prelude
begin

text \<open>
  The unsequenced-block list of \<^verbatim>\<open>src/ALTUS/ublist.c\<close>: up to eight half-open ranges of sequence
  numbers that arrived ahead of order, kept sorted in two parallel arrays.  The arrays are lists of
  length eight, \<open>altusUBCheck\<close> is the scan with every branch of the source, \<open>altusUBPop\<close> drops the
  first block.

  Three layers: the arrays; the list \<open>ub_blocks\<close> of (head, tail) pairs, on which \<open>ub_ins\<close> restates
  the scan without index arithmetic; and the set \<open>ub_cover\<close> of distances the blocks cover.  The
  locale \<open>range_tracker\<close> at the end is the contract the window relies on.
\<close>

section \<open>Data\<close>

datatype ubenum =
    ALTUS_UBENUM_FULL
  | ALTUS_UBENUM_MALICIOUS_INPUT
  | ALTUS_UBENUM_OVERLAP
  | ALTUS_UBENUM_UB_EXTENDED
  | ALTUS_UBENUM_NEW_UB_ADDED

record ALTUS_UB_List =
  ub_headSeq :: "u32 list"
  ub_tailSeq :: "u32 list"
  ub_count :: u32

abbreviation (input) ALTUS_MAX_UNSEQ_BLOCK_COUNT :: nat where
  "ALTUS_MAX_UNSEQ_BLOCK_COUNT \<equiv> 8"

section \<open>Operations\<close>

text \<open>\<open>pushBack i j\<close> is the macro's loop from index \<open>j\<close> down to \<open>i + 1\<close>: it opens a slot at \<open>i\<close>.\<close>

fun pushBack :: "nat \<Rightarrow> nat \<Rightarrow> ALTUS_UB_List \<Rightarrow> ALTUS_UB_List" where
  "pushBack i j u =
     (if i < j then
        pushBack i (j - 1)
          (u\<lparr>ub_headSeq := (ub_headSeq u)[j := ub_headSeq u ! (j - 1)],
             ub_tailSeq := (ub_tailSeq u)[j := ub_tailSeq u ! (j - 1)]\<rparr>)
      else u)"

text \<open>\<open>pullFront j\<close> is the loop that closes slot \<open>j\<close> by moving every later entry one down.\<close>

function pullFront :: "nat \<Rightarrow> ALTUS_UB_List \<Rightarrow> ALTUS_UB_List" where
  "pullFront j u =
     (if j < ALTUS_MAX_UNSEQ_BLOCK_COUNT - 1 then
        pullFront (j + 1)
          (u\<lparr>ub_headSeq := (ub_headSeq u)[j := ub_headSeq u ! (j + 1)],
             ub_tailSeq := (ub_tailSeq u)[j := ub_tailSeq u ! (j + 1)]\<rparr>)
      else u)"
  by pat_completeness auto
termination
  by (relation "measure (\<lambda>(j, u). 8 - j)") auto

declare pushBack.simps [simp del] pullFront.simps [simp del]

function altusUBCheck_loop ::
  "nat \<Rightarrow> ALTUS_UB_List \<Rightarrow> u32 \<Rightarrow> u32 \<Rightarrow> (ubenum \<times> ALTUS_UB_List) res" where
  "altusUBCheck_loop i ubList seq len =
     (if i < unat (ub_count ubList) then
        if ALTUS_MAX_UNSEQ_BLOCK_COUNT \<le> i then Inl OutOfBounds
        else
          let currentHS = ub_headSeq ubList ! i;
              currentTS = ub_tailSeq ubList ! i
          in if sgt0 (currentHS - seq) then
               if sgt0 (currentHS - (seq + len)) then
                 if sgt0 (8 - ub_count ubList) then
                   let u = pushBack i (ALTUS_MAX_UNSEQ_BLOCK_COUNT - 1) ubList
                   in Inr (ALTUS_UBENUM_NEW_UB_ADDED,
                        u\<lparr>ub_headSeq := (ub_headSeq u)[i := seq],
                          ub_tailSeq := (ub_tailSeq u)[i := seq + len],
                          ub_count := ub_count u + 1\<rparr>)
                 else Inr (ALTUS_UBENUM_FULL, ubList)
               else if seq + len = currentHS then
                 Inr (ALTUS_UBENUM_UB_EXTENDED,
                      ubList\<lparr>ub_headSeq := (ub_headSeq ubList)[i := seq]\<rparr>)
               else Inr (ALTUS_UBENUM_MALICIOUS_INPUT, ubList)
             else if sgt0 (currentTS - seq) then
               Inr (ALTUS_UBENUM_MALICIOUS_INPUT, ubList)
             else if seq = currentTS then
               if word_of_nat i = ub_count ubList - 1 then
                 Inr (ALTUS_UBENUM_UB_EXTENDED,
                      ubList\<lparr>ub_tailSeq := (ub_tailSeq ubList)[i := seq + len]\<rparr>)
               else if ALTUS_MAX_UNSEQ_BLOCK_COUNT \<le> i + 1 then Inl OutOfBounds
               else
                 let nextHeadSeq = ub_headSeq ubList ! (i + 1)
                 in if sgt0 (nextHeadSeq - (seq + len)) then
                      Inr (ALTUS_UBENUM_UB_EXTENDED,
                           ubList\<lparr>ub_tailSeq := (ub_tailSeq ubList)[i := seq + len]\<rparr>)
                    else if seq + len = nextHeadSeq then
                      let u = pullFront (i + 1)
                            (ubList\<lparr>ub_tailSeq :=
                               (ub_tailSeq ubList)[i := ub_tailSeq ubList ! (i + 1)]\<rparr>)
                      in Inr (ALTUS_UBENUM_UB_EXTENDED, u\<lparr>ub_count := ub_count u - 1\<rparr>)
                    else Inr (ALTUS_UBENUM_MALICIOUS_INPUT, ubList)
             else if sgt0 (seq - currentTS) \<and> word_of_nat i = ub_count ubList - 1 then
               if ub_count ubList < 8 then
                 Inr (ALTUS_UBENUM_NEW_UB_ADDED,
                      ubList\<lparr>ub_headSeq := (ub_headSeq ubList)[unat (ub_count ubList) := seq],
                        ub_tailSeq := (ub_tailSeq ubList)[unat (ub_count ubList) := seq + len],
                        ub_count := ub_count ubList + 1\<rparr>)
               else Inr (ALTUS_UBENUM_FULL, ubList)
             else altusUBCheck_loop (i + 1) ubList seq len
      else if ub_count ubList = 0 then
        Inr (ALTUS_UBENUM_NEW_UB_ADDED,
             ubList\<lparr>ub_headSeq := (ub_headSeq ubList)[0 := seq],
               ub_tailSeq := (ub_tailSeq ubList)[0 := seq + len],
               ub_count := 1\<rparr>)
      else Inr (ALTUS_UBENUM_MALICIOUS_INPUT, ubList))"
  by pat_completeness auto
termination
  by (relation "measure (\<lambda>(i, u, s, l). unat (ub_count u) - i)") auto

declare altusUBCheck_loop.simps [simp del]

definition altusUBCheck ::
  "ALTUS_UB_List \<Rightarrow> u32 \<Rightarrow> u32 \<Rightarrow> (ubenum \<times> ALTUS_UB_List) res" where
  "altusUBCheck ubList seq len = altusUBCheck_loop 0 ubList seq len"

lemma altusUBCheck_loop_not_overlap:
  "altusUBCheck_loop i u seq len \<noteq> Inr (ALTUS_UBENUM_OVERLAP, u')"
proof (induction i u seq len rule: altusUBCheck_loop.induct)
  case (1 i u seq len)
  then show ?case by (subst altusUBCheck_loop.simps) (auto simp: Let_def)
qed

lemma altusUBCheck_not_overlap: "altusUBCheck u seq len \<noteq> Inr (ALTUS_UBENUM_OVERLAP, u')"
  by (simp add: altusUBCheck_def altusUBCheck_loop_not_overlap)

definition altusUBPop :: "ALTUS_UB_List \<Rightarrow> ALTUS_UB_List" where
  "altusUBPop ubList =
     (let h = ub_headSeq ubList; t = ub_tailSeq ubList;
          h = h[0 := h ! 1]; h = h[1 := h ! 2]; h = h[2 := h ! 3]; h = h[3 := h ! 4];
          h = h[4 := h ! 5]; h = h[5 := h ! 6]; h = h[6 := h ! 7];
          t = t[0 := t ! 1]; t = t[1 := t ! 2]; t = t[2 := t ! 3]; t = t[3 := t ! 4];
          t = t[4 := t ! 5]; t = t[5 := t ! 6]; t = t[6 := t ! 7]
      in ubList\<lparr>ub_headSeq := h, ub_tailSeq := t, ub_count := ub_count ubList - 1\<rparr>)"

section \<open>The arrays as a list of blocks\<close>

definition ub_shape :: "ALTUS_UB_List \<Rightarrow> bool" where
  "ub_shape u \<longleftrightarrow> length (ub_headSeq u) = 8 \<and> length (ub_tailSeq u) = 8 \<and> unat (ub_count u) \<le> 8"

definition ub_blocks :: "ALTUS_UB_List \<Rightarrow> (u32 \<times> u32) list" where
  "ub_blocks u = map (\<lambda>i. (ub_headSeq u ! i, ub_tailSeq u ! i)) [0..<unat (ub_count u)]"

lemma length_ub_blocks [simp]: "length (ub_blocks u) = unat (ub_count u)"
  by (simp add: ub_blocks_def)

lemma nth_ub_blocks [simp]:
  "i < unat (ub_count u) \<Longrightarrow> ub_blocks u ! i = (ub_headSeq u ! i, ub_tailSeq u ! i)"
  by (simp add: ub_blocks_def)

lemma pushBack_lengths [array_simps]:
  "length (ub_headSeq (pushBack i j u)) = length (ub_headSeq u)"
  "length (ub_tailSeq (pushBack i j u)) = length (ub_tailSeq u)"
  "ub_count (pushBack i j u) = ub_count u"
  by (induction i j u rule: pushBack.induct; subst pushBack.simps; simp)+

lemma pushBack_nth [array_simps]:
  "j < length (ub_headSeq u) \<Longrightarrow> length (ub_tailSeq u) = length (ub_headSeq u) \<Longrightarrow>
     m < length (ub_headSeq u) \<Longrightarrow>
     ub_headSeq (pushBack i j u) ! m =
       (if i < m \<and> m \<le> j then ub_headSeq u ! (m - 1) else ub_headSeq u ! m) \<and>
     ub_tailSeq (pushBack i j u) ! m =
       (if i < m \<and> m \<le> j then ub_tailSeq u ! (m - 1) else ub_tailSeq u ! m)"
proof (induction i j u rule: pushBack.induct)
  case (1 i j u)
  show ?case
  proof (cases "i < j")
    case True
    with 1 show ?thesis
      by (subst (1 2) pushBack.simps) (auto simp: nth_list_update)
  next
    case False
    then show ?thesis by (subst (1 2) pushBack.simps) auto
  qed
qed

lemma pullFront_lengths [array_simps]:
  "length (ub_headSeq (pullFront j u)) = length (ub_headSeq u)"
  "length (ub_tailSeq (pullFront j u)) = length (ub_tailSeq u)"
  "ub_count (pullFront j u) = ub_count u"
  by (induction j u rule: pullFront.induct; subst pullFront.simps; simp)+

lemma pullFront_nth [array_simps]:
  "length (ub_headSeq u) = 8 \<Longrightarrow> length (ub_tailSeq u) = 8 \<Longrightarrow> m < 8 \<Longrightarrow>
     ub_headSeq (pullFront j u) ! m =
       (if j \<le> m \<and> m < 7 then ub_headSeq u ! (m + 1) else ub_headSeq u ! m) \<and>
     ub_tailSeq (pullFront j u) ! m =
       (if j \<le> m \<and> m < 7 then ub_tailSeq u ! (m + 1) else ub_tailSeq u ! m)"
proof (induction j u rule: pullFront.induct)
  case (1 j u)
  show ?case
  proof (cases "j < 7")
    case True
    with 1 show ?thesis
      by (subst (1 2) pullFront.simps) (auto simp: nth_list_update)
  next
    case False
    then show ?thesis by (subst (1 2) pullFront.simps) auto
  qed
qed


lemma ub_blocks_Nil [simp]: "ub_count u = 0 \<Longrightarrow> ub_blocks u = []"
  by (simp add: ub_blocks_def)

lemma drop_ub_blocks:
  "i < unat (ub_count u) \<Longrightarrow>
     drop i (ub_blocks u) = (ub_headSeq u ! i, ub_tailSeq u ! i) # drop (Suc i) (ub_blocks u)"
  by (metis Cons_nth_drop_Suc length_ub_blocks nth_ub_blocks)

lemma ub_count_Suc: "unat (ub_count u) < 8 \<Longrightarrow> unat (ub_count u + 1) = Suc (unat (ub_count u))"
  by (simp add: unat_plus_cases)

lemma ub_count_pred: "0 < unat (ub_count u) \<Longrightarrow> unat (ub_count u - 1) = unat (ub_count u) - 1"
  by (simp add: unat_minus_cases)

text \<open>The four updates of the scan, as list operations on the blocks.\<close>

lemma blocks_open_slot:
  fixes u :: ALTUS_UB_List and s e :: u32 and i :: nat
  assumes "ub_shape u" "i \<le> unat (ub_count u)" "unat (ub_count u) < 8"
  defines "v \<equiv> pushBack i 7 u"
  defines "w \<equiv> v\<lparr>ub_headSeq := (ub_headSeq v)[i := s], ub_tailSeq := (ub_tailSeq v)[i := e],
                 ub_count := ub_count v + 1\<rparr>"
  shows "ub_shape w"
    and "ub_blocks w = take i (ub_blocks u) @ (s, e) # drop i (ub_blocks u)"
proof -
  show "ub_shape w"
    using assms(1,3) by (simp add: ub_shape_def w_def v_def array_simps ub_count_Suc)
  show "ub_blocks w = take i (ub_blocks u) @ (s, e) # drop i (ub_blocks u)"
    using assms(1-3)
    by (intro nth_equalityI)
       (auto simp: ub_shape_def w_def v_def array_simps ub_count_Suc 
         nth_list_update min_def not_less)
qed

lemma blocks_append_slot:
  fixes u :: ALTUS_UB_List and s e :: u32 and i :: nat
  assumes "ub_shape u" "unat (ub_count u) < 8"
  defines "w \<equiv> u\<lparr>ub_headSeq := (ub_headSeq u)[unat (ub_count u) := s],
                 ub_tailSeq := (ub_tailSeq u)[unat (ub_count u) := e], ub_count := ub_count u + 1\<rparr>"
  shows "ub_shape w" and "ub_blocks w = ub_blocks u @ [(s, e)]"
proof -
  show "ub_shape w"
    using assms(1,2) by (simp add: ub_shape_def w_def ub_count_Suc)
  show "ub_blocks w = ub_blocks u @ [(s, e)]"
    using assms(1,2)
    by (intro nth_equalityI)
       (auto simp: ub_shape_def w_def ub_count_Suc nth_append nth_list_update less_Suc_eq)
qed

lemma blocks_set_head:
  fixes u :: ALTUS_UB_List and s e :: u32 and i :: nat
  assumes "ub_shape u" "i < unat (ub_count u)"
  defines "w \<equiv> u\<lparr>ub_headSeq := (ub_headSeq u)[i := s]\<rparr>"
  shows "ub_shape w"
    and "ub_blocks w = take i (ub_blocks u) @ (s, ub_tailSeq u ! i) # drop (Suc i) (ub_blocks u)"
proof -
  show "ub_shape w" using assms(1,2) by (simp add: ub_shape_def w_def)
  show "ub_blocks w = take i (ub_blocks u) @ (s, ub_tailSeq u ! i) # drop (Suc i) (ub_blocks u)"
    using assms(1,2)
    by (intro nth_equalityI)
       (auto simp: ub_shape_def w_def array_simps nth_list_update min_def not_less)
qed

lemma blocks_set_tail:
  fixes u :: ALTUS_UB_List and s e :: u32 and i :: nat
  assumes "ub_shape u" "i < unat (ub_count u)"
  defines "w \<equiv> u\<lparr>ub_tailSeq := (ub_tailSeq u)[i := e]\<rparr>"
  shows "ub_shape w"
    and "ub_blocks w = take i (ub_blocks u) @ (ub_headSeq u ! i, e) # drop (Suc i) (ub_blocks u)"
proof -
  show "ub_shape w" using assms(1,2) by (simp add: ub_shape_def w_def)
  show "ub_blocks w = take i (ub_blocks u) @ (ub_headSeq u ! i, e) # drop (Suc i) (ub_blocks u)"
    using assms(1,2)
    by (intro nth_equalityI)
       (auto simp: ub_shape_def w_def array_simps nth_list_update min_def not_less)
qed

lemma blocks_merge_slot:
  fixes u :: ALTUS_UB_List and s e :: u32 and i :: nat
  assumes "ub_shape u" "Suc i < unat (ub_count u)"
  defines "v \<equiv> pullFront (Suc i) (u\<lparr>ub_tailSeq := (ub_tailSeq u)[i := ub_tailSeq u ! Suc i]\<rparr>)"
  defines "w \<equiv> v\<lparr>ub_count := ub_count v - 1\<rparr>"
  shows "ub_shape w"
    and "ub_blocks w = take i (ub_blocks u) @
           (ub_headSeq u ! i, ub_tailSeq u ! Suc i) # drop (Suc (Suc i)) (ub_blocks u)"
proof -
  show "ub_shape w"
    using assms(1,2) by (auto simp: ub_shape_def w_def v_def array_simps ub_count_pred)
  show "ub_blocks w = take i (ub_blocks u) @
          (ub_headSeq u ! i, ub_tailSeq u ! Suc i) # drop (Suc (Suc i)) (ub_blocks u)"
    using assms(1,2)
    by (intro nth_equalityI)
       (auto simp: ub_shape_def w_def v_def array_simps ub_count_pred 
         nth_list_update min_def not_less)
qed

lemmas blocks_update =
  blocks_open_slot blocks_append_slot blocks_set_head blocks_set_tail blocks_merge_slot

section \<open>The scan on the list of blocks\<close>

text \<open>\<open>ub_ins n bs s l\<close> scans the blocks \<open>bs\<close> that are left of \<open>n\<close> in all.\<close>

fun ub_ins :: "nat \<Rightarrow> (u32 \<times> u32) list \<Rightarrow> u32 \<Rightarrow> u32 \<Rightarrow> ubenum \<times> (u32 \<times> u32) list" where
  "ub_ins n [] s l =
     (if n = 0 then (ALTUS_UBENUM_NEW_UB_ADDED, [(s, s + l)])
      else (ALTUS_UBENUM_MALICIOUS_INPUT, []))"
| "ub_ins n ((h, t) # bs) s l =
     (if sgt0 (h - s) then
        if sgt0 (h - (s + l)) then
          if n < 8 then (ALTUS_UBENUM_NEW_UB_ADDED, (s, s + l) # (h, t) # bs)
          else (ALTUS_UBENUM_FULL, (h, t) # bs)
        else if s + l = h then (ALTUS_UBENUM_UB_EXTENDED, (s, t) # bs)
        else (ALTUS_UBENUM_MALICIOUS_INPUT, (h, t) # bs)
      else if sgt0 (t - s) then (ALTUS_UBENUM_MALICIOUS_INPUT, (h, t) # bs)
      else if s = t then
        (case bs of
           [] \<Rightarrow> (ALTUS_UBENUM_UB_EXTENDED, [(h, s + l)])
         | (h', t') # bs' \<Rightarrow>
             if sgt0 (h' - (s + l)) then (ALTUS_UBENUM_UB_EXTENDED, (h, s + l) # bs)
             else if s + l = h' then (ALTUS_UBENUM_UB_EXTENDED, (h, t') # bs')
             else (ALTUS_UBENUM_MALICIOUS_INPUT, (h, t) # bs))
      else if sgt0 (s - t) \<and> bs = [] then
        if n < 8 then (ALTUS_UBENUM_NEW_UB_ADDED, [(h, t), (s, s + l)])
        else (ALTUS_UBENUM_FULL, (h, t) # bs)
      else (let (r, bs') = ub_ins n bs s l in (r, (h, t) # bs')))"

lemma sgt0_eight_minus: "unat n \<le> 8 \<Longrightarrow> sgt0 (8 - n) \<longleftrightarrow> unat n < 8"
  using sgt0_soff [of 0 8 n] by (simp add: soff_def)

lemma ub_last_index:
  "unat n \<le> 8 \<Longrightarrow> i < unat n \<Longrightarrow> word_of_nat i = n - (1::u32) \<longleftrightarrow> Suc i = unat n"
proof -
  assume a: "unat n \<le> 8" "i < unat n"
  have "word_of_nat i = n - (1::u32) \<longleftrightarrow> unat (word_of_nat i :: u32) = unat (n - 1)"
    by (simp only: word_unat_eq_iff)
  also have "unat (word_of_nat i :: u32) = i"
    using a by (simp add: unat_of_nat)
  also have "unat (n - 1) = unat n - 1"
    using a by (simp add: unat_minus_cases)
  finally show ?thesis using a by auto
qed


text \<open>
  \<open>ub_refines u i X res\<close>: the array-level result \<open>res\<close>, for a scan that reached index \<open>i\<close> of \<open>u\<close>,
  is the list-level result \<open>X\<close>; a refused range leaves the arrays as they were.
\<close>

definition ub_refines ::
  "ALTUS_UB_List \<Rightarrow> nat \<Rightarrow> ubenum \<times> (u32 \<times> u32) list \<Rightarrow> (ubenum \<times> ALTUS_UB_List) res \<Rightarrow> bool"
  where
  "ub_refines u i X res \<longleftrightarrow>
     (\<exists>u'. res = Inr (fst X, u') \<and> ub_shape u' \<and> ub_blocks u' = take i (ub_blocks u) @ snd X \<and>
           (fst X \<in> {ALTUS_UBENUM_NEW_UB_ADDED, ALTUS_UBENUM_UB_EXTENDED} \<or> u' = u))"

lemma ub_refines_refused:
  "ub_shape u \<Longrightarrow> bs = drop i (ub_blocks u) \<Longrightarrow> ub_refines u i (r, bs) (Inr (r, u))"
  by (simp add: ub_refines_def)

lemma ub_refines_accepted:
  "ub_shape u' \<Longrightarrow> ub_blocks u' = take i (ub_blocks u) @ bs \<Longrightarrow>
     r \<in> {ALTUS_UBENUM_NEW_UB_ADDED, ALTUS_UBENUM_UB_EXTENDED} \<Longrightarrow>
     ub_refines u i (r, bs) (Inr (r, u'))"
  by (simp add: ub_refines_def)

lemma ub_refines_next:
  assumes "ub_refines u (Suc i) (ub_ins n bs s l) res" "i < unat (ub_count u)"
  shows "ub_refines u i
           (let (r, bs') = ub_ins n bs s l in (r, (ub_headSeq u ! i, ub_tailSeq u ! i) # bs')) res"
  using assms by (auto simp: ub_refines_def split_beta take_Suc_conv_app_nth)

lemma altusUBCheck_loop_refines:
  assumes "ub_shape u" "i \<le> unat (ub_count u)"
  shows "ub_refines u i (ub_ins (unat (ub_count u)) (drop i (ub_blocks u)) s l)
           (altusUBCheck_loop i u s l)"
  using assms
proof (induction i u s l rule: altusUBCheck_loop.induct)
  case (1 i u s l)
  note u = "1.prems"(1)
  show ?case
  proof (cases "i < unat (ub_count u)")
    case False
    then have i: "i = unat (ub_count u)" using "1.prems" by simp
    show ?thesis
    proof (cases "ub_count u = 0")
      case True
      with i show ?thesis
        using blocks_append_slot [of u, where s = s and e = "s + l"] u
        by (subst altusUBCheck_loop.simps) (auto intro!: ub_refines_accepted)
    next
      case nz: False
      with i show ?thesis
        using u by (subst altusUBCheck_loop.simps) (auto simp: unat_eq_0 intro!: ub_refines_refused)
    qed
  next
    case True
    let ?h = "ub_headSeq u ! i" and ?t = "ub_tailSeq u ! i" and ?bs = "drop (Suc i) (ub_blocks u)"
    have i8: "i < 8" "unat (ub_count u) \<le> 8" using True u by (auto simp: ub_shape_def)
    have dr: "drop i (ub_blocks u) = (?h, ?t) # ?bs" using True by (rule drop_ub_blocks)
    have li: "word_of_nat i = ub_count u - 1 \<longleftrightarrow> ?bs = []"
      using ub_last_index [of "ub_count u" i] True i8 by auto
    have lt8: "ub_count u < 8 \<longleftrightarrow> unat (ub_count u) < 8"
      by (simp add: word_less_nat_alt)
    have eq8: "sgt0 (8 - ub_count u) \<longleftrightarrow> unat (ub_count u) < 8"
      using i8 by (simp add: sgt0_eight_minus)
    have nx: "?bs \<noteq> [] \<Longrightarrow> \<not> 8 \<le> i + 1 \<and> Suc i < unat (ub_count u) \<and>
        ?bs = (ub_headSeq u ! Suc i, ub_tailSeq u ! Suc i) # drop (Suc (Suc i)) (ub_blocks u)"
      using i8 drop_ub_blocks [of "Suc i" u] by auto
    have IH: "\<not> (sgt0 (?h - s) \<or> sgt0 (?t - s) \<or> s = ?t \<or> (sgt0 (s - ?t) \<and> ?bs = [])) \<Longrightarrow>
        ub_refines u (Suc i) (ub_ins (unat (ub_count u)) ?bs s l) (altusUBCheck_loop (i + 1) u s l)"
      using "1.IH" [OF True _ refl refl] i8 li u True by auto
    note refused = ub_refines_refused [OF u dr [symmetric]]
    note step = altusUBCheck_loop.simps [of i u s l]
    note facts = dr li lt8 eq8 i8 True
    consider (below) "sgt0 (?h - s)" | (inside) "\<not> sgt0 (?h - s)" "sgt0 (?t - s)"
      | (touch) "\<not> sgt0 (?h - s)" "\<not> sgt0 (?t - s)" "s = ?t"
      | (beyond) "\<not> sgt0 (?h - s)" "\<not> sgt0 (?t - s)" "s \<noteq> ?t" "sgt0 (s - ?t)" "?bs = []"
      | (later) "\<not> sgt0 (?h - s)" "\<not> sgt0 (?t - s)" "s \<noteq> ?t" "\<not> (sgt0 (s - ?t) \<and> ?bs = [])"
      by blast
    then show ?thesis
    proof cases
      case below
      then show ?thesis
        using blocks_open_slot [of u i, where s = s and e = "s + l"]
          blocks_set_head [of u i, where s = s] refused u facts
        by (auto simp: step Let_def not_less intro!: ub_refines_accepted)
    next
      case inside
      then show ?thesis using refused facts by (simp add: step)
    next
      case touch
      show ?thesis
      proof (cases "?bs = []")
        case True
        then show ?thesis
          using touch blocks_set_tail [of u i, where e = "s + l"] u facts
          unfolding step by (auto simp: Let_def intro!: ub_refines_accepted)
      next
        case False
        note nx = nx [OF False]
        show ?thesis
          using touch nx False blocks_set_tail [of u i, where e = "s + l"]
            blocks_merge_slot [of u i] refused u facts
          unfolding step by (auto simp: Let_def intro!: ub_refines_accepted)
      qed
    next
      case beyond
      have "ub_blocks u = take i (ub_blocks u) @ [(?h, ?t)]"
        by (metis append_take_drop_id beyond(5) dr)
      with beyond show ?thesis
        using blocks_append_slot [of u, where s = s and e = "s + l"] refused u facts
        by (auto simp: step Let_def intro!: ub_refines_accepted)
    next
      case later
      then show ?thesis
        using ub_refines_next [OF IH True] facts by (auto simp: step Let_def)
    qed
  qed
qed


section \<open>The blocks as a set of distances\<close>

text \<open>
  Distances are taken from a base sequence number \<open>b\<close> (the window's \<^verbatim>\<open>lastSeq\<close>).  \<open>chain lo\<close> says the
  blocks are non-empty, sorted, separated by at least one missing byte, not before \<open>lo\<close>, and end
  within half the sequence space.
\<close>

definition ub_dist :: "u32 \<Rightarrow> (u32 \<times> u32) list \<Rightarrow> (nat \<times> nat) list" where
  "ub_dist b = map (\<lambda>(h, t). (soff b h, soff b t))"

lemma ub_dist_simps [simp]:
  "ub_dist b [] = []"
  "ub_dist b ((h, t) # bs) = (soff b h, soff b t) # ub_dist b bs"
  "length (ub_dist b bs) = length bs"
  "ub_dist b (bs @ bs') = ub_dist b bs @ ub_dist b bs'"
  "ub_dist b bs = [] \<longleftrightarrow> bs = []"
  by (simp_all add: ub_dist_def)

fun chain :: "nat \<Rightarrow> (nat \<times> nat) list \<Rightarrow> bool" where
  "chain lo [] \<longleftrightarrow> True"
| "chain lo ((h, t) # bs) \<longleftrightarrow> lo \<le> h \<and> h < t \<and> t < 2147483648 \<and> chain (Suc t) bs"

definition cover :: "(nat \<times> nat) list \<Rightarrow> nat set" where
  "cover bs = (\<Union>(h, t)\<in>set bs. {h..<t})"

lemma cover_simps [simp]:
  "cover [] = {}" "cover ((h, t) # bs) = {h..<t} \<union> cover bs"
  by (simp_all add: cover_def)

lemma chain_mono: "chain lo bs \<Longrightarrow> lo' \<le> lo \<Longrightarrow> chain lo' bs"
  by (cases bs) auto

lemma chain_cover_ge: "chain lo bs \<Longrightarrow> x \<in> cover bs \<Longrightarrow> lo \<le> x"
  by (induction lo bs rule: chain.induct) force+

lemma chain_bounds: "chain lo bs \<Longrightarrow> (h, t) \<in> set bs \<Longrightarrow> lo \<le> h \<and> h < t \<and> t < 2147483648"
  by (induction lo bs rule: chain.induct) force+

text \<open>What the scan does to the covered set, branch by branch.\<close>

definition ins_spec ::
  "nat \<Rightarrow> nat \<Rightarrow> (nat \<times> nat) list \<Rightarrow> nat \<Rightarrow> nat \<Rightarrow> ubenum \<Rightarrow> (nat \<times> nat) list \<Rightarrow> bool" where
  "ins_spec n lo bs s e r bs' \<longleftrightarrow>
     (case r of
        ALTUS_UBENUM_NEW_UB_ADDED \<Rightarrow>
          cover bs \<inter> {s..<e} = {} \<and> cover bs' = cover bs \<union> {s..<e} \<and> chain lo bs' \<and>
          length bs' = Suc (length bs) \<and> (n < 8 \<or> bs = []) \<and> s \<notin> snd ` set bs \<and> e \<notin> fst ` set bs
      | ALTUS_UBENUM_UB_EXTENDED \<Rightarrow>
          cover bs \<inter> {s..<e} = {} \<and> cover bs' = cover bs \<union> {s..<e} \<and> chain lo bs' \<and>
          length bs' \<le> length bs \<and> (s \<in> snd ` set bs \<or> e \<in> fst ` set bs)
      | ALTUS_UBENUM_FULL \<Rightarrow>
          cover bs \<inter> {s..<e} = {} \<and> bs' = bs \<and> 8 \<le> n \<and> s \<notin> snd ` set bs \<and> e \<notin> fst ` set bs
      | ALTUS_UBENUM_MALICIOUS_INPUT \<Rightarrow> cover bs \<inter> {s..<e} \<noteq> {} \<and> bs' = bs
      | ALTUS_UBENUM_OVERLAP \<Rightarrow> False)"

lemma ins_spec_later:
  assumes "ins_spec n (Suc t) bs s e r bs'" "h < t" "t < s" "lo \<le> h" "t < 2147483648" "bs \<noteq> []" "s < e"
  shows "ins_spec n lo ((h, t) # bs) s e r ((h, t) # bs')"
  using assms by (cases r) (auto simp: ins_spec_def)

text \<open>A range that starts before the first block, touches its end, or starts later.\<close>

lemma ub_ins_spec_below:
  assumes ch: "chain lo (ub_dist b ((h, t) # bs))" and lo: "lo \<le> soff b s"
    and len: "soff b s + unat l < 2147483648" "0 < unat l" and below: "soff b s < soff b h"
  shows "ins_spec n lo (ub_dist b ((h, t) # bs)) (soff b s) (soff b s + unat l)
           (fst (ub_ins n ((h, t) # bs) s l)) (ub_dist b (snd (ub_ins n ((h, t) # bs) s l)))"
proof -
  have e: "soff b (s + l) = soff b s + unat l" using len by (simp add: soff_add)
  have B: "soff b h < soff b t" "soff b t < 2147483648" "lo \<le> soff b h"
    "chain (Suc (soff b t)) (ub_dist b bs)" using ch by auto
  have L: "soff b h < 2147483648" "soff b s < 2147483648" "soff b (s + l) < 2147483648"
    using B e len by auto
  note S = sgt0_soff [OF L(1,2)] sgt0_soff [OF L(1,3)]
  have C: "x \<in> cover (ub_dist b bs) \<Longrightarrow> soff b t < x" for x
    using chain_cover_ge [OF B(4)] by fastforce
  have D: "(x, y) \<in> set (ub_dist b bs) \<Longrightarrow> soff b t < x \<and> x < y" for x y
    using chain_bounds [OF B(4)] by fastforce
  consider (gap) "soff b (s + l) < soff b h" | (join) "s + l = h"
    | (over) "soff b h < soff b (s + l)" "s + l \<noteq> h"
    using soff_inject [of b "s + l" h] by linarith
  then show ?thesis
  proof cases
    case gap
    have "soff b s \<notin> snd ` set (ub_dist b bs)" "soff b s + unat l \<notin> fst ` set (ub_dist b bs)"
      using D below gap B(1) e by fastforce+
    then show ?thesis
      using below gap B S e lo len by (auto simp: ins_spec_def dest: C)
  next
    case join
    then show ?thesis using below B S e lo len by (auto simp: ins_spec_def dest: C)
  next
    case over
    then show ?thesis using below B S e lo len by (auto simp: ins_spec_def)
  qed
qed

lemma ub_ins_spec_touch:
  assumes ch: "chain lo (ub_dist b ((h, s) # bs))"
    and len: "soff b s + unat l < 2147483648" "0 < unat l"
  shows "ins_spec n lo (ub_dist b ((h, s) # bs)) (soff b s) (soff b s + unat l)
           (fst (ub_ins n ((h, s) # bs) s l)) (ub_dist b (snd (ub_ins n ((h, s) # bs) s l)))"
proof -
  have e: "soff b (s + l) = soff b s + unat l" using len by (simp add: soff_add)
  have B: "soff b h < soff b s" "soff b s < 2147483648" "lo \<le> soff b h"
    "chain (Suc (soff b s)) (ub_dist b bs)" using ch by auto
  have L: "soff b h < 2147483648" "soff b (s + l) < 2147483648" using B e len by auto
  note S = sgt0_soff [OF L(1) B(2)] sgt0_soff [OF B(2) B(2)]
  show ?thesis
  proof (cases bs)
    case Nil
    then show ?thesis using B S e len by (auto simp: ins_spec_def)
  next
    case (Cons b2 bs2)
    obtain h2 t2 where b2: "b2 = (h2, t2)" by (cases b2)
    have B2: "soff b s < soff b h2" "soff b h2 < soff b t2" "soff b t2 < 2147483648"
      "chain (Suc (soff b t2)) (ub_dist b bs2)"
      using B Cons b2 by auto
    have L2: "soff b h2 < 2147483648" using B2 by linarith
    have C2: "x \<in> cover (ub_dist b bs2) \<Longrightarrow> soff b t2 < x" for x
      using chain_cover_ge [OF B2(4)] by fastforce
    consider (gap) "soff b (s + l) < soff b h2" | (join) "s + l = h2"
      | (over) "soff b h2 < soff b (s + l)" "s + l \<noteq> h2"
      using soff_inject [of b "s + l" h2] by linarith
    then show ?thesis
      using B B2 S sgt0_soff [OF L2 L(2)] e Cons b2 len
      by cases (auto simp: ins_spec_def dest!: C2)
  qed
qed

lemma ub_ins_spec:
  assumes "chain lo (ub_dist b bs)" "lo \<le> soff b s" "soff b s + unat l < 2147483648" "0 < unat l"
    and "bs = [] \<Longrightarrow> n = 0"
  shows "ins_spec n lo (ub_dist b bs) (soff b s) (soff b s + unat l)
           (fst (ub_ins n bs s l)) (ub_dist b (snd (ub_ins n bs s l)))"
  using assms
proof (induction n bs s l arbitrary: lo rule: ub_ins.induct)
  case (1 n s l)
  then show ?case by (simp add: ins_spec_def soff_add)
next
  case (2 n h t bs s l)
  have e: "soff b (s + l) = soff b s + unat l" using "2.prems" by (simp add: soff_add)
  have B: "soff b h < soff b t" "soff b t < 2147483648" "lo \<le> soff b h"
    "chain (Suc (soff b t)) (ub_dist b bs)" using "2.prems" by auto
  have L: "soff b h < 2147483648" "soff b s < 2147483648" using B "2.prems" by auto
  note S = sgt0_soff [OF L] sgt0_soff [OF B(2) L(2)] sgt0_soff [OF L(2) B(2)]
  consider "soff b s < soff b h" | "soff b h \<le> soff b s" "soff b s < soff b t" | "s = t"
    | (later) "soff b t < soff b s" "s \<noteq> t"
    using soff_inject [of b s t] by linarith
  then show ?case
  proof cases
    case 1
    with "2.prems" show ?thesis by (intro ub_ins_spec_below)
  next
    case 2
    then show ?thesis using B S "2.prems" by (auto simp: ins_spec_def)
  next
    case 3
    with "2.prems" show ?thesis using ub_ins_spec_touch by blast
  next
    case later
    show ?thesis
    proof (cases "bs = []")
      case True
      then show ?thesis using later B S e "2.prems" by (auto simp: ins_spec_def)
    next
      case False
      have "ins_spec n (Suc (soff b t)) (ub_dist b bs) (soff b s) (soff b s + unat l)
              (fst (ub_ins n bs s l)) (ub_dist b (snd (ub_ins n bs s l)))"
        using later False B S "2.prems" by (intro "2.IH") auto
      then show ?thesis
        using ins_spec_later [of n "soff b t"] later False B S "2.prems"
        by (auto simp: split_beta)
    qed
  qed
qed

section \<open>The scan on the covered set\<close>

definition ub_inv :: "nat \<Rightarrow> u32 \<Rightarrow> ALTUS_UB_List \<Rightarrow> bool" where
  "ub_inv lo b u \<longleftrightarrow> ub_shape u \<and> chain lo (ub_dist b (ub_blocks u))"

definition ub_cover :: "u32 \<Rightarrow> ALTUS_UB_List \<Rightarrow> nat set" where
  "ub_cover b u = cover (ub_dist b (ub_blocks u))"

definition ub_adjacent :: "u32 \<Rightarrow> u32 \<Rightarrow> ALTUS_UB_List \<Rightarrow> bool" where
  "ub_adjacent seq len u \<longleftrightarrow>
     (\<exists>(h, t)\<in>set (ub_blocks u). t = seq \<or> h = seq + len)"

text \<open>The range of distances a packet occupies, and the ranges the comparisons can order.\<close>

definition pkt_range :: "u32 \<Rightarrow> u32 \<Rightarrow> u32 \<Rightarrow> nat set" where
  "pkt_range b seq len = {soff b seq ..< soff b seq + unat len}"

definition pkt_ok :: "u32 \<Rightarrow> u32 \<Rightarrow> u32 \<Rightarrow> bool" where
  "pkt_ok b seq len \<longleftrightarrow> 0 < unat len \<and> soff b seq + unat len < 2147483648"

lemma ub_adjacent_dist:
  assumes "pkt_ok b seq len"
  shows "ub_adjacent seq len u \<longleftrightarrow>
           soff b seq \<in> snd ` set (ub_dist b (ub_blocks u)) \<or>
           soff b seq + unat len \<in> fst ` set (ub_dist b (ub_blocks u))"
proof -
  have e: "soff b seq + unat len = soff b (seq + len)"
    using assms by (simp add: pkt_ok_def soff_add)
  show ?thesis
    unfolding ub_adjacent_def e by (force simp: ub_dist_def image_iff)
qed

lemma altusUBCheck_spec:
  assumes "ub_inv lo b u" "pkt_ok b seq len" "lo \<le> soff b seq"
  obtains r u' where "altusUBCheck u seq len = Inr (r, u')" "ub_shape u'"
    "ins_spec (unat (ub_count u)) lo (ub_dist b (ub_blocks u)) (soff b seq)
       (soff b seq + unat len) r (ub_dist b (ub_blocks u'))"
    "r \<in> {ALTUS_UBENUM_NEW_UB_ADDED, ALTUS_UBENUM_UB_EXTENDED} \<or> u' = u"
proof -
  have "ub_shape u" and ch: "chain lo (ub_dist b (ub_blocks u))"
    using assms by (simp_all add: ub_inv_def)
  then obtain u' where
    u': "altusUBCheck u seq len = Inr (fst (ub_ins (unat (ub_count u)) (ub_blocks u) seq len), u')"
        "ub_shape u'" "ub_blocks u' = snd (ub_ins (unat (ub_count u)) (ub_blocks u) seq len)"
        "fst (ub_ins (unat (ub_count u)) (ub_blocks u) seq len)
           \<in> {ALTUS_UBENUM_NEW_UB_ADDED, ALTUS_UBENUM_UB_EXTENDED} \<or> u' = u"
    using altusUBCheck_loop_refines [of u 0 seq len]
    by (auto simp: ub_refines_def altusUBCheck_def)
  have "ub_blocks u = [] \<Longrightarrow> unat (ub_count u) = 0"
    by (metis length_ub_blocks list.size(3))
  then have "ins_spec (unat (ub_count u)) lo (ub_dist b (ub_blocks u)) (soff b seq)
       (soff b seq + unat len) (fst (ub_ins (unat (ub_count u)) (ub_blocks u) seq len))
       (ub_dist b (ub_blocks u'))"
    unfolding u'(3) using assms ch by (intro ub_ins_spec) (auto simp: pkt_ok_def)
  with u' show thesis by (intro that) auto
qed

lemma altusUBPop_blocks:
  assumes "ub_shape u" "0 < unat (ub_count u)"
  shows "ub_shape (altusUBPop u)" "ub_blocks (altusUBPop u) = tl (ub_blocks u)"
proof -
  have c: "unat (ub_count (altusUBPop u)) = unat (ub_count u) - 1"
    using assms by (simp add: altusUBPop_def Let_def ub_count_pred)
  show "ub_shape (altusUBPop u)"
    using assms c by (auto simp: ub_shape_def) (auto simp: altusUBPop_def Let_def)
  show "ub_blocks (altusUBPop u) = tl (ub_blocks u)"
  proof (rule nth_equalityI)
    show "length (ub_blocks (altusUBPop u)) = length (tl (ub_blocks u))"
      using c by simp
    fix i assume "i < length (ub_blocks (altusUBPop u))"
    then have i: "i < unat (ub_count u) - 1" "i < 7"
      using c assms by (auto simp: ub_shape_def)
    then have "i \<in> {0,1,2,3,4,5,6}" by auto
    then have "ub_headSeq (altusUBPop u) ! i = ub_headSeq u ! Suc i \<and>
               ub_tailSeq (altusUBPop u) ! i = ub_tailSeq u ! Suc i"
      using assms(1) by (auto simp: altusUBPop_def Let_def ub_shape_def eval_nat_numeral)
    then show "ub_blocks (altusUBPop u) ! i = tl (ub_blocks u) ! i"
      using i c by (simp add: nth_tl)
  qed
qed

text \<open>Moving the base forward to a block's end shifts every later distance.\<close>

lemma soff_rebase:
  "soff b b' \<le> soff b s \<Longrightarrow> soff b' s = soff b s - soff b b'"
  unfolding soff_def
  using unat_minus_cases [of "s - b" "b' - b"] by simp

lemma chain_rebase:
  "chain lo (ub_dist b bs) \<Longrightarrow> soff b b' \<le> lo \<Longrightarrow> chain (lo - soff b b') (ub_dist b' bs)"
proof (induction bs arbitrary: lo)
  case (Cons a bs)
  obtain h t where a: "a = (h, t)" by (cases a)
  have B: "lo \<le> soff b h" "soff b h < soff b t" "soff b t < 2147483648"
    "chain (Suc (soff b t)) (ub_dist b bs)"
    using Cons.prems a by auto
  have "chain (Suc (soff b t) - soff b b') (ub_dist b' bs)"
    using B Cons.prems by (intro Cons.IH) auto
  moreover have "soff b' h = soff b h - soff b b'" "soff b' t = soff b t - soff b b'"
    using B Cons.prems by (auto intro: soff_rebase)
  ultimately show ?case
    using B Cons.prems a by (auto simp: Suc_diff_le diff_less_mono)
qed simp

lemma cover_rebase:
  "chain lo (ub_dist b bs) \<Longrightarrow> soff b b' \<le> lo \<Longrightarrow>
     x \<in> cover (ub_dist b' bs) \<longleftrightarrow> x + soff b b' \<in> cover (ub_dist b bs)"
proof (induction bs arbitrary: lo)
  case (Cons a bs)
  obtain h t where a: "a = (h, t)" by (cases a)
  have B: "lo \<le> soff b h" "soff b h < soff b t" "chain (Suc (soff b t)) (ub_dist b bs)"
    using Cons.prems a by auto
  have "x \<in> cover (ub_dist b' bs) \<longleftrightarrow> x + soff b b' \<in> cover (ub_dist b bs)"
    using B Cons.prems by (intro Cons.IH [of "Suc (soff b t)"]) auto
  moreover have "soff b' h = soff b h - soff b b'" "soff b' t = soff b t - soff b b'"
    using B Cons.prems by (auto intro: soff_rebase)
  ultimately show ?case
    using B Cons.prems a by auto
qed simp

section \<open>The contract of a range tracker\<close>

text \<open>
  What the receive window relies on, whatever keeps the ranges: a range is accepted exactly when
  it is new, there is room for it, and afterwards the tracker covers it and everything it covered.
\<close>

fun feed :: "('l \<Rightarrow> u32 \<Rightarrow> u32 \<Rightarrow> bool \<times> 'l) \<Rightarrow> 'l \<Rightarrow> (u32 \<times> u32) list \<Rightarrow> (u32 \<times> u32) list \<times> 'l"
  where
  "feed chk t [] = ([], t)"
| "feed chk t ((s, n) # ps) =
     (let (ok, t') = chk t s n; (acc, t'') = feed chk t' ps
      in (if ok then (s, n) # acc else acc, t''))"

locale range_tracker =
  fixes chk :: "'l \<Rightarrow> u32 \<Rightarrow> u32 \<Rightarrow> bool \<times> 'l"
    and inv :: "u32 \<Rightarrow> 'l \<Rightarrow> bool"
    and cov :: "u32 \<Rightarrow> 'l \<Rightarrow> nat set"
  assumes finite_cov: "inv b t \<Longrightarrow> finite (cov b t)"
    and accept: "inv b t \<Longrightarrow> pkt_ok b s n \<Longrightarrow> chk t s n = (True, t') \<Longrightarrow>
          inv b t' \<and> cov b t \<inter> pkt_range b s n = {} \<and> cov b t' = cov b t \<union> pkt_range b s n"
    and refuse: "inv b t \<Longrightarrow> pkt_ok b s n \<Longrightarrow> chk t s n = (False, t') \<Longrightarrow> t' = t"
begin

lemma chk_step:
  assumes "inv b t" "pkt_ok b s n" "chk t s n = (ok, t')"
  shows "inv b t'" "cov b t' = (if ok then cov b t \<union> pkt_range b s n else cov b t)"
    "card (cov b t') = card (cov b t) + (if ok then unat n else 0)"
proof -
  show i: "inv b t'" and c: "cov b t' = (if ok then cov b t \<union> pkt_range b s n else cov b t)"
    using accept [OF assms(1,2), of t'] refuse [OF assms(1,2), of t'] assms(1,3)
    by (cases ok; simp)+
  show "card (cov b t') = card (cov b t) + (if ok then unat n else 0)"
    using c accept [OF assms(1,2), of t'] assms(3) finite_cov [OF assms(1)]
    by (cases ok) (simp_all add: card_Un_disjoint pkt_range_def)
qed

lemma feed_Cons:
  assumes "chk t s n = (ok, t')"
  shows "snd (feed chk t ((s, n) # ps)) = snd (feed chk t' ps)"
    "fst (feed chk t ((s, n) # ps)) = (if ok then [(s, n)] else []) @ fst (feed chk t' ps)"
  using assms by (simp_all add: split_beta)

lemma feed_inv:
  "inv b t \<Longrightarrow> \<forall>(s, n)\<in>set ps. pkt_ok b s n \<Longrightarrow> inv b (snd (feed chk t ps))"
proof (induction ps arbitrary: t)
  case (Cons p ps)
  obtain s n where p: "p = (s, n)" by (cases p)
  obtain ok t' where c: "chk t s n = (ok, t')" by (cases "chk t s n")
  then have "inv b t'" using Cons.prems p by (auto dest: chk_step)
  then show ?case using Cons feed_Cons [OF c] p by simp
qed simp

lemma feed_cov:
  "inv b t \<Longrightarrow> \<forall>(s, n)\<in>set ps. pkt_ok b s n \<Longrightarrow>
     cov b (snd (feed chk t ps)) =
       cov b t \<union> (\<Union>(s, n)\<in>set (fst (feed chk t ps)). pkt_range b s n)"
proof (induction ps arbitrary: t)
  case (Cons p ps)
  obtain s n where p: "p = (s, n)" by (cases p)
  obtain ok t' where c: "chk t s n = (ok, t')" by (cases "chk t s n")
  have "pkt_ok b s n" using Cons.prems p by simp
  note t' = chk_step [OF Cons.prems(1) this c]
  then show ?case
    using Cons.IH [OF t'(1)] Cons.prems feed_Cons [OF c] p by (simp add: Un_assoc)
qed simp

text \<open>No byte is accepted twice: the covered set grows by exactly the accepted lengths.\<close>

lemma feed_card:
  "inv b t \<Longrightarrow> \<forall>(s, n)\<in>set ps. pkt_ok b s n \<Longrightarrow>
     card (cov b (snd (feed chk t ps))) =
       card (cov b t) + sum_list (map (unat \<circ> snd) (fst (feed chk t ps)))"
proof (induction ps arbitrary: t)
  case (Cons p ps)
  obtain s n where p: "p = (s, n)" by (cases p)
  obtain ok t' where c: "chk t s n = (ok, t')" by (cases "chk t s n")
  have "pkt_ok b s n" using Cons.prems p by simp
  note t' = chk_step [OF Cons.prems(1) this c]
  then show ?case
    using Cons.IH [OF t'(1)] Cons.prems feed_Cons [OF c] p by simp
qed simp

end

text \<open>The list of \<^verbatim>\<open>ublist.c\<close> as a tracker: the two accepting codes against the others.\<close>

definition ub_try :: "ALTUS_UB_List \<Rightarrow> u32 \<Rightarrow> u32 \<Rightarrow> bool \<times> ALTUS_UB_List" where
  "ub_try u seq len =
     (case altusUBCheck u seq len of
        Inl f \<Rightarrow> (False, u)
      | Inr (r, u') \<Rightarrow>
          (r \<in> {ALTUS_UBENUM_NEW_UB_ADDED, ALTUS_UBENUM_UB_EXTENDED}, u'))"

interpretation ub: range_tracker ub_try "ub_inv 0" ub_cover
proof unfold_locales
  fix b u s n u'
  show "finite (ub_cover b u)" by (auto simp: ub_cover_def cover_def)
  assume u: "ub_inv 0 b u" and p: "pkt_ok b s n"
  obtain r v where v: "altusUBCheck u s n = Inr (r, v)" "ub_shape v"
    "ins_spec (unat (ub_count u)) 0 (ub_dist b (ub_blocks u)) (soff b s)
       (soff b s + unat n) r (ub_dist b (ub_blocks v))"
    "r \<in> {ALTUS_UBENUM_NEW_UB_ADDED, ALTUS_UBENUM_UB_EXTENDED} \<or> v = u"
    using altusUBCheck_spec [OF u p] by auto
  show "ub_inv 0 b u' \<and> ub_cover b u \<inter> pkt_range b s n = {} \<and>
        ub_cover b u' = ub_cover b u \<union> pkt_range b s n" if "ub_try u s n = (True, u')"
    using that v
    by (cases r) (simp_all add: ub_try_def ins_spec_def ub_inv_def ub_cover_def pkt_range_def)
  show "u' = u" if "ub_try u s n = (False, u')"
    using that v by (auto simp: ub_try_def)
qed

lemma altusUBCheck_result:
  assumes inv: "ub_inv lo b u" and pkt: "pkt_ok b seq len" and lo: "lo \<le> soff b seq"
  shows "\<exists>r u'. altusUBCheck u seq len = Inr (r, u') \<and> ub_inv lo b u' \<and>
      r \<noteq> ALTUS_UBENUM_OVERLAP \<and>
      (r = ALTUS_UBENUM_MALICIOUS_INPUT \<longleftrightarrow> ub_cover b u \<inter> pkt_range b seq len \<noteq> {}) \<and>
      (r = ALTUS_UBENUM_UB_EXTENDED \<longleftrightarrow>
         ub_cover b u \<inter> pkt_range b seq len = {} \<and> ub_adjacent seq len u) \<and>
      (r = ALTUS_UBENUM_FULL \<longleftrightarrow>
         ub_cover b u \<inter> pkt_range b seq len = {} \<and> \<not> ub_adjacent seq len u \<and>
         unat (ub_count u) = 8) \<and>
      ub_cover b u' =
        (if r \<in> {ALTUS_UBENUM_NEW_UB_ADDED, ALTUS_UBENUM_UB_EXTENDED}
         then ub_cover b u \<union> pkt_range b seq len else ub_cover b u) \<and>
      (r \<in> {ALTUS_UBENUM_FULL, ALTUS_UBENUM_MALICIOUS_INPUT} \<longrightarrow> u' = u)"
proof -
  obtain r u' where r: "altusUBCheck u seq len = Inr (r, u')" "ub_shape u'"
    "ins_spec (unat (ub_count u)) lo (ub_dist b (ub_blocks u)) (soff b seq)
       (soff b seq + unat len) r (ub_dist b (ub_blocks u'))"
    "r \<in> {ALTUS_UBENUM_NEW_UB_ADDED, ALTUS_UBENUM_UB_EXTENDED} \<or> u' = u"
    using altusUBCheck_spec [OF inv pkt lo] by blast
  have n: "unat (ub_count u) \<le> 8" "ub_blocks u = [] \<Longrightarrow> unat (ub_count u) = 0"
    using inv length_ub_blocks [of u] by (auto simp: ub_inv_def ub_shape_def)
  show ?thesis
    using r inv n
    by (intro exI [of _ r] exI [of _ u'], cases r)
       (auto simp: ins_spec_def ub_inv_def ub_cover_def pkt_range_def ub_adjacent_dist [OF pkt])
qed

section \<open>Properties\<close>

text \<open>
  C1.  For a packet within half the sequence space of the base, the scan never
  faults, answers MALICIOUS exactly when the packet overlaps a stored block, EXTENDED exactly when
  it is new and touches one, FULL or NEW according to whether all eight slots are in use, never
  OVERLAP; an accepted packet is added to the covered set and nothing else changes, a refused one
  leaves the arrays untouched, and the blocks stay sorted and separated.
\<close>

theorem altusUBCheck_correct:
  assumes inv: "ub_inv lo b u" and pkt: "pkt_ok b seq len" and lo: "lo \<le> soff b seq"
  shows "\<exists>r u'. altusUBCheck u seq len = Inr (r, u') \<and> ub_inv lo b u' \<and>
      r \<noteq> ALTUS_UBENUM_OVERLAP \<and>
      (r = ALTUS_UBENUM_MALICIOUS_INPUT \<longleftrightarrow> ub_cover b u \<inter> pkt_range b seq len \<noteq> {}) \<and>
      (r = ALTUS_UBENUM_UB_EXTENDED \<longleftrightarrow>
         ub_cover b u \<inter> pkt_range b seq len = {} \<and> ub_adjacent seq len u) \<and>
      (r = ALTUS_UBENUM_FULL \<longleftrightarrow>
         ub_cover b u \<inter> pkt_range b seq len = {} \<and> \<not> ub_adjacent seq len u \<and>
         unat (ub_count u) = 8) \<and>
      ub_cover b u' =
        (if r \<in> {ALTUS_UBENUM_NEW_UB_ADDED, ALTUS_UBENUM_UB_EXTENDED}
         then ub_cover b u \<union> pkt_range b seq len else ub_cover b u) \<and>
      (r \<in> {ALTUS_UBENUM_FULL, ALTUS_UBENUM_MALICIOUS_INPUT} \<longrightarrow> u' = u)"
  using altusUBCheck_result [OF assms] .

definition ub_example :: ALTUS_UB_List where
  "ub_example = \<lparr>ub_headSeq = [20, 60, 0, 0, 0, 0, 0, 0], ub_tailSeq = [40, 80, 0, 0, 0, 0, 0, 0],
                 ub_count = 2\<rparr>"

lemma ub_example_inv: "ub_inv 0 0 ub_example"
  by (simp add: ub_inv_def ub_shape_def ub_blocks_def ub_example_def soff_def upt_rec)

theorem altusUBCheck_correct_witness:
  "ub_inv 0 0 ub_example \<and> pkt_ok 0 40 20 \<and>
   (\<exists>u'. altusUBCheck ub_example 40 20 = Inr (ALTUS_UBENUM_UB_EXTENDED, u') \<and>
         ub_cover 0 u' = ub_cover 0 ub_example \<union> {40..<60})"
proof -
  have p: "pkt_ok 0 40 20" by (simp add: pkt_ok_def soff_def)
  have r: "pkt_range 0 40 20 = {40..<60}" by (simp add: pkt_range_def soff_def)
  have "ub_cover 0 ub_example \<inter> pkt_range 0 40 20 = {}" "ub_adjacent 40 20 ub_example"
    by (auto simp: ub_cover_def ub_blocks_def ub_example_def soff_def r ub_adjacent_def upt_rec)
  then show ?thesis
    using altusUBCheck_correct [OF ub_example_inv p] ub_example_inv p r by fastforce
qed

text \<open>
  C9.  Over any run of packets, the covered set is what it was plus the
  accepted packets, and grows by exactly the sum of the accepted lengths: no byte is accepted twice.
\<close>

theorem altusUBCheck_no_byte_twice:
  assumes "ub_inv 0 b u" "\<forall>(s, n)\<in>set ps. pkt_ok b s n"
  shows "ub_cover b (snd (feed ub_try u ps)) =
           ub_cover b u \<union> (\<Union>(s, n)\<in>set (fst (feed ub_try u ps)). pkt_range b s n) \<and>
         card (ub_cover b (snd (feed ub_try u ps))) =
           card (ub_cover b u) + sum_list (map (unat \<circ> snd) (fst (feed ub_try u ps)))"
  using ub.feed_cov [OF assms] ub.feed_card [OF assms] by auto

theorem altusUBCheck_no_byte_twice_witness:
  "fst (feed ub_try ub_example [(40, 20), (50, 5), (90, 10)]) = [(40, 20), (90, 10)] \<and>
   card (ub_cover 0 (snd (feed ub_try ub_example [(40, 20), (50, 5), (90, 10)]))) =
     card (ub_cover 0 ub_example) + 30"
proof -
  have p: "\<forall>(s, n)\<in>set [(40, 20), (50, 5), (90, 10)]. pkt_ok 0 s n"
    by (simp add: pkt_ok_def soff_def)
  have f: "fst (feed ub_try ub_example [(40, 20), (50, 5), (90, 10)]) = [(40, 20), (90, 10)]"
    by code_simp
  show ?thesis
    using altusUBCheck_no_byte_twice [OF ub_example_inv p, THEN conjunct2] f
    by (simp del: feed.simps)
qed

text \<open>
  Popping a non-empty list removes exactly the first block: the rest stays
  sorted, and what is still covered is what lay past the first block's end.
\<close>

theorem altusUBPop_correct:
  assumes "ub_inv lo b u" "ub_blocks u = (h, t) # bs"
  shows "ub_inv (Suc (soff b t)) b (altusUBPop u) \<and> ub_blocks (altusUBPop u) = bs \<and>
         ub_cover b (altusUBPop u) = {x \<in> ub_cover b u. soff b t < x}"
proof -
  have "0 < unat (ub_count u)" "ub_shape u"
    using assms length_ub_blocks [of u] by (auto simp: ub_inv_def)
  note pop = altusUBPop_blocks [OF this(2,1)]
  have ch: "chain (Suc (soff b t)) (ub_dist b bs)" "soff b h < soff b t"
    using assms by (auto simp: ub_inv_def)
  show ?thesis
    using pop ch assms chain_cover_ge [OF ch(1)] by (auto simp: ub_inv_def ub_cover_def Suc_le_eq)
qed

theorem altusUBPop_correct_witness:
  "ub_blocks ub_example = [(20, 40), (60, 80)] \<and> ub_blocks (altusUBPop ub_example) = [(60, 80)]"
proof -
  have b: "ub_blocks ub_example = [(20, 40), (60, 80)]"
    by (simp add: ub_blocks_def ub_example_def upt_rec)
  show ?thesis using altusUBPop_correct [OF ub_example_inv b] b by simp
qed

end
