(* ===== verification/WindowedQueue.thy ===== *)
theory WindowedQueue
  imports NodeHeap UBList
begin

text \<open>
  The windowed queue of \<^verbatim>\<open>src/ALTUS/windowedqueue.c\<close>: a receive (or send) window kept as a doubly
  linked chain of 4096-byte nodes, of which a prefix up to \<open>safe_tail\<close> holds bytes in order and the
  rest bytes that arrived early, and a pool of recycled nodes.

  A window and a pool are records; the nodes live in the heap of theory \<open>NodeHeap\<close>.  Every operation
  takes and returns heap, window and pool.  The model is of the release build: the null checks under
  \<^verbatim>\<open>#ifdef _DEBUG\<close> and the printing functions are left out, dereferencing a null pointer is a fault.
\<close>

section \<open>Data\<close>

record WQ_Window =
  head :: addr
  safe_tail :: addr
  unsafe_tail :: addr
  safe_len :: u32
  unsafe_len :: u32
  headDataOffset :: u32
  headSeq :: u32
  ub_list :: ALTUS_UB_List
  lastSeq :: u32
  windowSize :: u32

record WQ_Node_Pool =
  recycled_head :: addr
  recycled_tail :: addr
  pool_len :: u32

abbreviation (input) ALTUS_WINDOW_BLOCK_MAX_DEFAULT :: u32 where
  "ALTUS_WINDOW_BLOCK_MAX_DEFAULT \<equiv> 0x20000"

abbreviation (input) ALTUS_WINDOW_BLOCK_MAX_ABSOLUTE :: u32 where
  "ALTUS_WINDOW_BLOCK_MAX_ABSOLUTE \<equiv> 0x40000000"

type_synonym wqs = "heap \<times> WQ_Window \<times> WQ_Node_Pool"

section \<open>Construction\<close>

text \<open>
  A window is allocated as a struct and a first node.  \<open>w0\<close> is the indeterminate content of the
  struct's memory: \<^verbatim>\<open>headSeq\<close>, \<^verbatim>\<open>lastSeq\<close> and the block arrays keep it.  The address of the struct is
  returned beside its content.
\<close>

definition altusNewWindow :: "heap \<Rightarrow> WQ_Window \<Rightarrow> (heap \<times> addr \<times> WQ_Window) res" where
  "altusNewWindow h w0 =
     (let (newWindow, h) = malloc h in
      if newWindow = 0 then Inl ExitProgram
      else
        let (hd, h) = malloc h in
        if hd = 0 then Inl ExitProgram
        else
          let w = w0\<lparr>head := hd, safe_tail := hd, unsafe_tail := hd, safe_len := 1, unsafe_len := 0,
                     headDataOffset := 0, ub_list := (ub_list w0)\<lparr>ub_count := 0\<rparr>,
                     windowSize := ALTUS_WINDOW_BLOCK_MAX_DEFAULT\<rparr>
          in rbind (upd h hd (\<lambda>n. n\<lparr>to_head := 0, to_tail := 0, validBlockCount := 0\<rparr>))
               (\<lambda>h. Inr (h, newWindow, w)))"

definition altusWQNewNodePool :: "heap \<Rightarrow> (heap \<times> addr \<times> WQ_Node_Pool) res" where
  "altusWQNewNodePool h =
     (let (newPool, h) = malloc h in
      if newPool = 0 then Inl ExitProgram
      else
        let (hd, h) = malloc h in
        if hd = 0 then Inl ExitProgram
        else rbind (upd h hd (\<lambda>n. n\<lparr>to_head := 0, to_tail := 0, validBlockCount := 0\<rparr>))
               (\<lambda>h. Inr (h, newPool, \<lparr>recycled_head = hd, recycled_tail = hd, pool_len = 1\<rparr>)))"

section \<open>Moving nodes between window and pool\<close>

definition altusWQPopNode :: "heap \<Rightarrow> WQ_Window \<Rightarrow> WQ_Node_Pool \<Rightarrow> (int \<times> wqs) res" where
  "altusWQPopNode h window pool =
     (if head window = safe_tail window then Inr (-1, h, window\<lparr>safe_len := 1\<rparr>, pool)
      else
        let old_head = head window in
        rbind (deref h old_head) (\<lambda>nd.
        let window = window\<lparr>head := to_tail nd\<rparr> in
        rbind (upd h (head window) (\<lambda>n. n\<lparr>to_head := 0\<rparr>)) (\<lambda>h.
        let window = window\<lparr>safe_len := safe_len window - 1\<rparr> in
        rbind (upd h old_head (\<lambda>n. n\<lparr>to_tail := 0\<rparr>)) (\<lambda>h.
        rbind (upd h old_head (\<lambda>n. n\<lparr>to_head := recycled_tail pool\<rparr>)) (\<lambda>h.
        rbind (upd h (recycled_tail pool) (\<lambda>n. n\<lparr>to_tail := old_head\<rparr>)) (\<lambda>h.
        Inr (0, h, window, pool\<lparr>recycled_tail := old_head, pool_len := pool_len pool + 1\<rparr>)))))))"

definition altusWQNewNode :: "heap \<Rightarrow> WQ_Window \<Rightarrow> WQ_Node_Pool \<Rightarrow> wqs res" where
  "altusWQNewNode h window pool =
     rbind
       (if recycled_head pool = recycled_tail pool then
          let (newNode, h) = malloc h in Inr (newNode, h, pool)
        else
          let newNode = recycled_head pool in
          rbind (deref h newNode) (\<lambda>nd.
          let pool = pool\<lparr>recycled_head := to_tail nd\<rparr> in
          rbind (upd h (recycled_head pool) (\<lambda>n. n\<lparr>to_head := 0\<rparr>)) (\<lambda>h.
          Inr (newNode, h, pool\<lparr>pool_len := pool_len pool - 1\<rparr>))))
       (\<lambda>(newNode, h, pool).
          if newNode = 0 then Inl ExitProgram
          else
            rbind (upd h newNode (\<lambda>n. n\<lparr>to_tail := 0\<rparr>)) (\<lambda>h.
            rbind (upd h newNode (\<lambda>n. n\<lparr>to_head := unsafe_tail window\<rparr>)) (\<lambda>h.
            rbind (upd h (unsafe_tail window) (\<lambda>n. n\<lparr>to_tail := newNode\<rparr>)) (\<lambda>h.
            Inr (h, window\<lparr>unsafe_tail := newNode, unsafe_len := unsafe_len window + 1\<rparr>, pool)))))"

section \<open>Storing a packet\<close>

text \<open>The loop of \<^verbatim>\<open>altusWQPut\<close> that copies the packet, node by node.\<close>

function altusWQPut_copy ::
  "u8 list \<Rightarrow> u32 \<Rightarrow> heap \<Rightarrow> WQ_Window \<Rightarrow> WQ_Node_Pool \<Rightarrow> addr \<Rightarrow> u32 \<Rightarrow> u32 \<Rightarrow> u32 \<Rightarrow> wqs res" where
  "altusWQPut_copy data len h window pool currentNode currentNodeSeq leftSeq leftLen =
     (if leftLen = 0 then Inr (h, window, pool)
      else
        let writelen = currentNodeSeq + 4096 - leftSeq in
        if writelen \<le> 0 then
          rbind (if currentNode = unsafe_tail window then altusWQNewNode h window pool
                 else Inr (h, window, pool)) (\<lambda>(h, window, pool).
          rbind (deref h currentNode) (\<lambda>nd.
          altusWQPut_copy data len h window pool (to_tail nd) (currentNodeSeq + 4096) leftSeq leftLen))
        else
          let writelen = (if leftLen < writelen then leftLen else writelen);
              writeoffset = (ucast (leftSeq - currentNodeSeq) :: u16)
          in
          rbind (memcpy_node h currentNode (unat writeoffset) data (unat (len - leftLen)) (unat writelen))
            (\<lambda>h.
          let leftSeq = leftSeq + writelen; leftLen = leftLen - writelen in
          if leftLen \<noteq> 0 \<or> leftSeq = currentNodeSeq + 4096 then
            rbind (altusWQNewNode h window pool) (\<lambda>(h, window, pool).
            rbind (deref h currentNode) (\<lambda>nd.
            altusWQPut_copy data len h window pool (to_tail nd) (currentNodeSeq + 4096) leftSeq leftLen))
          else altusWQPut_copy data len h window pool currentNode currentNodeSeq leftSeq leftLen))"
  by pat_completeness auto
termination
proof (relation "measure (\<lambda>(d, n, h, w, p, c, cs, ls, ll). 2 * unat ll + (if cs + 4096 - ls = 0 then 1 else 0))",
    goal_cases)
  case 1
  then show ?case by simp
next
  case (2 d n h w p c cs ls ll wl x h' x' w' p' nd)
  then show ?case by simp
next
  case (3 d n h w p c cs ls ll wl wl' off h' ls' ll' x h'' x' w' p' nd)
  then have "0 < unat wl'" "unat wl' \<le> unat ll" "ll' = ll - wl'"
    by (auto simp: word_less_nat_alt word_le_nat_alt unat_gt_0)
  then show ?case by (auto simp: unat_minus_cases)
next
  case (4 d n h w p c cs ls ll wl wl' off h' ls' ll')
  then have "0 < unat wl'" "unat wl' \<le> unat ll" "ll' = ll - wl'"
    by (auto simp: word_less_nat_alt word_le_nat_alt unat_gt_0)
  then show ?case by (auto simp: unat_minus_cases)
qed

declare altusWQPut_copy.simps [simp del]

text \<open>
  One turn of the \<^verbatim>\<open>while (1)\<close> loop that moves \<open>safe_tail\<close> and \<open>lastSeq\<close> up to \<open>newSeq\<close>; the flag says
  whether the turn ends in \<^verbatim>\<open>continue\<close>.
\<close>

definition altusWQPut_turn :: "heap \<Rightarrow> WQ_Window \<Rightarrow> u32 \<Rightarrow> (bool \<times> heap \<times> WQ_Window) res" where
  "altusWQPut_turn h window newSeq =
     rbind (deref h (safe_tail window)) (\<lambda>st.
     let SafeNodeSeq = lastSeq window - validBlockCount st;
         seqDiff = newSeq - SafeNodeSeq
     in if sint seqDiff > 4096 then
          rbind (upd h (safe_tail window) (\<lambda>n. n\<lparr>validBlockCount := 4096\<rparr>)) (\<lambda>h.
          let window = window\<lparr>lastSeq := SafeNodeSeq + 4096, safe_len := safe_len window + 1,
                              unsafe_len := unsafe_len window - 1\<rparr> in
          rbind (deref h (safe_tail window)) (\<lambda>st.
          let window = window\<lparr>safe_tail := to_tail st\<rparr> in
          rbind (upd h (safe_tail window) (\<lambda>n. n\<lparr>validBlockCount := 0\<rparr>)) (\<lambda>h.
          Inr (True, h, window))))
        else if sint seqDiff = 4096 then
          rbind (upd h (safe_tail window) (\<lambda>n. n\<lparr>validBlockCount := seqDiff\<rparr>)) (\<lambda>h.
          rbind (deref h (safe_tail window)) (\<lambda>st.
          let window = window\<lparr>safe_tail := to_tail st\<rparr> in
          rbind (upd h (safe_tail window) (\<lambda>n. n\<lparr>validBlockCount := 0\<rparr>)) (\<lambda>h.
          Inr (False, h, window\<lparr>safe_len := safe_len window + 1,
                                unsafe_len := unsafe_len window - 1\<rparr>))))
        else
          rbind (upd h (safe_tail window) (\<lambda>n. n\<lparr>validBlockCount := seqDiff\<rparr>)) (\<lambda>h.
          Inr (False, h, window\<lparr>lastSeq := newSeq\<rparr>)))"

text \<open>The distance the loop still has to cover: it shrinks by a node at every \<^verbatim>\<open>continue\<close>.\<close>

definition advance_left :: "heap \<Rightarrow> WQ_Window \<Rightarrow> u32 \<Rightarrow> int" where
  "advance_left h window newSeq =
     sint (newSeq - (lastSeq window - validBlockCount (node h (safe_tail window))))"

lemma upd_Inr: "upd h a f = Inr h' \<longleftrightarrow>
    a \<noteq> 0 \<and> live h a \<and> h' = h\<lparr>node := (node h)(a := f (node h a))\<rparr>"
  by (auto simp: upd_def)

lemma deref_Inr: "deref h a = Inr n \<longleftrightarrow> a \<noteq> 0 \<and> live h a \<and> n = node h a"
  by (auto simp: deref_def)

lemma sint_minus_4096:
  "4096 < sint (x :: u32) \<Longrightarrow> sint (x - 4096) = sint x - 4096"
proof -
  assume a: "4096 < sint x"
  have "int (unat x) < 2147483648" "4096 < int (unat x)"
    using a unat_u32_lt [of x] unfolding sint_cases by (simp only: split: if_splits; linarith)+
  then have "unat x < 2147483648" "4096 < unat x" by linarith+
  moreover from this have "unat (x - 4096) = unat x - 4096" by (simp add: unat_minus_cases)
  ultimately show ?thesis by (simp only: sint_cases) auto
qed

lemma altusWQPut_turn_decreases:
  assumes "altusWQPut_turn h w newSeq = Inr (True, h', w')"
  shows "4096 < advance_left h w newSeq \<and> advance_left h' w' newSeq = advance_left h w newSeq - 4096"
proof -
  let ?d = "newSeq - (lastSeq w - validBlockCount (node h (safe_tail w)))"
  have g: "4096 < sint ?d" and e: "advance_left h' w' newSeq = sint (?d - 4096)"
    using assms
    by (auto simp: altusWQPut_turn_def rbind_Inr_iff upd_Inr deref_Inr Let_def advance_left_def
        diff_diff_eq add.commute split: if_splits)
  show ?thesis using sint_minus_4096 [OF g] g e by (simp add: advance_left_def)
qed

function altusWQPut_advance :: "heap \<Rightarrow> WQ_Window \<Rightarrow> u32 \<Rightarrow> (heap \<times> WQ_Window) res" where
  "altusWQPut_advance h window newSeq =
     rbind (altusWQPut_turn h window newSeq) (\<lambda>(c, h, window).
     if c then altusWQPut_advance h window newSeq else Inr (h, window))"
  by pat_completeness auto
termination
  by (relation "measure (\<lambda>(h, w, s). nat (advance_left h w s))")
     (auto dest!: altusWQPut_turn_decreases)

declare altusWQPut_advance.simps [simp del]

definition altusWQPut ::
  "heap \<Rightarrow> WQ_Window \<Rightarrow> WQ_Node_Pool \<Rightarrow> u32 \<Rightarrow> u32 \<Rightarrow> u8 list \<Rightarrow> (int \<times> wqs) res" where
  "altusWQPut h window pool seq len data =
     (if sgt0 (lastSeq window - seq) then Inr (-2, h, window, pool)
      else
        let required_new_node_count = (seq + len - lastSeq window) div 4096 + 1 in
        if safe_len window + required_new_node_count > windowSize window then
          Inr (-3, h, window, pool)
        else
          rbind (altusUBCheck (ub_list window) seq len) (\<lambda>(retval, ubl).
          let window = window\<lparr>ub_list := ubl\<rparr> in
          if retval = ALTUS_UBENUM_FULL then Inr (-4, h, window, pool)
          else if retval = ALTUS_UBENUM_MALICIOUS_INPUT then Inr (-5, h, window, pool)
          else if retval = ALTUS_UBENUM_OVERLAP then Inr (-2, h, window, pool)
          else
            rbind (deref h (safe_tail window)) (\<lambda>st.
            rbind (altusWQPut_copy data len h window pool (safe_tail window)
                     (lastSeq window - validBlockCount st) seq len) (\<lambda>(h, window, pool).
            if ub_headSeq (ub_list window) ! 0 = lastSeq window then
              let newSeq = ub_tailSeq (ub_list window) ! 0 in
              rbind (altusWQPut_advance h window newSeq) (\<lambda>(h, window).
              Inr (0, h, window\<lparr>ub_list := altusUBPop (ub_list window), lastSeq := newSeq\<rparr>, pool))
            else Inr (0, h, window, pool)))))"

section \<open>Reading\<close>

text \<open>\<^verbatim>\<open>memcpy\<close> of \<open>n\<close> bytes of a node's data from \<open>from\<close> into a caller's buffer at \<open>off\<close>.\<close>

definition memcpy_buf :: "u8 list \<Rightarrow> nat \<Rightarrow> (nat \<Rightarrow> u8) \<Rightarrow> nat \<Rightarrow> nat \<Rightarrow> u8 list res" where
  "memcpy_buf dst off d from n =
     (if length dst < off + n \<or> ALTUS_NODE_SIZE < from + n then Inl OutOfBounds
      else Inr (take off dst @ map d [from..<from + n] @ drop (off + n) dst))"

lemma pop_word_progress:
  fixes ll vb off :: u32
  assumes wl: "wl = (if sint ll < sint (vb - off) then ll else vb - off)"
    and nz: "wl \<noteq> 0" "ll \<noteq> 0" and o: "off + wl = 4096" "\<not> 4096 < off" and l: "ll - wl \<noteq> 0"
  shows "unat (ll - wl) < unat ll"
proof -
  have w: "wl = vb - off" "\<not> sint ll < sint wl" using wl l by (auto split: if_splits)
  have "unat off \<le> 4096" using o(2) by (simp add: word_less_nat_alt)
  moreover have "wl = 4096 - off" using o(1) by (simp add: eq_diff_eq add.commute)
  ultimately have uw: "unat wl = 4096 - unat off" by (simp add: unat_minus_cases)
  have pos: "0 < unat wl" using nz by (simp add: unat_gt_0)
  have sw: "sint wl = int (unat wl)" using uw by (simp add: sint_cases)
  have "unat wl \<le> unat ll"
    using w(2) sw pos unat_u32_lt [of ll] unfolding sint_cases [of ll]
    by (simp only: split: if_splits)
  then show ?thesis using pos by (simp add: unat_minus_cases)
qed

function altusWQPop_loop ::
  "u32 \<Rightarrow> heap \<Rightarrow> WQ_Window \<Rightarrow> WQ_Node_Pool \<Rightarrow> u8 list option \<Rightarrow> addr \<Rightarrow> u32 \<Rightarrow>
     (u32 \<times> u8 list option \<times> wqs) res" where
  "altusWQPop_loop len h window pool dest currentNode leftLen =
     (if leftLen = 0 then Inr (len, dest, h, window, pool)
      else
        rbind (deref h currentNode) (\<lambda>nd.
        let writelen = validBlockCount nd - headDataOffset window;
            writelen = (if sint leftLen < sint writelen then leftLen else writelen)
        in
        if writelen = 0 then Inr (len - leftLen, dest, h, window, pool)
        else
          rbind (case dest of
                   None \<Rightarrow> Inr None
                 | Some d \<Rightarrow>
                     rbind (memcpy_buf d (unat (len - leftLen)) (ndata nd)
                              (unat (headDataOffset window)) (unat writelen)) (\<lambda>d. Inr (Some d)))
            (\<lambda>dest.
          let leftLen = leftLen - writelen;
              window = window\<lparr>headDataOffset := headDataOffset window + writelen\<rparr>
          in
          if headDataOffset window = 4096 then
            let currentNode = to_tail nd in
            rbind (altusWQPopNode h window pool) (\<lambda>(_, h, window, pool).
            let window = window\<lparr>headDataOffset := 0\<rparr> in
            rbind (deref h currentNode) (\<lambda>nd.
            if headDataOffset window = validBlockCount nd then
              Inr (len - leftLen, dest, h, window, pool)
            else altusWQPop_loop len h window pool dest currentNode leftLen))
          else if headDataOffset window = validBlockCount nd then
            rbind (altusWQPopNode h window pool) (\<lambda>(_, h, window, pool).
            Inr (len - leftLen, dest, h, window, pool))
          else altusWQPop_loop len h window pool dest currentNode leftLen)))"
  by pat_completeness auto
termination
proof (relation "measure (\<lambda>(n, h, w, p, d, c, ll). if ll = 0 then 0 else
      Suc (unat ll + (if 4096 < headDataOffset w then 4294967296 else 0)))", goal_cases)
  case 1
  then show ?case by simp
next
  case (2 n h w p d c ll nd wl wl' d' ll' w' c' x y h' z w'' p'' w3 nd')
  have "unat (ll - wl') < unat ll" if "ll' \<noteq> 0" "\<not> 4096 < headDataOffset w"
    by (rule pop_word_progress [where vb = "validBlockCount nd" and off = "headDataOffset w"])
       (use 2 that in simp_all)
  then have "ll' \<noteq> 0 \<Longrightarrow> \<not> 4096 < headDataOffset w \<Longrightarrow> unat ll' < unat ll"
    using 2 by simp
  moreover have "unat ll' < unat ll + 4294967296" using unat_u32_lt [of ll'] by linarith
  ultimately show ?case using 2 by auto
next
  case (3 n h w p d c ll nd wl wl' d' ll' w')
  then show ?case by (auto split: if_splits)
qed

declare altusWQPop_loop.simps [simp del]

definition altusWQPop ::
  "heap \<Rightarrow> WQ_Window \<Rightarrow> WQ_Node_Pool \<Rightarrow> u32 \<Rightarrow> u8 list option \<Rightarrow> (u32 \<times> u8 list option \<times> wqs) res" where
  "altusWQPop h window pool len dest = altusWQPop_loop len h window pool dest (head window) len"

text \<open>
  \<^verbatim>\<open>altusWQPeek\<close> returns the number of bytes readable at \<open>seq\<close> and where they are: a node and an
  offset into its data, or no position.
\<close>

function altusWQPeek_loop :: "heap \<Rightarrow> addr \<Rightarrow> u32 \<Rightarrow> ((addr \<times> u32) option) res" where
  "altusWQPeek_loop h targetNode deltaSeq =
     (if 4096 \<le> deltaSeq then
        rbind (deref h targetNode) (\<lambda>nd.
        if to_tail nd = 0 then Inr None
        else altusWQPeek_loop h (to_tail nd) (deltaSeq - 4096))
      else Inr (Some (targetNode, deltaSeq)))"
  by pat_completeness auto
termination
  by (relation "measure (\<lambda>(h, t, d). unat d)") (auto simp: word_le_nat_alt unat_minus_cases)

declare altusWQPeek_loop.simps [simp del]

definition altusWQPeek :: "heap \<Rightarrow> WQ_Window \<Rightarrow> u32 \<Rightarrow> (u32 \<times> (addr \<times> nat) option) res" where
  "altusWQPeek h window seq =
     rbind (altusWQPeek_loop h (head window) (seq - headSeq window)) (\<lambda>r.
     case r of
       None \<Rightarrow> Inr (0, None)
     | Some (targetNode, deltaSeq) \<Rightarrow>
         rbind (deref h targetNode) (\<lambda>nd.
         if validBlockCount nd - deltaSeq \<le> 0 then Inr (0, None)
         else Inr (validBlockCount nd - deltaSeq, Some (targetNode, unat deltaSeq))))"

section \<open>Counting and freeing\<close>

text \<open>
  The loops below walk the chain from its first to its last node.  They take a bound on the number
  of steps; the bound the operations are used with is the number of addresses ever handed out, which
  is enough for every chain of allocated nodes.
\<close>

fun recalculateWinLen_loop ::
  "nat \<Rightarrow> heap \<Rightarrow> WQ_Window \<Rightarrow> addr \<Rightarrow> u32 \<Rightarrow> WQ_Window res" where
  "recalculateWinLen_loop 0 h window currentNode ret = Inl OutOfFuel"
| "recalculateWinLen_loop (Suc fuel) h window currentNode ret =
     (if currentNode = unsafe_tail window then Inr (window\<lparr>unsafe_len := ret\<rparr>)
      else
        let window = (if currentNode = safe_tail window then window\<lparr>safe_len := ret\<rparr> else window) in
        rbind (deref h currentNode) (\<lambda>nd.
        recalculateWinLen_loop fuel h window (to_tail nd) (ret + 1)))"

definition recalculateWinLen :: "heap \<Rightarrow> WQ_Window \<Rightarrow> WQ_Window res" where
  "recalculateWinLen h window =
     (let window = (if head window = safe_tail window then window\<lparr>safe_len := 1\<rparr> else window)
      in recalculateWinLen_loop (brk h) h window (head window) 1)"

definition altusWQSanitize :: "heap \<Rightarrow> WQ_Window \<Rightarrow> (int \<times> WQ_Window) res" where
  "altusWQSanitize h window =
     rbind (recalculateWinLen h window) (\<lambda>window.
     Inr (if unsafe_len window > ALTUS_WINDOW_BLOCK_MAX_ABSOLUTE then -3
          else if unsafe_len window > push_bit 1 (windowSize window) then -2
          else if unsafe_len window > windowSize window then -1
          else if unsafe_len window < drop_bit 3 (windowSize window) then 3
          else if unsafe_len window < drop_bit 2 (windowSize window) then 2
          else if unsafe_len window < drop_bit 1 (windowSize window) then 1
          else 0, window))"

fun free_chain :: "nat \<Rightarrow> heap \<Rightarrow> addr \<Rightarrow> addr \<Rightarrow> heap res" where
  "free_chain 0 h current_node stop = Inl OutOfFuel"
| "free_chain (Suc fuel) h current_node stop =
     (if current_node \<noteq> stop then
        let oldNode = current_node in
        rbind (deref h current_node) (\<lambda>nd.
        rbind (free h oldNode) (\<lambda>h.
        free_chain fuel h (to_tail nd) stop))
      else free h current_node)"

definition altusFreeP :: "heap \<Rightarrow> addr \<Rightarrow> WQ_Node_Pool \<Rightarrow> heap res" where
  "altusFreeP h poolPtr pool =
     (if poolPtr = 0 then Inl ExitProgram
      else if recycled_head pool = 0 then Inl ExitProgram
      else free_chain (brk h) h (recycled_head pool) (recycled_tail pool))"

definition altusFreeWQ :: "heap \<Rightarrow> addr \<Rightarrow> WQ_Window \<Rightarrow> heap res" where
  "altusFreeWQ h windowPtr window =
     (if windowPtr = 0 then Inl ExitProgram
      else
        rbind (free_chain (brk h) h (head window) (unsafe_tail window)) (\<lambda>h.
        free h windowPtr))"

end
