(* ===== verification/WQ_Nodes.thy ===== *)
theory WQ_Nodes
  imports WindowedQueue
begin

text \<open>
  How the windowed queue moves nodes.  \<open>wq_chain h w p ns ps k\<close> ties a window and a pool to the lists
  \<open>ns\<close> and \<open>ps\<close> of their nodes, with \<open>safe_tail\<close> at index \<open>k\<close> of \<open>ns\<close>; taking a node from the pool and
  giving one back keep it, move exactly one node, and leave every byte and every count alone.
\<close>

definition wq_chain ::
  "heap \<Rightarrow> WQ_Window \<Rightarrow> WQ_Node_Pool \<Rightarrow> addr list \<Rightarrow> addr list \<Rightarrow> nat \<Rightarrow> bool" where
  "wq_chain h w p ns ps k \<longleftrightarrow>
     linked h ns \<and> linked h ps \<and> set ns \<inter> set ps = {} \<and>
     0 < brk h \<and> (\<forall>a\<in>set ns \<union> set ps. a < brk h) \<and>
     head w = hd ns \<and> unsafe_tail w = last ns \<and> k < length ns \<and> safe_tail w = ns ! k \<and>
     recycled_head p = hd ps \<and> recycled_tail p = last ps"

lemma wq_chainD:
  assumes "wq_chain h w p ns ps k"
  shows "linked h ns" "linked h ps" "set ns \<inter> set ps = {}" "0 < brk h"
    "a \<in> set ns \<Longrightarrow> a < brk h" "a \<in> set ps \<Longrightarrow> a < brk h"
    "head w = hd ns" "unsafe_tail w = last ns" "k < length ns" "safe_tail w = ns ! k"
    "recycled_head p = hd ps" "recycled_tail p = last ps"
  using assms by (auto simp: wq_chain_def)

text \<open>How many nodes \<^verbatim>\<open>malloc\<close> can still hand out.\<close>

definition room :: "heap \<Rightarrow> nat \<Rightarrow> bool" where
  "room h n \<longleftrightarrow> brk h + n \<le> limit h"

text \<open>Two heaps agree on what the nodes \<open>A\<close> hold, links aside.\<close>

definition same_data :: "heap \<Rightarrow> heap \<Rightarrow> addr set \<Rightarrow> bool" where
  "same_data h h' A \<longleftrightarrow>
     (\<forall>a\<in>A. ndata (node h' a) = ndata (node h a) \<and>
            validBlockCount (node h' a) = validBlockCount (node h a))"

lemma same_data_refl [simp]: "same_data h h A"
  by (simp add: same_data_def)

lemma same_data_trans: "same_data h h' A \<Longrightarrow> same_data h' h'' B \<Longrightarrow> A \<subseteq> B \<Longrightarrow> same_data h h'' A"
  by (auto simp: same_data_def)

section \<open>A node for the window\<close>

text \<open>The node the pool or \<^verbatim>\<open>malloc\<close> provides.\<close>

lemma linked_singleton_iff: "linked h ps \<Longrightarrow> hd ps = last ps \<longleftrightarrow> (\<exists>a. ps = [a])"
  by (cases ps) (auto simp: linked_def)

lemma wq_new_node_append:
  assumes ch: "wq_chain h w p ns ps k"
    and a: "a \<notin> set ns" "a \<notin> set ps'" "a \<noteq> 0" "a < brk h'" "live h' a"
    and ps': "linked h' ps'" "set ps' \<subseteq> insert a (set ps)" "recycled_head p' = hd ps'" "recycled_tail p' = last ps'"
    and same: "brk h \<le> brk h'" "\<And>x. x \<in> set ns \<Longrightarrow> live h' x \<and> node h' x = node h x"
  defines "h1 \<equiv> h'\<lparr>node := (node h')(a := (node h' a)\<lparr>to_tail := 0, to_head := last ns\<rparr>)\<rparr>"
  defines "h2 \<equiv> h1\<lparr>node := (node h1)(last ns := (node h1 (last ns))\<lparr>to_tail := a\<rparr>)\<rparr>"
  shows "wq_chain h2 (w\<lparr>unsafe_tail := a, unsafe_len := n\<rparr>) p' (ns @ [a]) ps' k"
    and "same_data h h2 (set ns)"
proof -
  note D = wq_chainD [OF ch]
  have ne: "ns \<noteq> []" and ls: "last ns \<in> set ns" "last ns \<noteq> a"
    using D(1) a(1) by (auto simp: linked_def)
  have disj: "set ns \<inter> set ps' = {}" using D(3) ps'(2) a(1) by auto
  have node2: "node h2 x = (if x = last ns then (node h x)\<lparr>to_tail := a\<rparr>
      else if x = a then (node h' a)\<lparr>to_tail := 0, to_head := last ns\<rparr> else node h' x)" for x
    using ls same by (simp add: h2_def h1_def)
  have live2: "live h2 = live h'" by (simp add: h2_def h1_def)
  have "linked h2 (ns @ [a])"
    using a ls same by (intro linked_snoc [OF D(1)]) (auto simp: node2 live2)
  moreover have "linked h2 ps'"
    using ps' disj a ls by (intro linked_frame [OF ps'(1)]) (auto simp: node2 live2 linked_live)
  moreover have "x < brk h2" if "x \<in> set (ns @ [a]) \<union> set ps'" for x
    using that D(5,6) a(4) ps'(2) same(1) by (auto simp: h2_def h1_def intro: less_le_trans)
  ultimately show "wq_chain h2 (w\<lparr>unsafe_tail := a, unsafe_len := n\<rparr>) p' (ns @ [a]) ps' k"
    using D disj a ps' ne same(1) by (auto simp: wq_chain_def nth_append h2_def h1_def)
  show "same_data h h2 (set ns)"
    using a same by (auto simp: same_data_def node2)
qed

text \<open>The part of \<^verbatim>\<open>altusWQNewNode\<close> after the node has been found.\<close>

lemma altusWQNewNode_tail:
  assumes "a \<noteq> 0" "live h' a" "u \<noteq> 0" "live h' u" "u \<noteq> a"
  shows "rbind (upd h' a (\<lambda>n. n\<lparr>to_tail := 0\<rparr>)) (\<lambda>h.
         rbind (upd h a (\<lambda>n. n\<lparr>to_head := u\<rparr>)) (\<lambda>h.
         rbind (upd h u (\<lambda>n. n\<lparr>to_tail := a\<rparr>)) f)) =
      (let h1 = h'\<lparr>node := (node h')(a := (node h' a)\<lparr>to_tail := 0, to_head := u\<rparr>)\<rparr>
       in f (h1\<lparr>node := (node h1)(u := (node h1 u)\<lparr>to_tail := a\<rparr>)\<rparr>))"
  using assms by (simp add: Let_def)

lemma altusWQNewNode_correct:
  assumes ch: "wq_chain h w p ns ps k" and rm: "room h 1"
  shows "\<exists>h' w' p' a ps'.
    altusWQNewNode h w p = Inr (h', w', p') \<and> wq_chain h' w' p' (ns @ [a]) ps' k \<and>
    same_data h h' (set ns) \<and> w' = w\<lparr>unsafe_tail := a, unsafe_len := unsafe_len w + 1\<rparr> \<and>
    (\<forall>n. room h (Suc n) \<longrightarrow> room h' n) \<and>
    insert a (set ps') = (if length ps = 1 then insert (brk h) (set ps) else set ps)"
proof -
  note D = wq_chainD [OF ch]
  have un: "unsafe_tail w = last ns" "last ns \<noteq> 0" "live h (last ns)" "last ns \<in> set ns"
    using D(1,8) by (auto simp: linked_def)
  show ?thesis
  proof (cases "length ps = 1")
    case True
    then obtain q where q: "ps = [q]" by (cases ps) auto
    let ?h' = "h\<lparr>live := (live h)(brk h := True), brk := brk h + 1\<rparr>"
    have m: "malloc h = (brk h, ?h')" using rm by (simp add: malloc_def room_def)
    have l: "linked ?h' ps" by (rule linked_frame [OF D(2)]) (auto simp: linked_live [OF D(2)])
    have fresh: "brk h \<notin> set ns" "brk h \<notin> set ps" using D(5,6) by blast+
    let ?h1 = "?h'\<lparr>node := (node ?h')(brk h := (node ?h' (brk h))\<lparr>to_tail := 0, to_head := last ns\<rparr>)\<rparr>"
    let ?h2 = "?h1\<lparr>node := (node ?h1)(last ns := (node ?h1 (last ns))\<lparr>to_tail := brk h\<rparr>)\<rparr>"
    have R: "wq_chain ?h2 (w\<lparr>unsafe_tail := brk h, unsafe_len := unsafe_len w + 1\<rparr>) p (ns @ [brk h]) ps k"
      "same_data h ?h2 (set ns)"
      by (rule wq_new_node_append [OF ch fresh(1,2), where p' = p]; use l D linked_live [OF D(1)] in auto)+
    have "last ns \<noteq> brk h" using un fresh by auto
    moreover have "recycled_head p = recycled_tail p" using D(11,12) q by simp
    ultimately have "altusWQNewNode h w p =
        Inr (?h2, w\<lparr>unsafe_tail := brk h, unsafe_len := unsafe_len w + 1\<rparr>, p)"
      using m un D(4) by (simp add: altusWQNewNode_def altusWQNewNode_tail)
    with R show ?thesis using True by (intro exI conjI) (auto simp: room_def)
  next
    case False
    then obtain a b rest where ps: "ps = a # b # rest"
      using D(2) by (cases ps; cases "tl ps") (auto simp: linked_def)
    let ?h' = "h\<lparr>node := (node h)(b := (node h b)\<lparr>to_head := 0\<rparr>)\<rparr>"
    have ab: "a \<noteq> 0" "live h a" "b \<noteq> 0" "live h b" "a \<noteq> b" "to_tail (node h a) = b" "a \<notin> set (b # rest)"
      using D(2) linked_next [OF D(2), of 0] by (auto simp: ps linked_def)
    have l: "linked ?h' (b # rest)"
      using D(2) unfolding ps by (rule linked_tl) (use D(2) ps in \<open>auto simp: linked_def\<close>)
    have fresh: "a \<notin> set ns" "b \<notin> set ns" using D(3) ps by auto
    let ?p' = "p\<lparr>recycled_head := b, pool_len := pool_len p - 1\<rparr>"
    let ?h1 = "?h'\<lparr>node := (node ?h')(a := (node ?h' a)\<lparr>to_tail := 0, to_head := last ns\<rparr>)\<rparr>"
    let ?h2 = "?h1\<lparr>node := (node ?h1)(last ns := (node ?h1 (last ns))\<lparr>to_tail := a\<rparr>)\<rparr>"
    have R: "wq_chain ?h2 (w\<lparr>unsafe_tail := a, unsafe_len := unsafe_len w + 1\<rparr>) ?p' (ns @ [a]) (b # rest) k"
      "same_data h ?h2 (set ns)"
      by (rule wq_new_node_append [OF ch fresh(1) ab(7), where p' = ?p'];
          use l D linked_live [OF D(1)] fresh(2) ab(1-4) in \<open>auto simp: ps\<close>)+
    have "last (b # rest) \<in> set (b # rest)" by (rule last_in_set) simp
    then have "last (b # rest) \<noteq> a" using ab(7) by metis
    then have "recycled_head p \<noteq> recycled_tail p" using D(11,12) ps by auto
    moreover have "last ns \<noteq> a" "last ns \<noteq> b" using un fresh by auto
    ultimately have "altusWQNewNode h w p =
        Inr (?h2, w\<lparr>unsafe_tail := a, unsafe_len := unsafe_len w + 1\<rparr>, ?p')"
      using un ab D(11) ps by (simp add: altusWQNewNode_def altusWQNewNode_tail)
    with R show ?thesis using False ps by (intro exI conjI) (auto simp: room_def)
  qed
qed

section \<open>A node for the pool\<close>

lemma altusWQPopNode_single:
  "wq_chain h w p ns ps 0 \<Longrightarrow> altusWQPopNode h w p = Inr (-1, h, w\<lparr>safe_len := 1\<rparr>, p)"
  by (cases ns) (auto simp: altusWQPopNode_def wq_chain_def)

lemma altusWQPopNode_correct:
  assumes ch: "wq_chain h w p (n # ns) ps (Suc k)"
  shows "\<exists>h' w' p'.
    altusWQPopNode h w p = Inr (0, h', w', p') \<and> wq_chain h' w' p' ns (ps @ [n]) k \<and>
    same_data h h' UNIV \<and> w' = w\<lparr>head := hd ns, safe_len := safe_len w - 1\<rparr> \<and>
    limit h' = limit h \<and> brk h' = brk h"
proof -
  note D = wq_chainD [OF ch]
  obtain m rest where ns: "ns = m # rest" using D(9) by (cases ns) auto
  have nm: "n \<noteq> 0" "live h n" "m \<noteq> 0" "live h m" "n \<noteq> m" "to_tail (node h n) = m" "n \<notin> set ns"
    using D(1) linked_next [OF D(1), of 0] by (auto simp: ns linked_def)
  have lp: "last ps \<noteq> 0" "live h (last ps)" "last ps \<in> set ps" using D(2) by (auto simp: linked_def)
  have ne: "last ps \<noteq> n" "last ps \<noteq> m" "n \<notin> set ps" "m \<notin> set ps" using D(3) lp ns by auto
  have hd: "head w = n" "head w \<noteq> safe_tail w"
    using D(7,9,10) nm(7) by (auto simp: nth_mem)
  let ?w' = "w\<lparr>head := m, safe_len := safe_len w - 1\<rparr>"
  let ?p' = "p\<lparr>recycled_tail := n, pool_len := pool_len p + 1\<rparr>"
  let ?h' = "h\<lparr>node := (node h)(m := (node h m)\<lparr>to_head := 0\<rparr>,
       n := (node h n)\<lparr>to_tail := 0, to_head := last ps\<rparr>,
       last ps := (node h (last ps))\<lparr>to_tail := n\<rparr>)\<rparr>"
  have r: "altusWQPopNode h w p = Inr (0, ?h', ?w', ?p')"
    using hd nm lp ne D(12) by (simp add: altusWQPopNode_def fun_upd_twist)
  have "linked ?h' (m # rest)"
    using D(1) unfolding ns
    by (rule linked_tl) (use D(1,3) nm ne lp ns in \<open>auto simp: linked_def\<close>)
  moreover have "linked ?h' (ps @ [n])"
    using D(2) by (rule linked_snoc) (use D(2,3) nm ne lp ns in \<open>auto simp: linked_def\<close>)
  ultimately have "wq_chain ?h' ?w' ?p' ns (ps @ [n]) k"
    using D nm(7) ns by (auto simp: wq_chain_def linked_def)
  moreover have "same_data h ?h' UNIV" using ne nm by (auto simp: same_data_def)
  ultimately show ?thesis using r ns by (intro exI [of _ ?h'] exI [of _ ?w'] exI [of _ ?p']) simp
qed

end
