(* ===== verification/WQ_Copy.thy ===== *)
theory WQ_Copy
  imports WQ_Nodes
begin

text \<open>
  The copying loop of \<^verbatim>\<open>altusWQPut\<close>.  A chain of nodes is read as one array of bytes, \<open>byte_at h ns\<close>;
  positions count from the first byte of the head node.  \<open>altusWQPut_copy_correct\<close> says that the loop
  writes the packet's bytes at their positions, changes no other byte, allocates exactly the nodes it
  needs and leaves the packet's end strictly inside the chain.
\<close>

definition byte_at :: "heap \<Rightarrow> addr list \<Rightarrow> nat \<Rightarrow> u8" where
  "byte_at h ns x = ndata (node h (ns ! (x div 4096))) (x mod 4096)"

definition copy_post ::
  "heap \<Rightarrow> addr list \<Rightarrow> nat \<Rightarrow> WQ_Window \<Rightarrow> u8 list \<Rightarrow> nat \<Rightarrow> nat \<Rightarrow> nat \<Rightarrow> wqs res \<Rightarrow> bool" where
  "copy_post h ns k w data from pos n res \<longleftrightarrow>
     (\<exists>h' w' p' ns' ps'. res = Inr (h', w', p') \<and> wq_chain h' w' p' ns' ps' k \<and>
        take (length ns) ns' = ns \<and> pos + n < 4096 * length ns' \<and>
        (\<forall>x < 4096 * length ns. x \<notin> {pos..<pos + n} \<longrightarrow> byte_at h' ns' x = byte_at h ns x) \<and>
        (\<forall>i < n. byte_at h' ns' (pos + i) = data ! (from + i)) \<and>
        (\<forall>a \<in> set ns. validBlockCount (node h' a) = validBlockCount (node h a)) \<and>
        w' = w\<lparr>unsafe_tail := unsafe_tail w', unsafe_len := unsafe_len w'\<rparr>)"

lemma pos_div: "(x :: nat) < 4096 * n \<Longrightarrow> x div 4096 < n"
  by (simp add: less_mult_imp_div_less mult.commute)

lemma byte_at_snoc:
  assumes "same_data h h' (set ns)" "x < 4096 * length ns"
  shows "byte_at h' (ns @ [a]) x = byte_at h ns x"
  using assms pos_div [OF assms(2)] by (simp add: byte_at_def nth_append same_data_def)

lemma copy_post_new_node:
  assumes "same_data h h1 (set ns)" "copy_post h1 (ns @ [a]) k w1 data from pos n res"
    and "w1 = w\<lparr>unsafe_tail := u, unsafe_len := l\<rparr>"
  shows "copy_post h ns k w data from pos n res"
proof -
  from assms(2) obtain h' w' p' ns' ps' where P: "res = Inr (h', w', p')" "wq_chain h' w' p' ns' ps' k"
    "take (length (ns @ [a])) ns' = ns @ [a]" "pos + n < 4096 * length ns'"
    "\<And>x. x < 4096 * length (ns @ [a]) \<Longrightarrow> x \<notin> {pos..<pos + n} \<Longrightarrow> byte_at h' ns' x = byte_at h1 (ns @ [a]) x"
    "\<And>i. i < n \<Longrightarrow> byte_at h' ns' (pos + i) = data ! (from + i)"
    "\<And>b. b \<in> set (ns @ [a]) \<Longrightarrow> validBlockCount (node h' b) = validBlockCount (node h1 b)"
    "w' = w1\<lparr>unsafe_tail := unsafe_tail w', unsafe_len := unsafe_len w'\<rparr>"
    unfolding copy_post_def by blast
  have "take (length ns) ns' = ns"
    using arg_cong [OF P(3), of "take (length ns)"] by (simp add: min_def)
  then show ?thesis
    unfolding copy_post_def using P assms(1,3) byte_at_snoc [OF assms(1)]
    by (intro exI [of _ h'] exI [of _ w'] exI [of _ p'] exI [of _ ns'] exI [of _ ps'])
       (auto simp: same_data_def)
qed

lemma copy_post_memcpy:
  assumes "copy_post h1 ns k w data (from + m) (pos + m) (n - m) res" "m \<le> n"
    and "\<And>x. x < 4096 * length ns \<Longrightarrow>
           byte_at h1 ns x = (if x \<in> {pos..<pos + m} then data ! (from + (x - pos)) else byte_at h ns x)"
    and "\<And>a. a \<in> set ns \<Longrightarrow> validBlockCount (node h1 a) = validBlockCount (node h a)"
    and "pos + m \<le> 4096 * length ns"
  shows "copy_post h ns k w data from pos n res"
proof -
  from assms(1) obtain h' w' p' ns' ps' where P: "res = Inr (h', w', p')" "wq_chain h' w' p' ns' ps' k"
    "take (length ns) ns' = ns" "pos + n < 4096 * length ns'"
    "\<And>x. x < 4096 * length ns \<Longrightarrow> x \<notin> {pos + m..<pos + n} \<Longrightarrow> byte_at h' ns' x = byte_at h1 ns x"
    "\<And>i. i < n - m \<Longrightarrow> byte_at h' ns' (pos + m + i) = data ! (from + m + i)"
    "\<And>b. b \<in> set ns \<Longrightarrow> validBlockCount (node h' b) = validBlockCount (node h1 b)"
    "w' = w\<lparr>unsafe_tail := unsafe_tail w', unsafe_len := unsafe_len w'\<rparr>"
    unfolding copy_post_def using assms(2) by (auto simp: add.assoc)
  have "byte_at h' ns' (pos + i) = data ! (from + i)" if "i < n" for i
  proof (cases "i < m")
    case True
    then show ?thesis using P(5) [of "pos + i"] assms(3) [of "pos + i"] assms(5) by simp
  next
    case False
    then show ?thesis using P(6) [of "i - m"] that by simp
  qed
  moreover have "byte_at h' ns' x = byte_at h ns x"
    if "x < 4096 * length ns" "x \<notin> {pos..<pos + n}" for x
    using that P(5) [of x] assms(2) assms(3) [of x] by auto
  ultimately show ?thesis
    unfolding copy_post_def using P assms(4)
    by (intro exI [of _ h'] exI [of _ w'] exI [of _ p'] exI [of _ ns'] exI [of _ ps']) auto
qed

text \<open>One \<^verbatim>\<open>memcpy\<close> into node \<open>j\<close> of the chain.\<close>

lemma wq_chain_same_links:
  assumes "wq_chain h w p ns ps k"
    and "\<And>a. to_tail (node h1 a) = to_tail (node h a) \<and> to_head (node h1 a) = to_head (node h a)"
    and "live h1 = live h" "brk h1 = brk h"
  shows "wq_chain h1 w p ns ps k"
  using assms unfolding wq_chain_def by (auto intro: linked_frame simp: linked_live)

lemma memcpy_node_chain:
  assumes ch: "wq_chain h w p ns ps k" and j: "j < length ns"
    and off: "off + m \<le> 4096" and src: "from + m \<le> length data"
  shows "\<exists>h1. memcpy_node h (ns ! j) off data from m = Inr h1 \<and> wq_chain h1 w p ns ps k \<and>
     (\<forall>x < 4096 * length ns. byte_at h1 ns x =
        (if x \<in> {4096 * j + off..<4096 * j + off + m}
         then data ! (from + (x - (4096 * j + off))) else byte_at h ns x)) \<and>
     (\<forall>a. validBlockCount (node h1 a) = validBlockCount (node h a)) \<and>
     brk h1 = brk h \<and> limit h1 = limit h"
proof -
  note D = wq_chainD [OF ch]
  have a: "ns ! j \<noteq> 0" "live h (ns ! j)" using linked_live [OF D(1), of "ns ! j"] j by auto
  let ?h1 = "h\<lparr>node := (node h)(ns ! j := (node h (ns ! j))\<lparr>ndata :=
               blit (ndata (node h (ns ! j))) off (take m (drop from data))\<rparr>)\<rparr>"
  have r: "memcpy_node h (ns ! j) off data from m = Inr ?h1"
    using off src a by (simp add: memcpy_node_def)
  have "byte_at ?h1 ns x = (if x \<in> {4096 * j + off..<4096 * j + off + m}
          then data ! (from + (x - (4096 * j + off))) else byte_at h ns x)"
    if x: "x < 4096 * length ns" for x
  proof (cases "x div 4096 = j")
    case True
    then have xm: "x = 4096 * j + x mod 4096" using div_mult_mod_eq [of x 4096] by simp
    have "byte_at ?h1 ns x =
        blit (ndata (node h (ns ! j))) off (take m (drop from data)) (x mod 4096)"
      using True by (simp add: byte_at_def)
    moreover have "byte_at h ns x = ndata (node h (ns ! j)) (x mod 4096)"
      using True by (simp add: byte_at_def)
    moreover have "x \<in> {4096 * j + off..<4096 * j + off + m} \<longleftrightarrow> off \<le> x mod 4096 \<and> x mod 4096 < off + m"
      by (subst (1) xm) auto
    moreover have "x - (4096 * j + off) = x mod 4096 - off" by (subst (1) xm) auto
    ultimately show ?thesis using src by (auto simp: blit_def)
  next
    case False
    then have "ns ! (x div 4096) \<noteq> ns ! j"
      using linked_distinct [OF D(1)] j pos_div [OF x] by (simp add: nth_eq_iff_index_eq)
    moreover have "x \<notin> {4096 * j + off..<4096 * j + off + m}"
    proof
      assume "x \<in> {4096 * j + off..<4096 * j + off + m}"
      then have "4096 * j \<le> x" "x < 4096 * Suc j" using off by auto
      then have "x div 4096 = j" by (simp add: div_nat_eqI mult.commute)
      with False show False by simp
    qed
    ultimately show ?thesis by (auto simp: byte_at_def)
  qed
  moreover have "wq_chain ?h1 w p ns ps k" using ch by (rule wq_chain_same_links) auto
  ultimately show ?thesis using r by (intro exI [of _ ?h1]) auto
qed

section \<open>Words of the loop as numbers\<close>

lemma unat_word_of_nat_u32: "n < 4294967296 \<Longrightarrow> unat (word_of_nat n :: u32) = n"
  by (simp add: unat_of_nat)

lemma word_of_nat_u32_0: "n < 4294967296 \<Longrightarrow> word_of_nat n = (0 :: u32) \<longleftrightarrow> n = 0"
  by (metis unat_eq_0 unat_word_of_nat_u32)

lemma copy_writelen:
  "pos \<le> 4096 * Suc j \<Longrightarrow>
     (hs + word_of_nat (4096 * j)) + 4096 - (hs + word_of_nat pos) = (word_of_nat (4096 * Suc j - pos) :: u32)"
  by (simp add: of_nat_diff algebra_simps)

lemma copy_writeoffset:
  assumes "4096 * j \<le> pos" "pos < 4096 * Suc j"
  shows "unat (ucast ((hs + word_of_nat pos) - (hs + word_of_nat (4096 * j)) :: u32) :: u16) = pos - 4096 * j"
proof -
  have "(hs + word_of_nat pos) - (hs + word_of_nat (4096 * j)) = (word_of_nat (pos - 4096 * j) :: u32)"
    using assms by (simp add: of_nat_diff algebra_simps)
  moreover have "pos - 4096 * j < 4096" using assms by auto
  ultimately show ?thesis by (simp add: unsigned_ucast_eq unat_word_of_nat_u32 take_bit_nat_eq_self)
qed

lemma copy_at_end:
  assumes "pos \<le> 4096 * Suc j" "4096 * j \<le> pos"
  shows "hs + word_of_nat pos = (hs + word_of_nat (4096 * j)) + (4096 :: u32) \<longleftrightarrow> pos = 4096 * Suc j"
proof -
  have "hs + word_of_nat pos = (hs + word_of_nat (4096 * j)) + (4096 :: u32) \<longleftrightarrow>
        (hs + word_of_nat (4096 * j)) + 4096 - (hs + word_of_nat pos) = (0 :: u32)"
    by (metis eq_iff_diff_eq_0)
  also have "\<dots> \<longleftrightarrow> 4096 * Suc j - pos = 0"
    using assms unfolding copy_writelen [OF assms(1)] by (intro word_of_nat_u32_0) auto
  finally show ?thesis using assms by auto
qed

lemma wq_chain_deref:
  assumes "wq_chain h w p ns ps k" "Suc j < length ns"
  shows "deref h (ns ! j) = Inr (node h (ns ! j))" "to_tail (node h (ns ! j)) = ns ! Suc j"
  using assms linked_live [OF wq_chainD(1) [OF assms(1)], of "ns ! j"]
    linked_next [OF wq_chainD(1) [OF assms(1)]] by auto

text \<open>The step to the next node, which is allocated on the way.\<close>

lemma copy_next_new:
  assumes ch: "wq_chain h w p ns ps k" and j: "j < length ns" and rm: "room h (Suc r)"
    and rec: "\<And>h1 w1 p1 a ps1. wq_chain h1 w1 p1 (ns @ [a]) ps1 k \<Longrightarrow> room h1 r \<Longrightarrow>
       copy_post h1 (ns @ [a]) k w1 data from pos n (f h1 w1 p1 ((ns @ [a]) ! Suc j))"
  shows "copy_post h ns k w data from pos n
     (rbind (altusWQNewNode h w p) (\<lambda>(h, w, p). rbind (deref h (ns ! j)) (\<lambda>nd. f h w p (to_tail nd))))"
proof -
  have "room h 1" using rm by (simp add: room_def)
  then obtain h1 w1 p1 a ps1 where N: "altusWQNewNode h w p = Inr (h1, w1, p1)"
    "wq_chain h1 w1 p1 (ns @ [a]) ps1 k" "same_data h h1 (set ns)"
    "w1 = w\<lparr>unsafe_tail := a, unsafe_len := unsafe_len w + 1\<rparr>" "room h1 r"
    using altusWQNewNode_correct [OF ch] rm by blast
  have "(ns @ [a]) ! j = ns ! j" using j by (simp add: nth_append)
  then have "deref h1 (ns ! j) = Inr (node h1 (ns ! j))" "to_tail (node h1 (ns ! j)) = (ns @ [a]) ! Suc j"
    using wq_chain_deref [OF N(2), of j] j by auto
  then show ?thesis
    using copy_post_new_node [OF N(3) rec [OF N(2,5)] N(4)] N(1) by simp
qed

text \<open>
  The two kinds of turn: one that finds the node full and steps on, and one that writes \<open>m\<close> bytes,
  \<open>m\<close> being what is left of the packet or of the node.
\<close>

abbreviation copy_from ::
  "u8 list \<Rightarrow> u32 \<Rightarrow> u32 \<Rightarrow> nat \<Rightarrow> nat \<Rightarrow> nat \<Rightarrow> heap \<Rightarrow> WQ_Window \<Rightarrow> WQ_Node_Pool \<Rightarrow> addr \<Rightarrow> wqs res" where
  "copy_from data len hs j pos n h w p c \<equiv>
     altusWQPut_copy data len h w p c (hs + word_of_nat (4096 * j)) (hs + word_of_nat pos) (word_of_nat n)"

lemma copy_full_turn:
  assumes "0 < n" "n < 4294967296"
  shows "copy_from data len hs j (4096 * Suc j) n h w p c =
     rbind (if c = unsafe_tail w then altusWQNewNode h w p else Inr (h, w, p)) (\<lambda>(h, w, p).
     rbind (deref h c) (\<lambda>nd. copy_from data len hs (Suc j) (4096 * Suc j) n h w p (to_tail nd)))"
proof -
  have "hs + word_of_nat (4096 * j) + 4096 - (hs + word_of_nat (4096 * Suc j)) = (0 :: u32)"
    by simp
  moreover have "word_of_nat n \<noteq> (0 :: u32)" using assms word_of_nat_u32_0 [of n] by simp
  moreover have "hs + word_of_nat (4096 * j) + 4096 = (hs + word_of_nat (4096 * Suc j) :: u32)" by simp
  ultimately show ?thesis
    by (subst (1) altusWQPut_copy.simps) (simp only: Let_def order_refl if_True if_False)
qed

lemma copy_write_turn:
  assumes ch: "wq_chain h w p ns ps k" and j: "j < length ns"
    and pos: "4096 * j \<le> pos" "pos < 4096 * Suc j" and n: "0 < n"
    and src: "from + n \<le> length data" "from + n < 4294967296" "len = word_of_nat (from + n)"
    and m: "m = min n (4096 * Suc j - pos)"
  shows "\<exists>h1. copy_from data len hs j pos n h w p (ns ! j) =
      (if pos + m = 4096 * Suc j then
         rbind (altusWQNewNode h1 w p) (\<lambda>(h, w, p). rbind (deref h (ns ! j)) (\<lambda>nd.
         copy_from data len hs (Suc j) (pos + m) (n - m) h w p (to_tail nd)))
       else copy_from data len hs j (pos + m) (n - m) h1 w p (ns ! j)) \<and>
     wq_chain h1 w p ns ps k \<and>
     (\<forall>x < 4096 * length ns. byte_at h1 ns x =
        (if x \<in> {pos..<pos + m} then data ! (from + (x - pos)) else byte_at h ns x)) \<and>
     (\<forall>a. validBlockCount (node h1 a) = validBlockCount (node h a)) \<and>
     brk h1 = brk h \<and> limit h1 = limit h"
proof -
  let ?cs = "hs + word_of_nat (4096 * j) :: u32" and ?W = "4096 * Suc j - pos"
  have mb: "0 < m" "m \<le> n" "m \<le> ?W" "n - m \<noteq> 0 \<Longrightarrow> pos + m = 4096 * Suc j"
    using m n pos by auto
  have off: "(pos - 4096 * j) + m \<le> 4096" "4096 * j + (pos - 4096 * j) = pos" "pos + m \<le> 4096 * Suc j"
    using mb(3) pos by auto
  have wl: "?cs + 4096 - (hs + word_of_nat pos) = word_of_nat ?W" using pos by (intro copy_writelen) simp
  have W: "unat (word_of_nat ?W :: u32) = ?W" using pos by (intro unat_word_of_nat_u32) auto
  have nn: "unat (word_of_nat n :: u32) = n" "unat (word_of_nat m :: u32) = m"
    using src mb by (auto intro!: unat_word_of_nat_u32)
  have n0: "word_of_nat n \<noteq> (0 :: u32)" "word_of_nat (n - m) = (0 :: u32) \<longleftrightarrow> n - m = 0"
    using src n word_of_nat_u32_0 [of n] word_of_nat_u32_0 [of "n - m"] by auto
  have wm: "(if word_of_nat n < (word_of_nat ?W :: u32) then word_of_nat n else word_of_nat ?W) = (word_of_nat m :: u32)"
    using nn W m by (auto simp: word_less_nat_alt min_def)
  have gt: "\<not> word_of_nat ?W \<le> (0 :: u32)" using W pos by (simp add: word_le_nat_alt)
  have fr: "unat (len - word_of_nat n) = from" using src by (simp add: unat_word_of_nat_u32)
  have sm: "hs + word_of_nat pos + word_of_nat m = (hs + word_of_nat (pos + m) :: u32)"
    "word_of_nat n - word_of_nat m = (word_of_nat (n - m) :: u32)"
    "?cs + 4096 = hs + word_of_nat (4096 * Suc j)"
    using mb by (simp_all add: of_nat_diff)
  have en: "hs + word_of_nat (pos + m) = ?cs + 4096 \<longleftrightarrow> pos + m = 4096 * Suc j"
    using off pos by (intro copy_at_end) auto
  have bd: "from + m \<le> length data" using mb(2) src(1) by linarith
  obtain h1 where M: "memcpy_node h (ns ! j) (pos - 4096 * j) data from m = Inr h1"
    "wq_chain h1 w p ns ps k"
    "\<forall>x < 4096 * length ns. byte_at h1 ns x =
       (if x \<in> {pos..<pos + m} then data ! (from + (x - pos)) else byte_at h ns x)"
    "\<forall>a. validBlockCount (node h1 a) = validBlockCount (node h a)"
    "brk h1 = brk h" "limit h1 = limit h"
    using memcpy_node_chain [OF ch j off(1) bd, unfolded off(2)] by blast
  have "copy_from data len hs j pos n h w p (ns ! j) =
      (if pos + m = 4096 * Suc j then
         rbind (altusWQNewNode h1 w p) (\<lambda>(h, w, p). rbind (deref h (ns ! j)) (\<lambda>nd.
         copy_from data len hs (Suc j) (pos + m) (n - m) h w p (to_tail nd)))
       else copy_from data len hs j (pos + m) (n - m) h1 w p (ns ! j))"
  proof -
    note unf = altusWQPut_copy.simps [where h = h and window = w and pool = p and currentNode = "ns ! j"
      and currentNodeSeq = ?cs and leftSeq = "hs + word_of_nat pos" and leftLen = "word_of_nat n"
      and data = data and len = len, unfolded Let_def wl wm]
    note bd = unf [unfolded copy_writeoffset [OF pos] fr nn M(1) sm]
    show ?thesis
      unfolding bd using mb(4) en n0 gt by (simp only: rbind_simps if_False, auto)
  qed
  with M show ?thesis by blast
qed

lemma altusWQPut_copy_correct:
  assumes "wq_chain h w p ns ps k" "j < length ns" "4096 * j \<le> pos" "pos \<le> 4096 * Suc j"
    and "from + n \<le> length data" "from + n < 4294967296" "len = word_of_nat (from + n)"
    and "room h ((pos + n) div 4096 - j)" "n = 0 \<Longrightarrow> pos < 4096 * length ns"
  shows "copy_post h ns k w data from pos n (copy_from data len hs j pos n h w p (ns ! j))"
  using assms
proof (induction "2 * n + (if pos = 4096 * Suc j then 1 else 0)"
    arbitrary: h w p ns ps j pos n "from" rule: less_induct)
  case less
  note ch = less.prems(1) and j = less.prems(2) and src = less.prems(5,6,7) and rm = less.prems(8)
  consider (stop) "n = 0" | (full) "0 < n" "pos = 4096 * Suc j" | (fill) "0 < n" "pos < 4096 * Suc j"
    using less.prems(4) by linarith
  then show ?case
  proof cases
    case stop
    then show ?thesis
      using less.prems by (subst altusWQPut_copy.simps) (fastforce simp: copy_post_def)
  next
    case full
    let ?r = "(pos + n) div 4096 - Suc j" and ?f = "copy_from data len hs (Suc j) pos n"
    have r: "(pos + n) div 4096 - j = Suc ?r" using full by auto
    have rec: "copy_post h1 ns1 k w1 data from pos n (?f h1 w1 p1 (ns1 ! Suc j))"
      if "wq_chain h1 w1 p1 ns1 ps1 k" "Suc j < length ns1" "room h1 ?r" for h1 w1 p1 ns1 ps1
      by (rule less.hyps) (use that full src in auto)
    have turn: "copy_from data len hs j pos n h w p (ns ! j) =
       rbind (if ns ! j = unsafe_tail w then altusWQNewNode h w p else Inr (h, w, p)) (\<lambda>(h, w, p).
       rbind (deref h (ns ! j)) (\<lambda>nd. ?f h w p (to_tail nd)))"
      unfolding full(2) by (rule copy_full_turn) (use full src in auto)
    show ?thesis
    proof (cases "Suc j < length ns")
      case True
      then have "ns ! j \<noteq> unsafe_tail w"
        using wq_chainD(1,8) [OF ch] by (simp add: linked_def last_conv_nth nth_eq_iff_index_eq)
      then show ?thesis
        using turn rec [OF ch True] rm r wq_chain_deref [OF ch True] src by (simp add: room_def)
    next
      case False
      then have "j = length ns - 1" using j by auto
      then have "ns ! j = unsafe_tail w"
        using wq_chainD(8) [OF ch] linked_nonempty [OF wq_chainD(1) [OF ch]] by (simp add: last_conv_nth)
      then show ?thesis
        using turn copy_next_new [OF ch j, of ?r data "from" pos n ?f] rm r rec j src by simp
    qed
  next
    case fill
    define m where "m = min n (4096 * Suc j - pos)"
    have m: "0 < m" "m \<le> n" "pos + m \<le> 4096 * Suc j" "pos + m < 4096 * Suc j \<Longrightarrow> n - m = 0"
      using fill by (auto simp: m_def)
    obtain h1 where M: "copy_from data len hs j pos n h w p (ns ! j) =
      (if pos + m = 4096 * Suc j then
         rbind (altusWQNewNode h1 w p) (\<lambda>(h, w, p). rbind (deref h (ns ! j)) (\<lambda>nd.
         copy_from data len hs (Suc j) (pos + m) (n - m) h w p (to_tail nd)))
       else copy_from data len hs j (pos + m) (n - m) h1 w p (ns ! j))"
      "wq_chain h1 w p ns ps k"
      "\<And>x. x < 4096 * length ns \<Longrightarrow> byte_at h1 ns x =
         (if x \<in> {pos..<pos + m} then data ! (from + (x - pos)) else byte_at h ns x)"
      "\<And>a. validBlockCount (node h1 a) = validBlockCount (node h a)"
      "brk h1 = brk h" "limit h1 = limit h"
      using copy_write_turn [OF ch j less.prems(3) fill(2,1) src m_def] by blast
    have "copy_post h1 ns k w data (from + m) (pos + m) (n - m)
            (copy_from data len hs j pos n h w p (ns ! j))"
    proof (cases "pos + m = 4096 * Suc j")
      case True
      let ?r = "(pos + n) div 4096 - Suc j" and ?f = "copy_from data len hs (Suc j) (pos + m) (n - m)"
      have "4096 * Suc j \<le> pos + n" using True m(2) by linarith
      then have r: "(pos + n) div 4096 - j = Suc ?r" by auto
      have pn: "pos + m + (n - m) = pos + n" "from + m + (n - m) = from + n" using m(2) by auto
      have rec: "copy_post h2 (ns @ [a]) k w2 data (from + m) (pos + m) (n - m) (?f h2 w2 p2 ((ns @ [a]) ! Suc j))"
        if "wq_chain h2 w2 p2 (ns @ [a]) ps2 k" "room h2 ?r" for h2 w2 p2 a ps2
        by (rule less.hyps, unfold pn) (use that True m src j in auto)
      show ?thesis unfolding M(1) if_P [OF True]
        by (rule copy_next_new [OF M(2) j, where r = ?r and f = ?f])
           (use rm r rec M(5,6) in \<open>auto simp: room_def\<close>)
    next
      case False
      then have n0: "n - m = 0" "pos + m < 4096 * Suc j" using m by auto
      moreover have "4096 * Suc j \<le> 4096 * length ns" using j by simp
      ultimately show ?thesis unfolding M(1) if_not_P [OF False]
        by (intro less.hyps) (use M(2) m src j less.prems(3) rm in \<open>auto simp: room_def M(5,6)\<close>)
    qed
    then show ?thesis
      using m M(3,4) j by (intro copy_post_memcpy [of h1 ns k w data "from" m pos n]) auto
  qed
qed

end
