(* ===== verification/WQ_Put.thy ===== *)
theory WQ_Put
  imports WQ_Copy
begin

text \<open>
  \<^verbatim>\<open>altusWQPut\<close> as a whole: the loop that moves \<open>safe_tail\<close>, the invariant of the window, and the
  refinement of an abstract stream.
\<close>

section \<open>Moving the safe tail\<close>

lemma sint_word_of_nat_u32: "n < 2147483648 \<Longrightarrow> sint (word_of_nat n :: u32) = int n"
  by (simp add: sint_cases unat_word_of_nat_u32)

definition adv_post ::
  "heap \<Rightarrow> WQ_Window \<Rightarrow> WQ_Node_Pool \<Rightarrow> addr list \<Rightarrow> addr list \<Rightarrow> nat \<Rightarrow> (heap \<times> WQ_Window) res \<Rightarrow> bool" where
  "adv_post h w p ns ps t res \<longleftrightarrow>
     (\<exists>h' w'. res = Inr (h', w') \<and> wq_chain h' w' p ns ps (t div 4096) \<and>
        validBlockCount (node h' (ns ! (t div 4096))) = word_of_nat (t mod 4096) \<and>
        (\<forall>i < t div 4096. validBlockCount (node h' (ns ! i)) = 4096) \<and>
        (\<forall>a. ndata (node h' a) = ndata (node h a)) \<and>
        brk h' = brk h \<and> limit h' = limit h \<and>
        w' = w\<lparr>safe_tail := safe_tail w', safe_len := safe_len w', unsafe_len := unsafe_len w',
               lastSeq := lastSeq w'\<rparr>)"

lemma adv_post_step:
  assumes "adv_post h1 w1 p ns ps t res"
    and "\<forall>a. ndata (node h1 a) = ndata (node h a)" "brk h1 = brk h" "limit h1 = limit h"
    and "w1 = w\<lparr>safe_tail := a, safe_len := b, unsafe_len := c, lastSeq := d\<rparr>"
  shows "adv_post h w p ns ps t res"
  using assms unfolding adv_post_def by (elim exE) (rule exI, rule exI, auto)

lemma valid_upd_self [simp]: "\<exists>v. n = n\<lparr>validBlockCount := v\<rparr>"
  by (rule exI [of _ "validBlockCount n"]) simp

lemma wq_chain_set_valid:
  assumes "wq_chain h w p ns ps k" "k' < length ns"
    and "\<And>a. \<exists>v. node h1 a = (node h a)\<lparr>validBlockCount := v\<rparr>" "live h1 = live h" "brk h1 = brk h"
    and "w1 = w\<lparr>safe_tail := ns ! k', safe_len := b, unsafe_len := c, lastSeq := d\<rparr>"
  shows "wq_chain h1 w1 p ns ps k'"
proof -
  have "to_tail (node h1 a) = to_tail (node h a) \<and> to_head (node h1 a) = to_head (node h a)" for a
    using assms(3) [of a] by auto
  then have "wq_chain h1 w p ns ps k" by (intro wq_chain_same_links [OF assms(1)]) (use assms in auto)
  then show ?thesis using assms(2,6) by (simp add: wq_chain_def)
qed

lemma linked_step_live:
  assumes "wq_chain h w p ns ps k" "Suc k < length ns"
  shows "ns ! k \<noteq> 0" "live h (ns ! k)" "ns ! Suc k \<noteq> 0" "live h (ns ! Suc k)" "ns ! k \<noteq> ns ! Suc k"
    "to_tail (node h (ns ! k)) = ns ! Suc k"
  using assms linked_live [OF wq_chainD(1) [OF assms(1)]] linked_distinct [OF wq_chainD(1) [OF assms(1)]]
    linked_next [OF wq_chainD(1) [OF assms(1)]] by (auto simp: nth_eq_iff_index_eq)

text \<open>One turn, by how far the new end of the stream is from the start of the safe tail's node.\<close>

lemma altusWQPut_turn_cases:
  assumes ch: "wq_chain h w p ns ps k" and d: "v + m < 2147483648" and v4: "v < 4096"
    and v: "unat (validBlockCount (node h (ns ! k))) = v" and s: "newSeq = lastSeq w + word_of_nat m"
    and e: "4096 * k + v + m < 4096 * length ns"
  shows "v + m < 4096 \<Longrightarrow> altusWQPut_turn h w newSeq =
           Inr (False, h\<lparr>node := (node h)(ns ! k := (node h (ns ! k))\<lparr>validBlockCount := word_of_nat (v + m)\<rparr>)\<rparr>,
                w\<lparr>lastSeq := newSeq\<rparr>)"
    and "4096 \<le> v + m \<Longrightarrow> altusWQPut_turn h w newSeq =
           Inr (4096 < v + m, h\<lparr>node := (node h)(ns ! k := (node h (ns ! k))\<lparr>validBlockCount := 4096\<rparr>,
                    ns ! Suc k := (node h (ns ! Suc k))\<lparr>validBlockCount := 0\<rparr>)\<rparr>,
                w\<lparr>lastSeq := (if 4096 < v + m then lastSeq w + word_of_nat (4096 - v) else lastSeq w),
                  safe_tail := ns ! Suc k, safe_len := safe_len w + 1,
                  unsafe_len := unsafe_len w - 1\<rparr>)"
proof -
  have vw: "validBlockCount (node h (ns ! k)) = word_of_nat v" using v by auto
  have diff: "newSeq - (lastSeq w - validBlockCount (node h (ns ! k))) = word_of_nat (v + m)"
    unfolding s vw by simp
  have si: "sint (word_of_nat (v + m) :: u32) = int (v + m)" using d by (intro sint_word_of_nat_u32)
  have st: "safe_tail w = ns ! k" "k < length ns" using wq_chainD [OF ch] by auto
  then have l: "ns ! k \<noteq> 0" "live h (ns ! k)" using linked_live [OF wq_chainD(1) [OF ch]] by auto
  have d0: "deref h (safe_tail w) = Inr (node h (ns ! k))" using l st by (simp add: deref_def)
  note turn = altusWQPut_turn_def [of h w newSeq, unfolded d0 rbind_simps Let_def diff si]
  { assume "v + m < 4096"
    then have "\<not> 4096 < int (v + m)" "int (v + m) \<noteq> 4096" by simp_all
    then show "altusWQPut_turn h w newSeq =
           Inr (False, h\<lparr>node := (node h)(ns ! k := (node h (ns ! k))\<lparr>validBlockCount := word_of_nat (v + m)\<rparr>)\<rparr>,
                w\<lparr>lastSeq := newSeq\<rparr>)"
      using l st(1) unfolding turn by (simp only: if_False upd_def) simp }
  { assume g: "4096 \<le> v + m"
    then have "Suc k < length ns" using e by linarith
    note n = linked_step_live [OF ch this]
    have ls: "lastSeq w - validBlockCount (node h (ns ! k)) + 4096 = lastSeq w + word_of_nat (4096 - v)"
      using v4 unfolding vw by (simp add: of_nat_diff)
    have c: "4096 < int (v + m) \<longleftrightarrow> 4096 < v + m" "int (v + m) = 4096 \<longleftrightarrow> v + m = 4096" by linarith+
    show "altusWQPut_turn h w newSeq =
           Inr (4096 < v + m, h\<lparr>node := (node h)(ns ! k := (node h (ns ! k))\<lparr>validBlockCount := 4096\<rparr>,
                    ns ! Suc k := (node h (ns ! Suc k))\<lparr>validBlockCount := 0\<rparr>)\<rparr>,
                w\<lparr>lastSeq := (if 4096 < v + m then lastSeq w + word_of_nat (4096 - v) else lastSeq w),
                  safe_tail := ns ! Suc k, safe_len := safe_len w + 1,
                  unsafe_len := unsafe_len w - 1\<rparr>)"
    proof (cases "v + m = 4096")
      case True
      then show ?thesis unfolding turn c using n st(1) by (simp add: upd_def deref_def)
    next
      case False
      then have "4096 < v + m" using g by simp
      then show ?thesis unfolding turn c ls using n st(1) by (simp add: upd_def deref_def)
    qed }
qed

lemma altusWQPut_advance_correct:
  assumes "wq_chain h w p ns ps k" "v + m < 2147483648" "v < 4096"
    "unat (validBlockCount (node h (ns ! k))) = v" "newSeq = lastSeq w + word_of_nat m"
    "4096 * k + v + m < 4096 * length ns" "\<forall>i < k. validBlockCount (node h (ns ! i)) = 4096"
  shows "adv_post h w p ns ps (4096 * k + v + m) (altusWQPut_advance h w newSeq)"
  using assms
proof (induction "v + m" arbitrary: h w k v m rule: less_induct)
  case less
  note ch = less.prems(1) and turn = altusWQPut_turn_cases [OF less.prems(1,2,3,4,5,6)]
  show ?case
  proof (cases "v + m < 4096")
    case True
    have td: "(4096 * k + v + m) div 4096 = k" "(4096 * k + v + m) mod 4096 = v + m"
      using True by (auto simp: add.assoc)
    have nk: "i < k \<Longrightarrow> ns ! i \<noteq> ns ! k" for i
      using linked_distinct [OF wq_chainD(1) [OF ch]] wq_chainD(9) [OF ch] by (simp add: nth_eq_iff_index_eq)
    let ?h = "h\<lparr>node := (node h)(ns ! k := (node h (ns ! k))\<lparr>validBlockCount := word_of_nat (v + m)\<rparr>)\<rparr>"
    have "altusWQPut_advance h w newSeq = Inr (?h, w\<lparr>lastSeq := newSeq\<rparr>)"
      using turn(1) [OF True] by (subst altusWQPut_advance.simps) simp
    moreover have "wq_chain ?h (w\<lparr>lastSeq := newSeq\<rparr>) p ns ps k"
      by (rule wq_chain_set_valid [OF ch, where b = "safe_len w" and c = "unsafe_len w" and d = newSeq])
         (use wq_chainD(9,10) [OF ch] in auto)
    ultimately show ?thesis
      using less.prems(7) nk td unfolding adv_post_def td
      by (intro exI [of _ ?h] exI [of _ "w\<lparr>lastSeq := newSeq\<rparr>"]) simp
  next
    case False
    then have g: "4096 \<le> v + m" by simp
    let ?h = "h\<lparr>node := (node h)(ns ! k := (node h (ns ! k))\<lparr>validBlockCount := 4096\<rparr>,
                    ns ! Suc k := (node h (ns ! Suc k))\<lparr>validBlockCount := 0\<rparr>)\<rparr>"
    let ?w = "w\<lparr>lastSeq := (if 4096 < v + m then lastSeq w + word_of_nat (4096 - v) else lastSeq w),
                  safe_tail := ns ! Suc k, safe_len := safe_len w + 1,
                  unsafe_len := unsafe_len w - 1\<rparr>"
    have k: "Suc k < length ns" using g less.prems(6) by linarith
    have td: "4096 * k + v + m = 4096 * Suc k + 0 + (v + m - 4096)" using g by simp
    note n = linked_step_live [OF ch k]
    have nk: "i < k \<Longrightarrow> ns ! i \<noteq> ns ! k \<and> ns ! i \<noteq> ns ! Suc k" for i
      using linked_distinct [OF wq_chainD(1) [OF ch]] k by (simp add: nth_eq_iff_index_eq)
    have c: "wq_chain ?h ?w p ns ps (Suc k)"
      by (rule wq_chain_set_valid [OF ch k, where b = "safe_len w + 1" and c = "unsafe_len w - 1" and d = "lastSeq ?w"])
         auto
    have va: "\<forall>i < Suc k. validBlockCount (node ?h (ns ! i)) = 4096"
      using less.prems(7) nk n(5) by (auto simp: less_Suc_eq)
    have nd: "\<forall>a. ndata (node ?h a) = ndata (node h a)" by simp
    have "adv_post ?h ?w p ns ps (4096 * k + v + m) (altusWQPut_advance h w newSeq)"
    proof (cases "v + m = 4096")
      case True
      then have t: "4096 * k + v + m = 4096 * Suc k" by simp
      have "altusWQPut_advance h w newSeq = Inr (?h, ?w)"
        using turn(2) [OF g] True by (subst altusWQPut_advance.simps) simp
      then show ?thesis using c va unfolding adv_post_def t
        by (intro exI [of _ ?h] exI [of _ ?w]) (simp del: mult_Suc_right)
    next
      case False
      then have l: "4096 < v + m" using g by simp
      have r: "altusWQPut_advance h w newSeq = altusWQPut_advance ?h ?w newSeq"
        using turn(2) [OF g] l by (subst altusWQPut_advance.simps) simp
      have s: "newSeq = lastSeq ?w + word_of_nat (v + m - 4096)"
        using l less.prems(3,5) by (simp add: of_nat_diff)
      show ?thesis unfolding td r
        by (rule less.hyps [OF _ c _ _ _ s]; use l less.prems va in simp)
    qed
    then show ?thesis
      by (rule adv_post_step [OF _ nd, where a = "ns ! Suc k" and b = "safe_len w + 1"
            and c = "unsafe_len w - 1" and d = "lastSeq ?w"]) simp_all
  qed
qed

section \<open>The stream a window holds\<close>

text \<open>
  What a window means: the bytes that can be read now, the bytes that came early by their distance
  from the next expected one, and the sequence number expected next.
\<close>

record stream =
  ready :: "u8 list"
  early :: "nat \<Rightarrow> u8 option"
  expect :: u32

text \<open>
  Receiving bytes at distance \<open>d\<close>: they join the early ones, and everything up to the first gap
  becomes readable.
\<close>

definition first_gap :: "(nat \<Rightarrow> u8 option) \<Rightarrow> nat" where
  "first_gap e = (LEAST x. e x = None)"

definition stream_put :: "stream \<Rightarrow> nat \<Rightarrow> u8 list \<Rightarrow> stream" where
  "stream_put s d xs =
     (let e = (\<lambda>x. if d \<le> x \<and> x < d + length xs then Some (xs ! (x - d)) else early s x);
          g = first_gap e
      in \<lparr>ready = ready s @ map (the \<circ> e) [0..<g], early = (\<lambda>x. e (x + g)),
          expect = expect s + word_of_nat g\<rparr>)"

definition wq_inv ::
  "heap \<Rightarrow> WQ_Window \<Rightarrow> WQ_Node_Pool \<Rightarrow> addr list \<Rightarrow> addr list \<Rightarrow> nat \<Rightarrow> nat \<Rightarrow> bool" where
  "wq_inv h w p ns ps k v \<longleftrightarrow>
     wq_chain h w p ns ps k \<and> v < 4096 \<and> unat (validBlockCount (node h (ns ! k))) = v \<and>
     (\<forall>i < k. validBlockCount (node h (ns ! i)) = 4096) \<and>
     ub_inv 1 (lastSeq w) (ub_list w) \<and>
     (\<forall>x \<in> ub_cover (lastSeq w) (ub_list w).
        Suc (4096 * k + v + x) < 4096 * length ns \<and> Suc (v + x) < 2147483648) \<and>
     unat (headDataOffset w) < 4096 \<and> unat (headDataOffset w) \<le> 4096 * k + v"

definition wq_stream :: "heap \<Rightarrow> WQ_Window \<Rightarrow> addr list \<Rightarrow> nat \<Rightarrow> nat \<Rightarrow> stream" where
  "wq_stream h w ns k v =
     \<lparr>ready = map (byte_at h ns) [unat (headDataOffset w)..<4096 * k + v],
      early = (\<lambda>x. if x \<in> ub_cover (lastSeq w) (ub_list w) then Some (byte_at h ns (4096 * k + v + x)) else None),
      expect = lastSeq w\<rparr>"

text \<open>The first gap of a chain of blocks is 0, or the end of a block that starts at 0.\<close>

lemma chain_first_gap:
  assumes "chain lo ((h, t) # bs)" "\<And>x. e x = None \<longleftrightarrow> x \<notin> cover ((h, t) # bs)"
  shows "first_gap e = (if h = 0 then t else 0)"
proof (cases "h = 0")
  case True
  have "t \<notin> cover ((h, t) # bs)" using assms(1) chain_cover_ge [of "Suc t" bs t] by auto
  then have "(LEAST x. e x = None) = t"
    using assms True by (intro Least_equality) (auto simp: not_less [symmetric])
  then show ?thesis using True by (simp add: first_gap_def)
next
  case False
  then have "0 \<notin> cover ((h, t) # bs)" using assms(1) chain_cover_ge [of "Suc t" bs 0] by auto
  then show ?thesis using False assms(2) by (simp add: first_gap_def Least_eq_0)
qed

text \<open>With nothing early, the next bytes in order are appended.\<close>

lemma stream_put_in_order:
  assumes "early s = (\<lambda>_. None)"
  shows "stream_put s 0 xs =
     \<lparr>ready = ready s @ xs, early = (\<lambda>_. None), expect = expect s + word_of_nat (length xs)\<rparr>"
proof -
  have g: "first_gap (\<lambda>x. if x < length xs then Some (xs ! x) else None) = length xs"
    unfolding first_gap_def by (rule Least_equality) (auto simp: not_less split: if_splits)
  have "map (the \<circ> (\<lambda>x. if x < length xs then Some (xs ! x) else None)) [0..<length xs] = xs"
    by (rule nth_equalityI) auto
  then show ?thesis using g by (simp add: stream_put_def assms Let_def fun_eq_iff cong: if_cong)
qed

section \<open>The end of a put\<close>

definition put_finish :: "heap \<Rightarrow> WQ_Window \<Rightarrow> WQ_Node_Pool \<Rightarrow> (int \<times> wqs) res" where
  "put_finish h w p =
     (if ub_headSeq (ub_list w) ! 0 = lastSeq w then
        let newSeq = ub_tailSeq (ub_list w) ! 0 in
        rbind (altusWQPut_advance h w newSeq) (\<lambda>(h, w).
        Inr (0, h, w\<lparr>ub_list := altusUBPop (ub_list w), lastSeq := newSeq\<rparr>, p))
      else Inr (0, h, w, p))"

definition put_post :: "stream \<Rightarrow> (int \<times> wqs) res \<Rightarrow> bool" where
  "put_post s res \<longleftrightarrow>
     (\<exists>h' w' p' ns' ps' k' v'. res = Inr (0, h', w', p') \<and> wq_inv h' w' p' ns' ps' k' v' \<and>
        wq_stream h' w' ns' k' v' = s)"

lemma ub_blocks_Cons:
  assumes "ub_blocks u = (s, t) # bs"
  shows "ub_headSeq u ! 0 = s" "ub_tailSeq u ! 0 = t" "0 < unat (ub_count u)"
proof -
  show c: "0 < unat (ub_count u)" using arg_cong [OF assms, of length] by simp
  then show "ub_headSeq u ! 0 = s" "ub_tailSeq u ! 0 = t" using nth_ub_blocks [of 0 u] assms by simp_all
qed

text \<open>The newest packet did not close the gap at the expected byte, or it did.\<close>

lemma put_finish_stay:
  assumes ch: "wq_chain h w p ns ps k" and v: "v < 4096" "unat (validBlockCount (node h (ns ! k))) = v"
    "\<forall>i < k. validBlockCount (node h (ns ! i)) = 4096"
    and u: "ub_inv 0 (lastSeq w) (ub_list w)" "ub_blocks (ub_list w) = (s, t) # bs" "s \<noteq> lastSeq w"
    and bd: "\<forall>x \<in> ub_cover (lastSeq w) (ub_list w).
        Suc (4096 * k + v + x) < 4096 * length ns \<and> Suc (v + x) < 2147483648"
    and off: "unat (headDataOffset w) < 4096" "unat (headDataOffset w) \<le> 4096 * k + v"
    and e: "\<And>x. e x = (if x \<in> ub_cover (lastSeq w) (ub_list w)
                        then Some (byte_at h ns (4096 * k + v + x)) else None)"
  shows "put_post \<lparr>ready = map (byte_at h ns) [unat (headDataOffset w)..<4096 * k + v] @ map (the \<circ> e) [0..<first_gap e],
            early = (\<lambda>x. e (x + first_gap e)), expect = lastSeq w + word_of_nat (first_gap e)\<rparr> (put_finish h w p)"
proof -
  note s = ub_blocks_Cons(1) [OF u(2)]
  have c: "chain 0 ((soff (lastSeq w) s, soff (lastSeq w) t) # ub_dist (lastSeq w) bs)"
    using u(1,2) by (simp add: ub_inv_def)
  have g: "first_gap e = 0"
    using chain_first_gap [OF c, of e] u(2,3) by (simp add: e ub_cover_def)
  have "0 < soff (lastSeq w) s" using u(3) by (simp add: zero_less_iff_neq_zero)
  then have "ub_inv 1 (lastSeq w) (ub_list w)" using u c by (simp add: ub_inv_def Suc_le_eq)
  then have "wq_inv h w p ns ps k v" using ch v bd off by (simp add: wq_inv_def)
  then show ?thesis
    unfolding put_post_def using s u(3) e
    by (intro exI [of _ h] exI [of _ w] exI [of _ p] exI [of _ ns] exI [of _ ps] exI [of _ k] exI [of _ v])
       (simp add: put_finish_def wq_stream_def g fun_eq_iff)
qed

lemma put_finish_advance:
  assumes ch: "wq_chain h w p ns ps k" and v: "v < 4096" "unat (validBlockCount (node h (ns ! k))) = v"
    "\<forall>i < k. validBlockCount (node h (ns ! i)) = 4096"
    and u: "ub_inv 0 (lastSeq w) (ub_list w)" "ub_blocks (ub_list w) = (lastSeq w, t) # bs"
    and bd: "\<forall>x \<in> ub_cover (lastSeq w) (ub_list w).
        Suc (4096 * k + v + x) < 4096 * length ns \<and> Suc (v + x) < 2147483648"
    and off: "unat (headDataOffset w) < 4096" "unat (headDataOffset w) \<le> 4096 * k + v"
    and e: "\<And>x. e x = (if x \<in> ub_cover (lastSeq w) (ub_list w)
                        then Some (byte_at h ns (4096 * k + v + x)) else None)"
  shows "put_post \<lparr>ready = map (byte_at h ns) [unat (headDataOffset w)..<4096 * k + v] @ map (the \<circ> e) [0..<first_gap e],
            early = (\<lambda>x. e (x + first_gap e)), expect = lastSeq w + word_of_nat (first_gap e)\<rparr> (put_finish h w p)"
proof -
  define m where "m = soff (lastSeq w) t"
  let ?T = "4096 * k + v + m"
  note blk = ub_blocks_Cons [OF u(2)]
  have c: "chain 0 ((0, m) # ub_dist (lastSeq w) bs)" using u by (simp add: ub_inv_def m_def)
  have cov: "ub_cover (lastSeq w) (ub_list w) = cover ((0, m) # ub_dist (lastSeq w) bs)"
    using u(2) by (simp add: ub_cover_def m_def)
  have g: "first_gap e = m" using chain_first_gap [OF c, of e] by (simp add: e cov)
  have t: "t = lastSeq w + word_of_nat m" by (simp add: m_def soff_def)
  have inm: "x < m \<Longrightarrow> x \<in> ub_cover (lastSeq w) (ub_list w)" for x by (simp add: cov)
  have "0 < m" using c by simp
  then have mb: "?T < 4096 * length ns" "v + m < 2147483648" using bd [rule_format, OF inm, of "m - 1"] by simp_all
  obtain h2 w2 where A: "altusWQPut_advance h w t = Inr (h2, w2)" "wq_chain h2 w2 p ns ps (?T div 4096)"
    "validBlockCount (node h2 (ns ! (?T div 4096))) = word_of_nat (?T mod 4096)"
    "\<forall>i < ?T div 4096. validBlockCount (node h2 (ns ! i)) = 4096"
    "\<And>a. ndata (node h2 a) = ndata (node h a)"
    "w2 = w\<lparr>safe_tail := safe_tail w2, safe_len := safe_len w2, unsafe_len := unsafe_len w2, lastSeq := lastSeq w2\<rparr>"
    using altusWQPut_advance_correct [OF ch mb(2) v(1,2) t mb(1) v(3)] unfolding adv_post_def by blast
  have w2: "ub_list w2 = ub_list w" "headDataOffset w2 = headDataOffset w"
    by (subst A(6), simp)+
  let ?w = "w2\<lparr>ub_list := altusUBPop (ub_list w), lastSeq := t\<rparr>"
  have T: "4096 * (?T div 4096) + ?T mod 4096 = ?T" by simp
  have Tx: "4096 * (?T div 4096) + ?T mod 4096 + x = 4096 * k + v + (x + m)" for x by simp
  have bt: "byte_at h2 ns = byte_at h ns" using A(5) by (simp add: byte_at_def fun_eq_iff)
  have pop: "ub_shape (altusUBPop (ub_list w))" "ub_blocks (altusUBPop (ub_list w)) = bs"
    using altusUBPop_blocks [of "ub_list w"] u blk(3) by (simp_all add: ub_inv_def)
  have cb: "chain (Suc m) (ub_dist (lastSeq w) bs)" "soff (lastSeq w) t \<le> Suc m" using c by (simp_all add: m_def)
  have inv1: "ub_inv 1 t (altusUBPop (ub_list w))"
    using chain_rebase [OF cb] pop by (simp add: ub_inv_def m_def)
  have cov': "x \<in> ub_cover t (altusUBPop (ub_list w)) \<longleftrightarrow> x + m \<in> ub_cover (lastSeq w) (ub_list w)" for x
    using cover_rebase [OF cb, of x] pop by (auto simp: ub_cover_def m_def u(2))
  have le: "?T mod 4096 + x \<le> v + (x + m)" for x using mod_less_eq_dividend [of "v + m" 4096] by (simp add: add.assoc)
  have bd': "Suc (4096 * k + v + (x + m)) < 4096 * length ns \<and> Suc (?T mod 4096 + x) < 2147483648"
    if "x + m \<in> ub_cover (lastSeq w) (ub_list w)" for x
    using bd [rule_format, OF that] le [of x] by linarith
  have "wq_chain h2 ?w p ns ps (?T div 4096)" using A(2) by (simp add: wq_chain_def)
  then have "wq_inv h2 ?w p ns ps (?T div 4096) (?T mod 4096)"
    using A(3,4) inv1 off bd' w2 unfolding wq_inv_def T Tx by (auto simp: cov' unat_word_of_nat_u32 ac_simps)
  moreover have rd: "[unat (headDataOffset w)..<?T] = [unat (headDataOffset w)..<4096 * k + v] @ map (\<lambda>i. i + (4096 * k + v)) [0..<m]"
    using upt_add_eq_append [OF off(2), of m] unfolding map_add_upt by (simp add: add.commute)
  moreover have "put_finish h w p = Inr (0, h2, ?w, p)"
    using blk A(1) w2 by (simp add: put_finish_def)
  moreover have "wq_stream h2 ?w ns (?T div 4096) (?T mod 4096) =
     \<lparr>ready = map (byte_at h ns) [unat (headDataOffset w)..<4096 * k + v] @ map (the \<circ> e) [0..<m],
      early = (\<lambda>x. e (x + m)), expect = t\<rparr>"
    unfolding wq_stream_def T Tx using w2 rd inm by (auto simp: bt cov' e fun_eq_iff ac_simps)
  ultimately show ?thesis unfolding put_post_def g t
    by (intro exI [of _ h2] exI [of _ ?w] exI [of _ p] exI [of _ ns] exI [of _ ps] exI) simp
qed

section \<open>The whole put\<close>

text \<open>
  \<open>put_ok w v seq len\<close>: a non-empty packet at or after the expected byte that starts no further than
  the end of the node being filled, of which \<open>v\<close> bytes are used, and passes the window's own test.
\<close>

definition window_full :: "WQ_Window \<Rightarrow> u32 \<Rightarrow> u32 \<Rightarrow> bool" where
  "window_full w seq len \<longleftrightarrow> windowSize w < safe_len w + ((seq + len - lastSeq w) div 4096 + 1)"

definition put_ok :: "WQ_Window \<Rightarrow> nat \<Rightarrow> u32 \<Rightarrow> u32 \<Rightarrow> bool" where
  "put_ok w v seq len \<longleftrightarrow>
     v + soff (lastSeq w) seq \<le> 4096 \<and> 0 < unat len \<and> unat len < 2147479552 \<and> \<not> window_full w seq len"

lemma put_not_old: "soff b seq < 2147483648 \<Longrightarrow> \<not> sgt0 (b - seq)"
  using sgt0_soff [of b b seq] by simp

lemma put_okD:
  assumes "put_ok w v seq len"
  shows "pkt_ok (lastSeq w) seq len" "\<not> sgt0 (lastSeq w - seq)"
    "v + soff (lastSeq w) seq + unat len < 2147483648"
  using assms put_not_old [of "lastSeq w" seq] by (auto simp: put_ok_def pkt_ok_def)

text \<open>What the copy leaves for the end of the put.\<close>

lemma put_copy_stream:
  assumes inv: "wq_inv h w p ns ps k v" and ok: "put_ok w v seq len" and len: "unat len \<le> length data"
    and room: "room h ((v + soff (lastSeq w) seq + unat len) div 4096)"
    and u': "ub_inv 0 (lastSeq w) u'"
      "ub_cover (lastSeq w) (ub_list w) \<inter> pkt_range (lastSeq w) seq len = {}"
      "ub_cover (lastSeq w) u' = ub_cover (lastSeq w) (ub_list w) \<union> pkt_range (lastSeq w) seq len"
  shows "put_post (stream_put (wq_stream h w ns k v) (soff (lastSeq w) seq) (take (unat len) data))
     (rbind (altusWQPut_copy data len h (w\<lparr>ub_list := u'\<rparr>) p (safe_tail w)
               (lastSeq w - validBlockCount (node h (safe_tail w))) seq len) (\<lambda>(h, w, p). put_finish h w p))"
proof -
  let ?d = "soff (lastSeq w) seq" and ?w = "w\<lparr>ub_list := u'\<rparr>" and ?B = "4096 * k + v"
  define hs where "hs = lastSeq w - word_of_nat ?B"
  have I: "wq_chain h w p ns ps k" "v < 4096" "unat (validBlockCount (node h (ns ! k))) = v"
    "\<forall>i < k. validBlockCount (node h (ns ! i)) = 4096"
    "\<And>x. x \<in> ub_cover (lastSeq w) (ub_list w) \<Longrightarrow> Suc (?B + x) < 4096 * length ns \<and> Suc (v + x) < 2147483648"
    "unat (headDataOffset w) < 4096" "unat (headDataOffset w) \<le> ?B"
    using inv by (auto simp: wq_inv_def)
  have k: "k < length ns" "safe_tail w = ns ! k" using wq_chainD [OF I(1)] by auto
  have ch: "wq_chain h ?w p ns ps k" using I(1) by (simp add: wq_chain_def)
  have ok': "v + ?d \<le> 4096" "0 < unat len" "unat len < 2147479552" using ok by (auto simp: put_ok_def)
  have vv: "validBlockCount (node h (ns ! k)) = word_of_nat v" using I(3) by auto
  have w1: "lastSeq w - validBlockCount (node h (safe_tail w)) = hs + word_of_nat (4096 * k)"
    unfolding k(2) vv hs_def by simp
  have w2: "seq = hs + word_of_nat (?B + ?d)" by (simp add: hs_def soff_def)
  have w3: "len = word_of_nat (0 + unat len)" by simp
  have call: "altusWQPut_copy data len h ?w p (safe_tail w) (lastSeq w - validBlockCount (node h (safe_tail w))) seq len
      = copy_from data len hs k (?B + ?d) (unat len) h ?w p (ns ! k)"
    unfolding w1 w2 [symmetric] by (simp add: k(2))
  have "copy_post h ns k ?w data 0 (?B + ?d) (unat len)
      (copy_from data len hs k (?B + ?d) (unat len) h ?w p (ns ! k))"
    by (rule altusWQPut_copy_correct [OF ch k(1)]) (use ok' len room in \<open>auto simp: add.assoc\<close>)
  then obtain h1 w1 p1 ns1 ps1 where C:
    "copy_from data len hs k (?B + ?d) (unat len) h ?w p (ns ! k) = Inr (h1, w1, p1)"
    "wq_chain h1 w1 p1 ns1 ps1 k" "take (length ns) ns1 = ns" "?B + ?d + unat len < 4096 * length ns1"
    "\<And>x. x < 4096 * length ns \<Longrightarrow> x \<notin> {?B + ?d..<?B + ?d + unat len} \<Longrightarrow> byte_at h1 ns1 x = byte_at h ns x"
    "\<And>i. i < unat len \<Longrightarrow> byte_at h1 ns1 (?B + ?d + i) = data ! i"
    "\<And>a. a \<in> set ns \<Longrightarrow> validBlockCount (node h1 a) = validBlockCount (node h a)"
    "w1 = ?w\<lparr>unsafe_tail := unsafe_tail w1, unsafe_len := unsafe_len w1\<rparr>"
    unfolding copy_post_def by (metis add_0)
  have W: "ub_list w1 = u'" "lastSeq w1 = lastSeq w" "headDataOffset w1 = headDataOffset w"
    by (subst C(8), simp)+
  have ln: "length ns \<le> length ns1" and nth: "\<And>i. i < length ns \<Longrightarrow> ns1 ! i = ns ! i"
    using C(3) by (metis length_take min.cobounded1 min.commute, metis nth_take)
  have valid: "unat (validBlockCount (node h1 (ns1 ! k))) = v" "\<forall>i < k. validBlockCount (node h1 (ns1 ! i)) = 4096"
    using I(3,4) C(7) k(1) nth by auto
  define e where "e = (\<lambda>x. if ?d \<le> x \<and> x < ?d + unat len then Some (data ! (x - ?d))
     else if x \<in> ub_cover (lastSeq w) (ub_list w) then Some (byte_at h ns (?B + x)) else None)"
  have e: "e x = (if x \<in> ub_cover (lastSeq w1) (ub_list w1) then Some (byte_at h1 ns1 (?B + x)) else None)" for x
    using C(5) [of "?B + x"] C(6) [of "x - ?d"] I(5) [of x] u'(3) by (auto simp: e_def W pkt_range_def add.assoc)
  have rd: "map (byte_at h1 ns1) [unat (headDataOffset w1)..<?B] = map (byte_at h ns) [unat (headDataOffset w)..<?B]"
    using C(5) I(2) k(1) by (auto simp: W)
  have bd: "\<forall>x \<in> ub_cover (lastSeq w1) (ub_list w1). Suc (?B + x) < 4096 * length ns1 \<and> Suc (v + x) < 2147483648"
    using I(5) C(4) put_okD(3) [OF ok] ln u'(3) by (force simp: W pkt_range_def)
  have e': "(\<lambda>x. if ?d \<le> x \<and> x < ?d + length (take (unat len) data) then Some (take (unat len) data ! (x - ?d))
       else early (wq_stream h w ns k v) x) = e"
    using len by (auto simp: e_def fun_eq_iff wq_stream_def)
  have "stream_put (wq_stream h w ns k v) ?d (take (unat len) data) =
     \<lparr>ready = map (byte_at h1 ns1) [unat (headDataOffset w1)..<?B] @ map (the \<circ> e) [0..<first_gap e],
      early = (\<lambda>x. e (x + first_gap e)), expect = lastSeq w1 + word_of_nat (first_gap e)\<rparr>"
    unfolding rd unfolding W stream_put_def e' Let_def by (simp add: wq_stream_def)
  moreover have "ub_blocks u' \<noteq> []" using u'(3) ok'(2) by (auto simp: ub_cover_def pkt_range_def)
  then obtain s t bs where b: "ub_blocks (ub_list w1) = (s, t) # bs" unfolding W by (metis neq_Nil_conv surj_pair)
  have "put_post \<lparr>ready = map (byte_at h1 ns1) [unat (headDataOffset w1)..<?B] @ map (the \<circ> e) [0..<first_gap e],
      early = (\<lambda>x. e (x + first_gap e)), expect = lastSeq w1 + word_of_nat (first_gap e)\<rparr> (put_finish h1 w1 p1)"
  proof (cases "s = lastSeq w1")
    case True
    then show ?thesis
      using put_finish_advance [OF C(2) I(2) valid _ _ bd _ _ e, of t bs] b u'(1) I(6,7) by (simp add: W)
  next
    case False
    then show ?thesis
      using put_finish_stay [OF C(2) I(2) valid _ b _ bd _ _ e] u'(1) I(6,7) by (simp add: W)
  qed
  ultimately show ?thesis unfolding call C(1) by simp
qed

lemma altusWQPut_accepts:
  assumes "wq_inv h w p ns ps k v" "pkt_ok (lastSeq w) seq len" "\<not> window_full w seq len"
    and "altusUBCheck (ub_list w) seq len = Inr (r, u')"
    and "r \<in> {ALTUS_UBENUM_NEW_UB_ADDED, ALTUS_UBENUM_UB_EXTENDED}"
  shows "altusWQPut h w p seq len data =
     rbind (altusWQPut_copy data len h (w\<lparr>ub_list := u'\<rparr>) p (safe_tail w)
               (lastSeq w - validBlockCount (node h (safe_tail w))) seq len) (\<lambda>(h, w, p). put_finish h w p)"
proof -
  have ch: "wq_chain h w p ns ps k" using assms(1) by (simp add: wq_inv_def)
  have "deref h (safe_tail w) = Inr (node h (safe_tail w))"
    using wq_chainD(9,10) [OF ch] linked_live [OF wq_chainD(1) [OF ch]] by (simp add: deref_def)
  moreover have "\<not> windowSize w < safe_len w + ((seq + len - lastSeq w) div 4096 + 1)"
    using assms(3) by (simp add: window_full_def)
  ultimately show ?thesis
    using assms(4,5) assms(2) put_not_old [of "lastSeq w" seq] unfolding pkt_ok_def
    by (auto simp: altusWQPut_def put_finish_def Let_def cong: rbind_cong)
qed

lemma unat_eq_iff_8: "unat (x :: u32) = 8 \<longleftrightarrow> x = 8"
  using word_unat_eq_iff [of x 8] by simp

lemma wq_inv_ub0: "wq_inv h w p ns ps k v \<Longrightarrow> ub_inv 0 (lastSeq w) (ub_list w)"
  using chain_mono [of 1 _ 0] by (auto simp: wq_inv_def ub_inv_def)

section \<open>Construction\<close>

text \<open>A heap with nothing allocated, of which \<open>n\<close> cells can be.\<close>

definition empty_heap :: "WQ_Node \<Rightarrow> nat \<Rightarrow> heap" where
  "empty_heap nd n = \<lparr>node = (\<lambda>_. nd), live = (\<lambda>_. False), brk = 1, limit = Suc n\<rparr>"

text \<open>A new window, a new pool, and the first sequence number set by the caller.\<close>

definition wq_open :: "heap \<Rightarrow> WQ_Window \<Rightarrow> u32 \<Rightarrow> (addr \<times> addr \<times> wqs) res" where
  "wq_open h w0 s =
     rbind (altusNewWindow h w0) (\<lambda>(h, wa, w).
     rbind (altusWQNewNodePool h) (\<lambda>(h, pa, p).
     Inr (wa, pa, h, w\<lparr>lastSeq := s, headSeq := s\<rparr>, p)))"

definition empty_stream :: "u32 \<Rightarrow> stream" where
  "empty_stream s = \<lparr>ready = [], early = (\<lambda>_. None), expect = s\<rparr>"

lemma wq_open_result:
  assumes "0 < brk h" "room h 4" "length (ub_headSeq (ub_list w0)) = 8" "length (ub_tailSeq (ub_list w0)) = 8"
  shows "\<exists>h' w' p'. wq_open h w0 s = Inr (brk h, brk h + 2, h', w', p') \<and>
     wq_inv h' w' p' [brk h + 1] [brk h + 3] 0 0 \<and> wq_stream h' w' [brk h + 1] 0 0 = empty_stream s \<and>
     brk h' = brk h + 4 \<and> limit h' = limit h \<and> safe_len w' = 1 \<and>
     windowSize w' = ALTUS_WINDOW_BLOCK_MAX_DEFAULT \<and> lastSeq w' = s \<and> headSeq w' = s \<and>
     ub_count (ub_list w') = 0"
  using assms
  by (simp add: wq_open_def altusNewWindow_def altusWQNewNodePool_def malloc_def Let_def upd_def room_def
      wq_inv_def wq_chain_def linked_def wq_stream_def empty_stream_def ub_inv_def ub_shape_def ub_cover_def)

lemma altusWQPut_check:
  assumes inv: "wq_inv h w p ns ps k v" and pk: "pkt_ok (lastSeq w) seq len" and lo: "lo \<le> soff (lastSeq w) seq" "lo \<le> 1"
    and win: "\<not> window_full w seq len"
  shows "if ub_cover (lastSeq w) (ub_list w) \<inter> pkt_range (lastSeq w) seq len \<noteq> {}
         then altusWQPut h w p seq len data = Inr (-5, h, w, p)
         else if \<not> ub_adjacent seq len (ub_list w) \<and> ub_count (ub_list w) = 8
         then altusWQPut h w p seq len data = Inr (-4, h, w, p)
         else \<exists>u'. ub_inv lo (lastSeq w) u' \<and>
                ub_cover (lastSeq w) u' = ub_cover (lastSeq w) (ub_list w) \<union> pkt_range (lastSeq w) seq len \<and>
                altusWQPut h w p seq len data =
                  rbind (altusWQPut_copy data len h (w\<lparr>ub_list := u'\<rparr>) p (safe_tail w)
                    (lastSeq w - validBlockCount (node h (safe_tail w))) seq len) (\<lambda>(h, w, p). put_finish h w p)"
proof -
  have u0: "ub_inv lo (lastSeq w) (ub_list w)" using inv lo(2) chain_mono [of 1 _ lo] by (auto simp: wq_inv_def ub_inv_def)
  obtain r u' where U: "altusUBCheck (ub_list w) seq len = Inr (r, u')" "ub_inv lo (lastSeq w) u'"
      "r \<noteq> ALTUS_UBENUM_OVERLAP"
      "r = ALTUS_UBENUM_MALICIOUS_INPUT \<longleftrightarrow> ub_cover (lastSeq w) (ub_list w) \<inter> pkt_range (lastSeq w) seq len \<noteq> {}"
      "r = ALTUS_UBENUM_FULL \<longleftrightarrow>
         ub_cover (lastSeq w) (ub_list w) \<inter> pkt_range (lastSeq w) seq len = {} \<and> \<not> ub_adjacent seq len (ub_list w) \<and>
         ub_count (ub_list w) = 8"
      "r \<in> {ALTUS_UBENUM_NEW_UB_ADDED, ALTUS_UBENUM_UB_EXTENDED} \<Longrightarrow>
         ub_cover (lastSeq w) u' = ub_cover (lastSeq w) (ub_list w) \<union> pkt_range (lastSeq w) seq len"
      "r \<in> {ALTUS_UBENUM_FULL, ALTUS_UBENUM_MALICIOUS_INPUT} \<Longrightarrow> u' = ub_list w"
    using altusUBCheck_result [OF u0 pk lo(1)] unfolding unat_eq_iff_8 by (auto split: if_splits)
  have old: "\<not> sgt0 (lastSeq w - seq)" using pk put_not_old [of "lastSeq w" seq] by (simp add: pkt_ok_def)
  have nw: "\<not> windowSize w < safe_len w + ((seq + len - lastSeq w) div 4096 + 1)" using win by (simp add: window_full_def)
  consider (bad) "r = ALTUS_UBENUM_MALICIOUS_INPUT" | (full) "r = ALTUS_UBENUM_FULL"
    | (ok) "r \<in> {ALTUS_UBENUM_NEW_UB_ADDED, ALTUS_UBENUM_UB_EXTENDED}"
    using U(3) by (cases r) auto
  then show ?thesis
  proof cases
    case bad
    then show ?thesis using U(1,4,7) old nw by (simp add: altusWQPut_def Let_def)
  next
    case full
    then show ?thesis using U(1,4,5,7) old nw by (simp add: altusWQPut_def Let_def)
  next
    case ok
    have "ub_cover (lastSeq w) (ub_list w) \<inter> pkt_range (lastSeq w) seq len = {}" "r \<noteq> ALTUS_UBENUM_FULL" using ok U(4) by auto
    then show ?thesis
      using altusWQPut_accepts [OF inv pk win U(1) ok] U(2,5) U(6) [OF ok] by auto
  qed
qed

lemma altusWQPut_result:
  assumes inv: "wq_inv h w p ns ps k v" and ok: "put_ok w v seq len" and len: "unat len \<le> length data"
    and room: "room h ((v + soff (lastSeq w) seq + unat len) div 4096)"
  shows "if ub_cover (lastSeq w) (ub_list w) \<inter> pkt_range (lastSeq w) seq len \<noteq> {}
         then altusWQPut h w p seq len data = Inr (-5, h, w, p)
         else if \<not> ub_adjacent seq len (ub_list w) \<and> ub_count (ub_list w) = 8
         then altusWQPut h w p seq len data = Inr (-4, h, w, p)
         else put_post (stream_put (wq_stream h w ns k v) (soff (lastSeq w) seq) (take (unat len) data))
                (altusWQPut h w p seq len data)"
proof -
  have "\<not> window_full w seq len" using ok by (simp add: put_ok_def)
  from altusWQPut_check [OF inv put_okD(1) [OF ok] le0 _ this, of data] show ?thesis
    using put_copy_stream [OF inv ok len room] by (auto split: if_splits)
qed

lemma altusWQPut_early_exit:
  "sgt0 (lastSeq w - seq) \<Longrightarrow> altusWQPut h w p seq len data = Inr (-2, h, w, p)"
  "\<not> sgt0 (lastSeq w - seq) \<Longrightarrow> window_full w seq len \<Longrightarrow> altusWQPut h w p seq len data = Inr (-3, h, w, p)"
  by (simp_all add: altusWQPut_def window_full_def)

lemma sgt0_old: "2147483648 < soff b seq \<Longrightarrow> sgt0 (b - seq)"
proof -
  assume a: "2147483648 < soff b seq"
  have "unat (b - seq) = unat (0 - (seq - b))" by simp
  also have "\<dots> = 4294967296 - soff b seq"
    using a unat_minus_cases [of 0 "seq - b"] by (simp add: soff_def)
  finally have "unat (b - seq) = 4294967296 - soff b seq" .
  then show ?thesis using a soff_lt [of b seq] unfolding sgt0_def sint_cases by simp
qed

text \<open>The window test, in numbers that do not wrap around.\<close>

lemma window_full_nat:
  assumes "soff (lastSeq w) seq + unat len < 2147483648" "unat (safe_len w) < 2147483648"
  shows "window_full w seq len \<longleftrightarrow>
    unat (windowSize w) < unat (safe_len w) + (soff (lastSeq w) seq + unat len) div 4096 + 1"
proof -
  have "seq + len - lastSeq w = word_of_nat (soff (lastSeq w) seq + unat len)" by (simp add: soff_def)
  then have "unat (seq + len - lastSeq w) = soff (lastSeq w) seq + unat len"
    using assms(1) by (simp only: unat_word_of_nat_u32)
  then have "unat ((seq + len - lastSeq w) div 4096) = (soff (lastSeq w) seq + unat len) div 4096"
    by (simp add: unat_div_distrib)
  moreover have "(soff (lastSeq w) seq + unat len) div 4096 < 524288" using assms(1) by (simp add: div_less_iff_less_mult)
  ultimately have "unat (safe_len w + ((seq + len - lastSeq w) div 4096 + 1)) =
      unat (safe_len w) + (soff (lastSeq w) seq + unat len) div 4096 + 1"
    using assms(2) by (simp only: unat_word_ariths) simp
  then show ?thesis by (simp add: window_full_def word_less_nat_alt)
qed

section \<open>Properties\<close>

text \<open>
  C7.  On a well-formed window take a packet that starts in the node being filled or right behind it, that
  passes the window test, and for which memory for its nodes can be had.  It is handled as the abstract stream says: a packet
  that overlaps stored early bytes is refused with -5, one that would need a ninth block with -4, both leaving heap, window and
  pool as they were; any other returns 0, its bytes are stored, everything up to the first missing byte becomes readable,
  nothing already readable or stored changes, and the window is well-formed again.
\<close>

theorem altusWQPut_refines:
  assumes inv: "wq_inv h w p ns ps k v" and ok: "put_ok w v seq len" and len: "unat len \<le> length data"
    and room: "room h ((v + soff (lastSeq w) seq + unat len) div 4096)"
  shows "if ub_cover (lastSeq w) (ub_list w) \<inter> pkt_range (lastSeq w) seq len \<noteq> {}
         then altusWQPut h w p seq len data = Inr (-5, h, w, p)
         else if \<not> ub_adjacent seq len (ub_list w) \<and> ub_count (ub_list w) = 8
         then altusWQPut h w p seq len data = Inr (-4, h, w, p)
         else put_post (stream_put (wq_stream h w ns k v) (soff (lastSeq w) seq) (take (unat len) data))
                (altusWQPut h w p seq len data)"
  using altusWQPut_result [OF assms] .

lemma altusWQPut_copy_far:
  assumes d: "4096 < x" "x + unat len < 2147483648" and s: "seq = cs + word_of_nat x" and len: "0 < unat len" "unat len \<le> length data"
    and a: "a \<noteq> 0" "live h a"
  shows "altusWQPut_copy data len h w p a cs seq len =
    (if x mod 65536 + unat len \<le> 4096
     then Inr (h\<lparr>node := (node h)(a := (node h a)\<lparr>ndata := blit (ndata (node h a)) (x mod 65536) (take (unat len) data)\<rparr>)\<rparr>, w, p)
     else Inl OutOfBounds)"
proof -
  let ?wl = "cs + 4096 - seq"
  have "?wl = 4096 - word_of_nat x" by (simp add: s)
  then have "unat ?wl = unat (4096 - word_of_nat x :: u32)" by (rule arg_cong)
  also have "\<dots> = 4294967296 + 4096 - x" using d by (simp add: unat_minus_cases unat_word_of_nat_u32)
  finally have "unat ?wl = 4294967296 + 4096 - x" .
  then have wl: "\<not> ?wl \<le> 0" "len < ?wl" using d by (auto simp: word_le_nat_alt word_less_nat_alt)
  have off: "unat (ucast (seq - cs) :: u16) = x mod 65536"
    using d by (simp add: s unsigned_ucast_eq unat_word_of_nat_u32 take_bit_eq_mod)
  have "unat (word_of_nat x + len) = x + unat len" using d by (simp add: unat_word_ariths unat_word_of_nat_u32)
  then have e: "seq + len \<noteq> cs + 4096" using d by (auto simp: s add.assoc)
  show ?thesis
    using wl len e a
    by (subst altusWQPut_copy.simps)
       (simp add: Let_def off unat_gt_0 memcpy_node_def upd_def altusWQPut_copy.simps [where leftLen = 0] del: word_le_0_iff)
qed

lemma put_finish_far:
  assumes "ub_inv 1 (lastSeq w) (ub_list w)" "ub_cover (lastSeq w) (ub_list w) \<noteq> {}"
  shows "put_finish h w p = Inr (0, h, w, p)"
proof -
  obtain s t bs where b: "ub_blocks (ub_list w) = (s, t) # bs"
    using assms(2) by (cases "ub_blocks (ub_list w)") (auto simp: ub_cover_def)
  then have "1 \<le> soff (lastSeq w) s" using assms(1) by (simp add: ub_inv_def)
  then have "s \<noteq> lastSeq w" by auto
  then show ?thesis using ub_blocks_Cons(1) [OF b] by (simp add: put_finish_def)
qed

lemma altusWQPut_far:
  assumes inv: "wq_inv h w p ns ps k v"
    and far: "4096 < v + soff (lastSeq w) seq" "v + soff (lastSeq w) seq + unat len < 2147483648"
    and len: "0 < unat len" "unat len \<le> length data" and win: "\<not> window_full w seq len"
    and new: "ub_cover (lastSeq w) (ub_list w) \<inter> pkt_range (lastSeq w) seq len = {}"
      "ub_adjacent seq len (ub_list w) \<or> ub_count (ub_list w) \<noteq> 8"
  shows "if (v + soff (lastSeq w) seq) mod 65536 + unat len \<le> 4096
    then \<exists>u'. altusWQPut h w p seq len data =
        Inr (0, h\<lparr>node := (node h)(safe_tail w := (node h (safe_tail w))\<lparr>ndata :=
          blit (ndata (node h (safe_tail w))) ((v + soff (lastSeq w) seq) mod 65536) (take (unat len) data)\<rparr>)\<rparr>, w\<lparr>ub_list := u'\<rparr>, p)
      \<and> ub_cover (lastSeq w) u' = ub_cover (lastSeq w) (ub_list w) \<union> pkt_range (lastSeq w) seq len
    else altusWQPut h w p seq len data = Inl OutOfBounds"
proof -
  have v: "v < 4096" "unat (validBlockCount (node h (safe_tail w))) = v" and ch: "wq_chain h w p ns ps k"
    using inv wq_chainD(10) by (auto simp: wq_inv_def)
  have a: "safe_tail w \<noteq> 0" "live h (safe_tail w)"
    using ch wq_chainD(9,10) linked_live [OF wq_chainD(1)] by (metis nth_mem)+
  have pk: "pkt_ok (lastSeq w) seq len" and lo: "1 \<le> soff (lastSeq w) seq" using far len v(1) by (auto simp: pkt_ok_def)
  obtain u' where u: "ub_inv 1 (lastSeq w) u'" "ub_cover (lastSeq w) u' = ub_cover (lastSeq w) (ub_list w) \<union> pkt_range (lastSeq w) seq len"
    "altusWQPut h w p seq len data = rbind (altusWQPut_copy data len h (w\<lparr>ub_list := u'\<rparr>) p (safe_tail w)
       (lastSeq w - validBlockCount (node h (safe_tail w))) seq len) (\<lambda>(h, w, p). put_finish h w p)"
    using altusWQPut_check [OF inv pk lo le_refl win, of data] new by (auto split: if_splits)
  have "validBlockCount (node h (safe_tail w)) = word_of_nat v" using v(2) by auto
  then have s: "seq = lastSeq w - validBlockCount (node h (safe_tail w)) + word_of_nat (v + soff (lastSeq w) seq)" by (simp add: soff_def)
  have "ub_cover (lastSeq w) u' \<noteq> {}" using u(2) len by (auto simp: pkt_range_def)
  then have "put_finish h' (w\<lparr>ub_list := u'\<rparr>) p = Inr (0, h', w\<lparr>ub_list := u'\<rparr>, p)" for h'
    using put_finish_far [of "w\<lparr>ub_list := u'\<rparr>" h' p] u(1) by simp
  then show ?thesis
    unfolding u(3) altusWQPut_copy_far [OF far s len a] using u(2) by auto
qed

text \<open>
  C12.  The comparison \<^verbatim>\<open>writelen <= 0\<close> is on an unsigned number, and the offset in the node is kept in 16
  bits.  A packet that is new, fits the window and the block list, and starts past the end of the node being filled is
  therefore not moved to a later node.  If its place, counted from the start of that node, is modulo 65536 outside the node
  or runs out of it, the copy writes outside the array; otherwise it overwrites bytes of the node being filled, which may
  be readable already, and the packet is recorded as stored with result 0.
\<close>

theorem altusWQPut_far_packet:
  assumes inv: "wq_inv h w p ns ps k v"
    and far: "4096 < v + soff (lastSeq w) seq" "v + soff (lastSeq w) seq + unat len < 2147483648"
    and len: "0 < unat len" "unat len \<le> length data" and win: "\<not> window_full w seq len"
    and new: "ub_cover (lastSeq w) (ub_list w) \<inter> pkt_range (lastSeq w) seq len = {}"
      "ub_adjacent seq len (ub_list w) \<or> ub_count (ub_list w) \<noteq> 8"
  shows "if (v + soff (lastSeq w) seq) mod 65536 + unat len \<le> 4096
    then \<exists>u'. altusWQPut h w p seq len data =
        Inr (0, h\<lparr>node := (node h)(safe_tail w := (node h (safe_tail w))\<lparr>ndata :=
          blit (ndata (node h (safe_tail w))) ((v + soff (lastSeq w) seq) mod 65536) (take (unat len) data)\<rparr>)\<rparr>, w\<lparr>ub_list := u'\<rparr>, p)
      \<and> ub_cover (lastSeq w) u' = ub_cover (lastSeq w) (ub_list w) \<union> pkt_range (lastSeq w) seq len
    else altusWQPut h w p seq len data = Inl OutOfBounds"
  using assms by (rule altusWQPut_far)

text \<open>
  C13.  The result of a put, for a well-formed window, memory for the nodes and every packet that is not empty
  and not half the sequence space or more ahead: -2 exactly if it is behind the expected byte; else -3 exactly if the nodes up to its end exceed the
  window; else -5 exactly if it overlaps stored early bytes; else -4 exactly if it touches no stored block and all eight
  slots are used, and in these cases nothing is changed; else 0 if it starts in the node being filled, or lands in it
  modulo 65536, and a write outside the node otherwise.  The documented -1 never occurs, and -2 never means an overlap.
\<close>

theorem altusWQPut_refuses:
  assumes inv: "wq_inv h w p ns ps k v" and d: "d = soff (lastSeq w) seq"
    and half: "2147483648 < d \<or> v + d + unat len < 2147483648"
    and len: "0 < unat len" "unat len \<le> length data" "unat len < 2147479552" and safe: "unat (safe_len w) < 2147483648"
    and room: "v + d \<le> 4096 \<Longrightarrow> room h ((v + d + unat len) div 4096)"
  shows "if 2147483648 < d then altusWQPut h w p seq len data = Inr (-2, h, w, p)
   else if unat (windowSize w) < unat (safe_len w) + (d + unat len) div 4096 + 1 then altusWQPut h w p seq len data = Inr (-3, h, w, p)
   else if ub_cover (lastSeq w) (ub_list w) \<inter> pkt_range (lastSeq w) seq len \<noteq> {} then altusWQPut h w p seq len data = Inr (-5, h, w, p)
   else if \<not> ub_adjacent seq len (ub_list w) \<and> ub_count (ub_list w) = 8 then altusWQPut h w p seq len data = Inr (-4, h, w, p)
   else if v + d \<le> 4096 \<or> (v + d) mod 65536 + unat len \<le> 4096 then \<exists>q. altusWQPut h w p seq len data = Inr (0, q)
   else altusWQPut h w p seq len data = Inl OutOfBounds"
proof (cases "2147483648 < d")
  case True
  then show ?thesis using altusWQPut_early_exit(1) sgt0_old [of "lastSeq w" seq] d by simp
next
  case False
  then have b: "v + d + unat len < 2147483648" using half by simp
  then have pk: "pkt_ok (lastSeq w) seq len" using len d by (simp add: pkt_ok_def)
  have full: "window_full w seq len \<longleftrightarrow> unat (windowSize w) < unat (safe_len w) + (d + unat len) div 4096 + 1"
    using window_full_nat [of w seq len] b safe d by simp
  show ?thesis
  proof (cases "window_full w seq len")
    case True
    then show ?thesis
      using False full altusWQPut_early_exit(2) put_not_old [of "lastSeq w" seq] b d by simp
  next
    case w: False
    show ?thesis
    proof (cases "v + d \<le> 4096")
      case True
      then have "put_ok w v seq len" using w len d by (simp add: put_ok_def)
      from altusWQPut_result [OF inv this len(2)] room [OF True] show ?thesis
        using False w full True d by (auto simp: put_post_def)
    next
      case far: False
      then show ?thesis
        using False w full d altusWQPut_check [OF inv pk le0 _ w, of data] altusWQPut_far [OF inv _ _ len(1,2) w] b
        by (auto split: if_splits)
    qed
  qed
qed

end
