(* ===== verification/WQ_Pop.thy ===== *)
theory WQ_Pop
  imports WQ_Put
begin

text \<open>
  Reading from the window: \<^verbatim>\<open>altusWQPop\<close> takes bytes off the front of the stream and recycles the nodes
  it empties, \<^verbatim>\<open>altusWQPeek\<close> finds the node that holds a sequence number.
\<close>

section \<open>Recycling the head node\<close>

lemma byte_at_Cons:
  "same_data h h' UNIV \<Longrightarrow> byte_at h' ns x = byte_at h (n # ns) (x + 4096)"
  by (simp add: byte_at_def same_data_def div_add_self2)

lemma wq_inv_pop_node:
  assumes inv: "wq_inv h w p (n # ns) ps (Suc k) v"
  shows "\<exists>h' w' p'. altusWQPopNode h (w\<lparr>headDataOffset := x\<rparr>) p = Inr (0, h', w', p') \<and>
     wq_inv h' (w'\<lparr>headDataOffset := 0\<rparr>) p' ns (ps @ [n]) k v \<and>
     wq_stream h' (w'\<lparr>headDataOffset := 0\<rparr>) ns k v =
       (wq_stream h w (n # ns) (Suc k) v)\<lparr>ready := drop (4096 - unat (headDataOffset w)) (ready (wq_stream h w (n # ns) (Suc k) v))\<rparr> \<and>
     head w' = to_tail (node h n) \<and> same_data h h' UNIV"
proof -
  have ch: "wq_chain h (w\<lparr>headDataOffset := x\<rparr>) p (n # ns) ps (Suc k)"
    using inv by (simp add: wq_inv_def wq_chain_def)
  obtain h' w' p' where P: "altusWQPopNode h (w\<lparr>headDataOffset := x\<rparr>) p = Inr (0, h', w', p')"
    "wq_chain h' w' p' ns (ps @ [n]) k" "same_data h h' UNIV"
    "w' = w\<lparr>headDataOffset := x, head := hd ns, safe_len := safe_len w - 1\<rparr>"
    using altusWQPopNode_correct [OF ch] by auto
  have b: "byte_at h' ns y = byte_at h (n # ns) (y + 4096)" for y using byte_at_Cons [OF P(3)] .
  have ns: "ns \<noteq> []" using wq_chainD(9) [OF ch] by auto
  have hd: "hd ns = to_tail (node h n)"
    using linked_next [OF wq_chainD(1) [OF ch], of 0] ns by (simp add: hd_conv_nth)
  have "wq_inv h' (w'\<lparr>headDataOffset := 0\<rparr>) p' ns (ps @ [n]) k v"
    using inv P(2,3) unfolding P(4) by (auto simp: wq_inv_def wq_chain_def same_data_def)
  moreover have off: "unat (headDataOffset w) < 4096" using inv by (simp add: wq_inv_def)
  have "map (byte_at h' ns) [0..<4096 * k + v] = map (byte_at h (n # ns)) [4096..<4096 * Suc k + v]"
    by (rule nth_equalityI) (auto simp: b add.commute)
  then have "wq_stream h' (w'\<lparr>headDataOffset := 0\<rparr>) ns k v =
       (wq_stream h w (n # ns) (Suc k) v)\<lparr>ready := drop (4096 - unat (headDataOffset w)) (ready (wq_stream h w (n # ns) (Suc k) v))\<rparr>"
    using off unfolding P(4) by (auto simp: wq_stream_def drop_map b fun_eq_iff ac_simps)
  ultimately show ?thesis using P(1,3,4) hd by auto
qed

section \<open>The reading loop\<close>

definition fill :: "nat \<Rightarrow> u8 list \<Rightarrow> u8 list \<Rightarrow> u8 list" where
  "fill a bs d = take a d @ bs @ drop (a + length bs) d"

text \<open>What is left when \<open>a\<close> bytes are already in the buffer and \<open>l\<close> more are asked for.\<close>

definition pop_post ::
  "heap \<Rightarrow> addr set \<Rightarrow> stream \<Rightarrow> nat \<Rightarrow> nat \<Rightarrow> u8 list option \<Rightarrow> (u32 \<times> u8 list option \<times> wqs) res \<Rightarrow> bool" where
  "pop_post h A s a l dest res \<longleftrightarrow>
     (\<exists>h' w' p' ns' ps' k' v' n. n = min l (length (ready s)) \<and>
        res = Inr (word_of_nat (a + n), map_option (fill a (take n (ready s))) dest, h', w', p') \<and>
        wq_inv h' w' p' ns' ps' k' v' \<and> wq_stream h' w' ns' k' v' = s\<lparr>ready := drop n (ready s)\<rparr> \<and>
        set ns' \<union> set ps' = A \<and> same_data h h' UNIV)"

lemma fill_fill: "length d \<ge> a + length bs + length cs \<Longrightarrow> fill (a + length bs) cs (fill a bs d) = fill a (bs @ cs) d"
  by (cases bs) (auto simp: fill_def min_def ac_simps)

lemma length_fill [simp]: "a + length bs \<le> length d \<Longrightarrow> length (fill a bs d) = length d"
  by (simp add: fill_def)

lemma fill_Nil [simp]: "fill a [] d = d"
  by (simp add: fill_def)

lemma pop_post_0: "wq_inv h w p ns ps k v \<Longrightarrow>
   pop_post h (set ns \<union> set ps) (wq_stream h w ns k v) a 0 dest (Inr (word_of_nat a, dest, h, w, p))"
  unfolding pop_post_def
  by (intro exI [of _ h] exI [of _ w] exI [of _ p] exI [of _ ns] exI [of _ ps] exI [of _ k] exI [of _ v] exI [of _ 0])
     (simp add: option.map_ident_strong)

lemma pop_post_empty: "wq_inv h w p ns ps k v \<Longrightarrow> ready (wq_stream h w ns k v) = [] \<Longrightarrow>
   pop_post h (set ns \<union> set ps) (wq_stream h w ns k v) a l dest (Inr (word_of_nat a, dest, h, w, p))"
  unfolding pop_post_def
  by (intro exI [of _ h] exI [of _ w] exI [of _ p] exI [of _ ns] exI [of _ ps] exI [of _ k] exI [of _ v] exI [of _ 0])
     (simp add: option.map_ident_strong)

text \<open>Reading \<open>m\<close> bytes and then the rest.\<close>

lemma pop_post_step:
  assumes "pop_post h1 A (s\<lparr>ready := drop m (ready s)\<rparr>) (a + m) (l - m) (map_option (fill a (take m (ready s))) dest) res"
    and "m \<le> l" "m \<le> length (ready s)" "same_data h h1 UNIV" "\<And>d. dest = Some d \<Longrightarrow> a + l \<le> length d"
  shows "pop_post h A s a l dest res"
proof -
  let ?r = "ready s" and ?n = "min (l - m) (length (drop m (ready s)))"
  have n: "m + ?n = min l (length ?r)" using assms(2,3) by auto
  have t: "take (m + ?n) ?r = take m ?r @ take ?n (drop m ?r)" by (simp add: take_add)
  have f: "map_option (fill (a + m) (take ?n (drop m ?r))) (map_option (fill a (take m ?r)) dest) =
      map_option (fill a (take (m + ?n) ?r)) dest"
  proof (cases dest)
    case (Some d)
    have "a + m + ?n \<le> length d" using assms(5) [OF Some] n by linarith
    then show ?thesis unfolding Some t using assms(3) fill_fill [of a "take m ?r" "take ?n (drop m ?r)" d] by simp
  qed simp
  have d: "drop ?n (drop m ?r) = drop (m + ?n) ?r" by (simp add: add.commute)
  obtain h' w' p' ns' ps' k' v' where R:
    "res = Inr (word_of_nat (a + m + ?n), map_option (fill (a + m) (take ?n (drop m ?r))) (map_option (fill a (take m ?r)) dest), h', w', p')"
    "wq_inv h' w' p' ns' ps' k' v'" "wq_stream h' w' ns' k' v' = s\<lparr>ready := drop ?n (drop m ?r)\<rparr>"
    "set ns' \<union> set ps' = A" "same_data h1 h' UNIV"
    using assms(1) unfolding pop_post_def by auto
  have "same_data h h' UNIV" using same_data_trans [OF assms(4) R(5)] by simp
  then show ?thesis
    unfolding pop_post_def using R [unfolded d f add.assoc [of a m] n] by blast
qed

text \<open>The head node of a well-formed window: how much of it can be read, and which bytes.\<close>

lemma wq_head:
  assumes inv: "wq_inv h w p ns ps k v"
  shows "deref h (head w) = Inr (node h (head w))" "ns \<noteq> []" "head w = ns ! 0"
    "unat (validBlockCount (node h (head w))) = (if k = 0 then v else 4096)"
    "unat (headDataOffset w) \<le> (if k = 0 then v else 4096)"
    "length (ready (wq_stream h w ns k v)) = 4096 * k + v - unat (headDataOffset w)"
proof -
  have ch: "wq_chain h w p ns ps k" using inv by (simp add: wq_inv_def)
  show ne: "ns \<noteq> []" using linked_nonempty [OF wq_chainD(1) [OF ch]] .
  then show hd: "head w = ns ! 0" using wq_chainD(7) [OF ch] by (simp add: hd_conv_nth)
  show "deref h (head w) = Inr (node h (head w))"
    using linked_live [OF wq_chainD(1) [OF ch], of "ns ! 0"] ne hd by (simp add: deref_def)
  show "unat (validBlockCount (node h (head w))) = (if k = 0 then v else 4096)"
    "unat (headDataOffset w) \<le> (if k = 0 then v else 4096)"
    using inv by (auto simp: wq_inv_def hd)
qed (simp add: wq_stream_def)

lemma node_bytes_ready:
  assumes "wq_inv h w p ns ps k v" "unat (headDataOffset w) + m \<le> (if k = 0 then v else 4096)"
  shows "map (ndata (node h (head w))) [unat (headDataOffset w)..<unat (headDataOffset w) + m] =
         take m (ready (wq_stream h w ns k v))" "m \<le> length (ready (wq_stream h w ns k v))"
proof -
  let ?o = "unat (headDataOffset w)"
  have ov: "?o + m \<le> 4096" "?o + m \<le> 4096 * k + v" "head w = ns ! 0"
    using assms wq_head(3) [OF assms(1)] by (auto simp: wq_inv_def split: if_splits)
  have "ndata (node h (ns ! 0)) (?o + i) = byte_at h ns (?o + i)" if "i < m" for i
    using that ov(1) by (simp add: byte_at_def)
  then show "map (ndata (node h (head w))) [?o..<?o + m] = take m (ready (wq_stream h w ns k v))"
    using ov by (intro nth_equalityI) (auto simp: wq_stream_def)
  show "m \<le> length (ready (wq_stream h w ns k v))" using ov(2) by (simp add: wq_stream_def)
qed

text \<open>The words of one turn.\<close>

lemma pop_turn_words:
  assumes "unat (vb :: u32) = x" "unat off \<le> x" "x \<le> 4096" "l < 2147483648"
  shows "(if sint (word_of_nat l :: u32) < sint (vb - off) then word_of_nat l else vb - off) =
           (word_of_nat (min l (x - unat off)) :: u32)"
proof -
  have "unat (vb - off) = x - unat off" using assms by (simp add: unat_minus_cases)
  then have d: "vb - off = word_of_nat (x - unat off)" by (metis of_nat_unat ucast_id)
  have "sint (word_of_nat l :: u32) = int l" "sint (word_of_nat (x - unat off) :: u32) = int (x - unat off)"
    using assms by (auto intro!: sint_word_of_nat_u32 simp del: of_nat_diff)
  then show ?thesis unfolding d by (cases "l < x - unat off") (simp_all only: of_nat_less_iff min_def if_True if_False order.strict_implies_order, auto)
qed

definition copy_out :: "u8 list option \<Rightarrow> nat \<Rightarrow> (nat \<Rightarrow> u8) \<Rightarrow> nat \<Rightarrow> nat \<Rightarrow> u8 list option res" where
  "copy_out dest a d off m =
     (case dest of None \<Rightarrow> Inr None | Some b \<Rightarrow> rbind (memcpy_buf b a d off m) (\<lambda>b. Inr (Some b)))"

lemma copy_out_ok:
  assumes "wq_inv h w p ns ps k v" "unat (headDataOffset w) + m \<le> (if k = 0 then v else 4096)"
    and "\<And>d. dest = Some d \<Longrightarrow> a + m \<le> length d"
  shows "copy_out dest a (ndata (node h (head w))) (unat (headDataOffset w)) m =
         Inr (map_option (fill a (take m (ready (wq_stream h w ns k v)))) dest)"
proof (cases dest)
  case (Some d)
  have "unat (headDataOffset w) + m \<le> 4096" using assms(1,2) by (auto simp: wq_inv_def split: if_splits)
  then show ?thesis
    using Some assms(3) [OF Some] node_bytes_ready [OF assms(1,2)]
    by (simp add: copy_out_def memcpy_buf_def fill_def min_def)
qed (simp add: copy_out_def)

lemma altusWQPop_loop_turn:
  fixes l m a :: nat
  assumes inv: "wq_inv h w p ns ps k v" and l: "0 < l" "a + l < 2147483648"
    and dest: "\<And>d. dest = Some d \<Longrightarrow> a + l \<le> length d"
    and m: "m = min l ((if k = 0 then v else 4096) - unat (headDataOffset w))"
  defines "s \<equiv> wq_stream h w ns k v"
  defines "w1 \<equiv> w\<lparr>headDataOffset := headDataOffset w + word_of_nat m\<rparr>"
  defines "dest1 \<equiv> map_option (fill a (take m (ready s))) dest"
  defines "c \<equiv> to_tail (node h (head w))"
  shows "altusWQPop_loop (word_of_nat (a + l)) h w p dest (head w) (word_of_nat l) =
     (if m = 0 then Inr (word_of_nat a, dest, h, w, p)
      else if unat (headDataOffset w) + m = 4096 then
        rbind (altusWQPopNode h w1 p) (\<lambda>(_, h, w, p).
        rbind (deref h c) (\<lambda>nd.
        if 0 = validBlockCount nd then Inr (word_of_nat (a + m), dest1, h, w\<lparr>headDataOffset := 0\<rparr>, p)
        else altusWQPop_loop (word_of_nat (a + l)) h (w\<lparr>headDataOffset := 0\<rparr>) p dest1 c (word_of_nat (l - m))))
      else if unat (headDataOffset w) + m = (if k = 0 then v else 4096) then
        rbind (altusWQPopNode h w1 p) (\<lambda>(_, h, w, p). Inr (word_of_nat (a + m), dest1, h, w, p))
      else altusWQPop_loop (word_of_nat (a + l)) h w1 p dest1 (head w) (word_of_nat (l - m)))"
proof -
  let ?x = "if k = 0 then v else 4096" and ?o = "unat (headDataOffset w)"
  note H = wq_head [OF inv]
  have x: "?x \<le> 4096" using inv by (auto simp: wq_inv_def)
  have wl: "(if sint (word_of_nat l :: u32) < sint (validBlockCount (node h (head w)) - headDataOffset w) then word_of_nat l
      else validBlockCount (node h (head w)) - headDataOffset w) = word_of_nat m"
    unfolding m using l x by (intro pop_turn_words [OF H(4,5)]) auto
  have mb: "m \<le> l" "?o + m \<le> ?x" "?o + m \<le> 4096" using m H(5) x by auto
  have um: "unat (word_of_nat m :: u32) = m" using mb l by (intro unat_word_of_nat_u32) simp
  have m0: "word_of_nat m = (0 :: u32) \<longleftrightarrow> m = 0" using mb l by (intro word_of_nat_u32_0) simp
  have l0: "word_of_nat l \<noteq> (0 :: u32)" using l by (simp add: word_of_nat_u32_0)
  have al: "word_of_nat (a + l) - word_of_nat l = (word_of_nat a :: u32)"
    "word_of_nat l - word_of_nat m = (word_of_nat (l - m) :: u32)"
    "word_of_nat (a + l) - word_of_nat (l - m) = (word_of_nat (a + m) :: u32)"
    using mb by (simp_all add: of_nat_diff)
  have ua: "unat (word_of_nat a :: u32) = a" using l by (intro unat_word_of_nat_u32) simp
  have uo: "unat (headDataOffset w + word_of_nat m) = ?o + m" using um mb by (simp add: unat_plus_cases)
  have o4: "headDataOffset w + word_of_nat m = 4096 \<longleftrightarrow> ?o + m = 4096"
    using word_unat_eq_iff [of "headDataOffset w + word_of_nat m" 4096] uo by simp
  have ov: "headDataOffset w + word_of_nat m = validBlockCount (node h (head w)) \<longleftrightarrow> ?o + m = ?x"
    using word_unat_eq_iff [of "headDataOffset w + word_of_nat m" "validBlockCount (node h (head w))"] uo H(4) by simp
  have co: "copy_out dest a (ndata (node h (head w))) ?o m = Inr dest1"
    unfolding dest1_def s_def using dest mb by (intro copy_out_ok [OF inv]) auto
  note unf = altusWQPop_loop.simps [of "word_of_nat (a + l)" h w p dest "head w" "word_of_nat l",
     unfolded H(1) rbind_simps Let_def wl]
  note unf2 = unf [unfolded al ua um, folded copy_out_def, unfolded co rbind_simps]
  show ?thesis
    unfolding unf2 w1_def c_def using l0 m0 o4 ov
    by (simp add: c_def)
qed

lemma wq_inv_advance:
  assumes "wq_inv h w p ns ps k v" "unat (headDataOffset w) + m \<le> (if k = 0 then v else 4096)"
    "unat (headDataOffset w) + m < 4096"
    and "w' = w\<lparr>headDataOffset := headDataOffset w + word_of_nat m, safe_len := z\<rparr>"
  shows "wq_inv h w' p ns ps k v"
    "wq_stream h w' ns k v = (wq_stream h w ns k v)\<lparr>ready := drop m (ready (wq_stream h w ns k v))\<rparr>"
proof -
  have "unat (word_of_nat m :: u32) = m" using assms(3) by (intro unat_word_of_nat_u32) simp
  then have o: "unat (headDataOffset w + word_of_nat m) = unat (headDataOffset w) + m"
    using assms(3) by (simp add: unat_plus_cases)
  have "wq_chain h w' p ns ps k" using assms(1,4) by (simp add: wq_inv_def wq_chain_def)
  then show "wq_inv h w' p ns ps k v" using assms o by (auto simp: wq_inv_def split: if_splits)
  show "wq_stream h w' ns k v = (wq_stream h w ns k v)\<lparr>ready := drop m (ready (wq_stream h w ns k v))\<rparr>"
    using assms(4) o by (simp add: wq_stream_def drop_map)
qed

lemma altusWQPop_loop_correct:
  assumes "wq_inv h w p ns ps k v" "a + l < 2147483648" "\<And>d. dest = Some d \<Longrightarrow> a + l \<le> length d"
  shows "pop_post h (set ns \<union> set ps) (wq_stream h w ns k v) a l dest
           (altusWQPop_loop (word_of_nat (a + l)) h w p dest (head w) (word_of_nat l))"
  using assms
proof (induction l arbitrary: h w p ns ps k a dest rule: less_induct)
  case (less l)
  let ?o = "unat (headDataOffset w)" and ?x = "if k = 0 then v else 4096" and ?s = "wq_stream h w ns k v"
  define m where "m = min l (?x - ?o)"
  note inv = less.prems(1)
  have b: "?o \<le> ?x" "?o < 4096" "v < 4096" "m \<le> l" "?o + m \<le> ?x"
    using wq_head(5) [OF inv] inv by (auto simp: wq_inv_def m_def)
  have x4: "?x \<le> 4096" and ml: "?o + m < ?x \<Longrightarrow> m = l" using b(1,3) by (auto simp: m_def)
  have mr: "m \<le> length (ready ?s)" by (rule node_bytes_ready(2) [OF inv b(5)])
  let ?d1 = "map_option (fill a (take m (ready ?s))) dest"
  have len1: "\<And>d. ?d1 = Some d \<Longrightarrow> a + m + (l - m) \<le> length d" using less.prems(3) mr b(4) by force
  show ?case
  proof (cases "l = 0")
    case True
    then show ?thesis using pop_post_0 [OF inv] by (subst altusWQPop_loop.simps) simp
  next
    case False
    note turn = altusWQPop_loop_turn [OF inv _ less.prems(2,3) m_def]
    have step: "pop_post h A ?s a l dest res"
      if "pop_post h1 A (?s\<lparr>ready := drop m (ready ?s)\<rparr>) (a + m) (l - m) ?d1 res" "same_data h h1 UNIV" for h1 A res
      by (rule pop_post_step [OF that(1) b(4) mr that(2) less.prems(3)])
    consider (none) "m = 0" | (whole) "0 < m" "?o + m = 4096" | (tail) "0 < m" "?o + m = ?x" "?o + m < 4096"
      | (part) "0 < m" "?o + m < ?x" "?o + m < 4096" "m = l"
      using b(5) x4 ml by linarith
    then show ?thesis
    proof cases
      case none
      then have "ready ?s = []" using False b by (auto simp: m_def wq_stream_def split: if_splits)
      then show ?thesis using none turn False pop_post_empty [OF inv] by simp
    next
      case whole
      then have "k \<noteq> 0" using b(3,5) by (auto split: if_splits)
      then obtain k' n ns' where K: "k = Suc k'" "ns = n # ns'" using wq_head(2) [OF inv] by (metis not0_implies_Suc neq_Nil_conv)
      note inv' = inv [unfolded K]
      have c: "to_tail (node h (head w)) = to_tail (node h n)" using wq_head(3) [OF inv'] by simp
      let ?w = "w\<lparr>headDataOffset := headDataOffset w + word_of_nat m\<rparr>"
      obtain h1 w1 p1 where P: "altusWQPopNode h ?w p = Inr (0, h1, w1, p1)"
        "wq_inv h1 (w1\<lparr>headDataOffset := 0\<rparr>) p1 ns' (ps @ [n]) k' v"
        "wq_stream h1 (w1\<lparr>headDataOffset := 0\<rparr>) ns' k' v = ?s\<lparr>ready := drop (4096 - ?o) (ready ?s)\<rparr>"
        "head w1 = to_tail (node h n)" "same_data h h1 UNIV"
        using wq_inv_pop_node [OF inv', of "headDataOffset w + word_of_nat m"] unfolding K by metis
      let ?w1 = "w1\<lparr>headDataOffset := 0\<rparr>"
      have m4: "4096 - ?o = m" using whole(2) by simp
      note H = wq_head [OF P(2)]
      have A: "set ns \<union> set ps = set ns' \<union> set (ps @ [n])" by (auto simp: K)
      have r: "altusWQPop_loop (word_of_nat (a + l)) h w p dest (head w) (word_of_nat l) =
         (if 0 = validBlockCount (node h1 (head ?w1)) then Inr (word_of_nat (a + m), ?d1, h1, ?w1, p1)
          else altusWQPop_loop (word_of_nat (a + m + (l - m))) h1 ?w1 p1 ?d1 (head ?w1) (word_of_nat (l - m)))"
        using turn False whole P(1,4) H(1) b(4) unfolding c by simp
      have "pop_post h1 (set ns' \<union> set (ps @ [n])) (wq_stream h1 ?w1 ns' k' v) (a + m) (l - m) ?d1
          (altusWQPop_loop (word_of_nat (a + l)) h w p dest (head w) (word_of_nat l))"
      proof (cases "validBlockCount (node h1 (head ?w1)) = 0")
        case True
        then have "4096 * k' + v = 0" using H(4) by (auto split: if_splits)
        then have "ready (wq_stream h1 ?w1 ns' k' v) = []" by (simp add: wq_stream_def)
        then show ?thesis unfolding r using True pop_post_empty [OF P(2)] by (simp only: if_True simp_thms)
      next
        case False
        then show ?thesis unfolding r
          using less.IH [OF _ P(2), of "l - m" "a + m" ?d1] whole(1) b(4) len1 less.prems(2) by auto
      qed
      then show ?thesis unfolding A P(3) m4 using P(5) by (intro step [of h1])
    next
      case tail
      then have k: "k = 0" by (auto split: if_splits)
      let ?w = "w\<lparr>headDataOffset := headDataOffset w + word_of_nat m, safe_len := 1\<rparr>"
      have adv: "wq_inv h ?w p ns ps k v" "wq_stream h ?w ns k v = ?s\<lparr>ready := drop m (ready ?s)\<rparr>"
        using wq_inv_advance [OF inv b(5) tail(3), of ?w 1] by simp_all
      have "altusWQPopNode h (w\<lparr>headDataOffset := headDataOffset w + word_of_nat m\<rparr>) p = Inr (-1, h, ?w, p)"
        by (subst altusWQPopNode_single [where ns = ns and ps = ps]) (use inv k in \<open>auto simp: wq_inv_def wq_chain_def\<close>)
      then have "altusWQPop_loop (word_of_nat (a + l)) h w p dest (head w) (word_of_nat l) = Inr (word_of_nat (a + m), ?d1, h, ?w, p)"
        using turn False tail by simp
      moreover have "ready (?s\<lparr>ready := drop m (ready ?s)\<rparr>) = []" using tail(2) k by (simp add: wq_stream_def)
      ultimately show ?thesis
        by (simp only:) (intro step [of h] pop_post_empty [OF adv(1), unfolded adv(2)] same_data_refl)
    next
      case part
      let ?w = "w\<lparr>headDataOffset := headDataOffset w + word_of_nat m\<rparr>"
      have adv: "wq_inv h ?w p ns ps k v" "wq_stream h ?w ns k v = ?s\<lparr>ready := drop m (ready ?s)\<rparr>"
        using wq_inv_advance [OF inv b(5) part(3), of ?w "safe_len w"] by simp_all
      have "pop_post h (set ns \<union> set ps) (wq_stream h ?w ns k v) (a + m) (l - m) ?d1
           (altusWQPop_loop (word_of_nat (a + m + (l - m))) h ?w p ?d1 (head ?w) (word_of_nat (l - m)))"
        by (rule less.IH [OF _ adv(1)]) (use part len1 less.prems(2) in auto)
      then show ?thesis using turn False part unfolding adv(2) by (intro step [of h]) auto
    qed
  qed
qed

lemma altusWQPop_result:
  assumes "wq_inv h w p ns ps k v" "unat len < 2147483648" "\<And>d. dest = Some d \<Longrightarrow> unat len \<le> length d"
  shows "pop_post h (set ns \<union> set ps) (wq_stream h w ns k v) 0 (unat len) dest (altusWQPop h w p len dest)"
  using altusWQPop_loop_correct [of h w p ns ps k v 0 "unat len" dest] assms by (simp add: altusWQPop_def)

end
