(* ===== verification/WQ_Stream.thy ===== *)
theory WQ_Stream
  imports WQ_Pop
begin

text \<open>
  The window as a reordering buffer.  The locale states what a receiver relies on: packets join the
  stream, reads take bytes off its front.  Its theorem is that whatever the order of arrival, the bytes
  read are the sender's bytes in the sender's order.  The interpretation shows that the windowed queue
  of \<^verbatim>\<open>windowedqueue.c\<close> meets the contract.
\<close>

section \<open>The contract\<close>

inductive recv_run ::
  "('q \<Rightarrow> stream \<Rightarrow> bool) \<Rightarrow> ('q \<Rightarrow> nat \<Rightarrow> u8 list \<Rightarrow> 'q \<Rightarrow> bool) \<Rightarrow> ('q \<Rightarrow> u8 list \<Rightarrow> 'q \<Rightarrow> bool) \<Rightarrow>
     (nat \<Rightarrow> u8) \<Rightarrow> u8 list \<Rightarrow> 'q \<Rightarrow> bool"
  for rel put pop src where
  start: "rel q (empty_stream b) \<Longrightarrow> recv_run rel put pop src [] q"
| packet: "recv_run rel put pop src out q \<Longrightarrow> rel q s \<Longrightarrow> put q d xs q' \<Longrightarrow>
     (d \<le> 2147483648 \<longrightarrow> (\<forall>i < length xs. xs ! i = src (length out + length (ready s) + d + i))) \<Longrightarrow>
     recv_run rel put pop src out q'"
| read: "recv_run rel put pop src out q \<Longrightarrow> pop q ys q' \<Longrightarrow> recv_run rel put pop src (out @ ys) q'"

locale reorder_buffer =
  fixes rel :: "'q \<Rightarrow> stream \<Rightarrow> bool"
    and put :: "'q \<Rightarrow> nat \<Rightarrow> u8 list \<Rightarrow> 'q \<Rightarrow> bool"
    and pop :: "'q \<Rightarrow> u8 list \<Rightarrow> 'q \<Rightarrow> bool"
  assumes rel_unique: "rel q s \<Longrightarrow> rel q s' \<Longrightarrow> s' = s"
    and gap_exists: "rel q s \<Longrightarrow> \<exists>n. \<forall>x \<ge> n. early s x = None"
    and put_law: "rel q s \<Longrightarrow> put q d xs q' \<Longrightarrow> rel q' s \<or> d \<le> 2147483648 \<and> rel q' (stream_put s d xs)"
    and pop_law: "rel q s \<Longrightarrow> pop q ys q' \<Longrightarrow>
                    \<exists>n. ys = take n (ready s) \<and> rel q' (s\<lparr>ready := drop n (ready s)\<rparr>)"
begin

definition faithful :: "(nat \<Rightarrow> u8) \<Rightarrow> u8 list \<Rightarrow> stream \<Rightarrow> bool" where
  "faithful src out s \<longleftrightarrow>
     out @ ready s = map src [0..<length out + length (ready s)] \<and>
     (\<forall>x b. early s x = Some b \<longrightarrow> b = src (length out + length (ready s) + x))"

lemma first_gap_below:
  assumes "\<exists>n. \<forall>x \<ge> n. e x = None" "x < first_gap e"
  shows "\<exists>b. e x = Some b"
  using not_less_Least [OF assms(2) [unfolded first_gap_def]] by auto

lemma faithful_put:
  assumes f: "faithful src out s" and g: "\<exists>n. \<forall>x \<ge> n. early s x = None"
    and xs: "\<forall>i < length xs. xs ! i = src (length out + length (ready s) + d + i)"
  shows "faithful src out (stream_put s d xs)"
proof -
  let ?b = "length out + length (ready s)"
  define e where "e = (\<lambda>x. if d \<le> x \<and> x < d + length xs then Some (xs ! (x - d)) else early s x)"
  have ex: "b = src (?b + x)" if "e x = Some b" for x b
    using that f xs by (auto simp: e_def faithful_def add.assoc split: if_splits)
  obtain n where n: "\<forall>x \<ge> n. early s x = None" using g by auto
  have below: "\<exists>b. e x = Some b" if "x < first_gap e" for x
    using that by (intro first_gap_below) (auto simp: e_def n intro!: exI [of _ "n + d + length xs"])
  have "map (the \<circ> e) [0..<first_gap e] = map src [?b..<?b + first_gap e]"
    using below ex by (intro nth_equalityI) force+
  moreover have "stream_put s d xs = \<lparr>ready = ready s @ map (the \<circ> e) [0..<first_gap e],
     early = (\<lambda>x. e (x + first_gap e)), expect = expect s + word_of_nat (first_gap e)\<rparr>"
    by (simp add: stream_put_def e_def Let_def)
  moreover have "out @ ready s @ map src [?b..<?b + first_gap e] = map src [0..<?b + first_gap e]"
    using f upt_add_eq_append [of 0 ?b "first_gap e"] by (simp add: faithful_def flip: append_assoc)
  moreover have "b = src (?b + first_gap e + x)" if "e (x + first_gap e) = Some b" for x b
    using ex [OF that] by (simp add: ac_simps)
  ultimately show ?thesis unfolding faithful_def by (simp add: add.assoc)
qed

theorem run_faithful:
  assumes "recv_run rel put pop src out q"
  shows "\<exists>s. rel q s \<and> faithful src out s"
  using assms
proof induction
  case (start q b)
  then show ?case by (auto simp: faithful_def empty_stream_def)
next
  case (packet out q s d xs q')
  then have "faithful src out s" using rel_unique by metis
  then show ?case
    using put_law [OF packet.hyps(2,3)] packet.hyps(4) faithful_put [of src out s xs d] gap_exists [OF packet.hyps(2)] by metis
next
  case (read out q ys q')
  then obtain s n where "faithful src out s" "ys = take n (ready s)" "rel q' (s\<lparr>ready := drop n (ready s)\<rparr>)"
    using pop_law by metis
  moreover have "length (out @ take n (ready s)) + length (drop n (ready s)) = length out + length (ready s)" by auto
  ultimately show ?case
    by (intro exI [of _ "s\<lparr>ready := drop n (ready s)\<rparr>"]) (simp add: faithful_def del: length_append length_take length_drop)
qed

corollary run_in_order:
  assumes "recv_run rel put pop src out q"
  shows "out = map src [0..<length out]"
proof -
  obtain s :: stream where "out @ ready s = map src [0..<length out + length (ready s)]"
    using run_faithful [OF assms] unfolding faithful_def by blast
  from arg_cong [OF this, of "take (length out)"] show ?thesis by (simp add: take_map)
qed

end

section \<open>The windowed queue meets it\<close>

definition wq_rel :: "wqs \<Rightarrow> stream \<Rightarrow> bool" where
  "wq_rel q s \<longleftrightarrow> (case q of (h, w, p) \<Rightarrow> \<exists>ns ps k v. wq_inv h w p ns ps k v \<and> s = wq_stream h w ns k v)"

lemma wq_relI: "wq_inv h w p ns ps k v \<Longrightarrow> wq_stream h w ns k v = s \<Longrightarrow> wq_rel (h, w, p) s"
  unfolding wq_rel_def by auto

lemma wq_rel_put_post: "put_post s (Inr (0, q)) \<Longrightarrow> wq_rel q s"
  by (auto simp: put_post_def intro: wq_relI)

lemma linked_nth:
  assumes "linked h ns" "linked h ns'" "hd ns = hd ns'" "i < length ns"
  shows "i < length ns' \<and> ns' ! i = ns ! i"
  using assms(4)
proof (induction i)
  case 0
  then show ?case using assms(1-3) by (simp add: linked_def hd_conv_nth)
next
  case (Suc i)
  then have i: "i < length ns'" "ns' ! i = ns ! i" by auto
  have t: "to_tail (node h (ns ! i)) = ns ! Suc i" "ns ! Suc i \<noteq> 0"
    using assms(1) Suc.prems by (auto simp: linked_def)
  have "Suc i < length ns'"
  proof (rule ccontr)
    assume "\<not> Suc i < length ns'"
    then have "i = length ns' - 1" using i by simp
    then have "ns' ! i = last ns'" using i by (metis last_conv_nth list.size(3) not_less_zero)
    then show False using t i linked_last [OF assms(2)] by simp
  qed
  then show ?case using linked_next [OF assms(2), of i] t i by simp
qed

lemma linked_unique:
  assumes "linked h ns" "linked h ns'" "hd ns = hd ns'"
  shows "ns' = ns"
proof -
  have "length ns' = length ns"
    using linked_nth [OF assms, of "length ns'"] linked_nth [OF assms(2,1) assms(3) [symmetric], of "length ns"]
    by (metis less_irrefl linorder_neqE_nat)
  then show ?thesis using linked_nth [OF assms] by (intro nth_equalityI) auto
qed

lemma wq_rel_unique: "wq_rel q s \<Longrightarrow> wq_rel q s' \<Longrightarrow> s' = s"
proof -
  assume a: "wq_rel q s" "wq_rel q s'"
  obtain h w p where q: "q = (h, w, p)" by (cases q)
  from a(1) obtain ns ps k v where I: "wq_inv h w p ns ps k v" "s = wq_stream h w ns k v"
    unfolding wq_rel_def q by auto
  from a(2) obtain ns' ps' k' v' where I': "wq_inv h w p ns' ps' k' v'" "s' = wq_stream h w ns' k' v'"
    unfolding wq_rel_def q by auto
  have ch: "wq_chain h w p ns ps k" "wq_chain h w p ns' ps' k'" using I I' by (auto simp: wq_inv_def)
  have "hd ns = hd ns'" using wq_chainD(7) [OF ch(1)] wq_chainD(7) [OF ch(2)] by simp
  then have n: "ns' = ns" by (rule linked_unique [OF wq_chainD(1) [OF ch(1)] wq_chainD(1) [OF ch(2)]])
  have "ns ! k' = ns ! k" "k' < length ns" "k < length ns"
    using wq_chainD(9,10) [OF ch(1)] wq_chainD(9,10) [OF ch(2)] n by simp_all
  then have "k' = k" using linked_distinct [OF wq_chainD(1) [OF ch(1)]] by (simp add: nth_eq_iff_index_eq)
  moreover from this have "v' = v" using I(1) I'(1) n by (simp add: wq_inv_def)
  ultimately show ?thesis using I(2) I'(2) n by simp
qed

text \<open>
  A completed put of a packet at distance \<open>d\<close> from the expected byte.  The packet is not empty and either behind the expected
  byte or within half the sequence space.  Two things are asked of it: that there is memory for the nodes it needs, and that
  it is not one of the packets past the node being filled that the 16-bit offset of the code maps back into that node,
  which are recorded at a wrong place (\<open>altusWQPut_far_packet\<close>).  Then one read into a buffer.
\<close>

definition maps_back :: "nat \<Rightarrow> nat \<Rightarrow> bool" where
  "maps_back x n \<longleftrightarrow> 4096 < x \<and> x mod 65536 + n \<le> 4096"

definition wq_put_step :: "wqs \<Rightarrow> nat \<Rightarrow> u8 list \<Rightarrow> wqs \<Rightarrow> bool" where
  "wq_put_step q d xs q' \<longleftrightarrow>
     (case q of (h, w, p) \<Rightarrow> let v = unat (validBlockCount (node h (safe_tail w))) in
        \<exists>c seq. d = soff (lastSeq w) seq \<and> 0 < length xs \<and> length xs < 2147479552 \<and>
        (2147483648 < d \<or> v + d + length xs < 2147483648 \<and> \<not> maps_back (v + d) (length xs) \<and>
           (v + d \<le> 4096 \<longrightarrow> room h ((v + d + length xs) div 4096))) \<and>
        altusWQPut h w p seq (word_of_nat (length xs)) xs = Inr (c, q'))"

definition wq_pop_step :: "wqs \<Rightarrow> u8 list \<Rightarrow> wqs \<Rightarrow> bool" where
  "wq_pop_step q ys q' \<longleftrightarrow>
     (case q of (h, w, p) \<Rightarrow> \<exists>len n buf buf'. unat len < 2147483648 \<and> unat len \<le> length buf \<and>
        altusWQPop h w p len (Some buf) = Inr (n, Some buf', q') \<and> ys = take (unat n) buf')"

lemma wq_put_step_law:
  assumes r: "wq_rel q s" and st: "wq_put_step q d xs q'"
  shows "wq_rel q' s \<or> d \<le> 2147483648 \<and> wq_rel q' (stream_put s d xs)"
proof -
  obtain h w p where q: "q = (h, w, p)" by (cases q)
  obtain ns ps k v where I: "wq_inv h w p ns ps k v" "s = wq_stream h w ns k v"
    using r unfolding wq_rel_def q by auto
  have v: "unat (validBlockCount (node h (safe_tail w))) = v"
    using I(1) wq_chainD(10) by (auto simp: wq_inv_def)
  obtain c seq where S: "d = soff (lastSeq w) seq" "0 < length xs" "length xs < 2147479552"
    "2147483648 < d \<or> v + d + length xs < 2147483648 \<and> \<not> maps_back (v + d) (length xs) \<and>
       (v + d \<le> 4096 \<longrightarrow> room h ((v + d + length xs) div 4096))"
    "altusWQPut h w p seq (word_of_nat (length xs)) xs = Inr (c, q')"
    using st unfolding wq_put_step_def q prod.case Let_def v by auto
  have l: "unat (word_of_nat (length xs) :: u32) = length xs" using S(3) by (intro unat_word_of_nat_u32) simp
  let ?len = "word_of_nat (length xs) :: u32"
  consider (early) "2147483648 < d \<or> window_full w seq ?len" | (near) "\<not> 2147483648 < d" "\<not> window_full w seq ?len" "v + d \<le> 4096"
    | (far) "\<not> 2147483648 < d" "\<not> window_full w seq ?len" "4096 < v + d" by linarith
  then show ?thesis
  proof cases
    case early
    then have "\<exists>c. altusWQPut h w p seq ?len xs = Inr (c, q)"
      using altusWQPut_early_exit [where w = w and seq = seq and len = ?len and h = h and p = p and data = xs] sgt0_old [of "lastSeq w" seq] S(1) unfolding q by auto
    then show ?thesis using S(5) r by auto
  next
    case near
    then have ok: "put_ok w v seq ?len" using S l by (auto simp: put_ok_def)
    have "q' = q \<or> put_post (stream_put s d xs) (Inr (0, q'))"
      using altusWQPut_result [OF I(1) ok, of xs] S l I(2) near unfolding q by (auto split: if_splits simp: put_post_def)
    then show ?thesis using r near wq_rel_put_post [of "stream_put s d xs" q'] by auto
  next
    case far
    then have pk: "pkt_ok (lastSeq w) seq ?len" using S l by (simp add: pkt_ok_def)
    have "q' = q"
      using altusWQPut_check [OF I(1) pk le0 _ far(2), of xs] altusWQPut_far [OF I(1) _ _ _ _ far(2), of xs] far S l unfolding q maps_back_def
      by (auto split: if_splits)
    then show ?thesis using r by simp
  qed
qed

lemma wq_pop_step_law:
  assumes r: "wq_rel q s" and st: "wq_pop_step q ys q'"
  shows "\<exists>n. ys = take n (ready s) \<and> wq_rel q' (s\<lparr>ready := drop n (ready s)\<rparr>)"
proof -
  obtain h w p where q: "q = (h, w, p)" by (cases q)
  obtain ns ps k v where I: "wq_inv h w p ns ps k v" "s = wq_stream h w ns k v"
    using r unfolding wq_rel_def q by auto
  obtain len n buf buf' where S: "unat len < 2147483648" "unat len \<le> length buf"
    "altusWQPop h w p len (Some buf) = Inr (n, Some buf', q')" "ys = take (unat n) buf'"
    using st unfolding wq_pop_step_def q by auto
  let ?m = "min (unat len) (length (ready s))"
  have "n = word_of_nat ?m" "buf' = fill 0 (take ?m (ready s)) buf" "wq_rel q' (s\<lparr>ready := drop ?m (ready s)\<rparr>)"
    using altusWQPop_result [OF I(1) S(1), of "Some buf"] S(2,3) I(2) by (auto simp: pop_post_def intro: wq_relI)
  moreover have "unat (word_of_nat ?m :: u32) = ?m" using S(1) by (intro unat_word_of_nat_u32) simp
  ultimately show ?thesis using S(4) by (intro exI [of _ ?m]) (simp add: fill_def)
qed

lemma wq_rel_gap: "wq_rel q s \<Longrightarrow> \<exists>n. \<forall>x \<ge> n. early s x = None"
proof -
  assume "wq_rel q s"
  then obtain h w p ns ps k v where I: "wq_inv h w p ns ps k v" "s = wq_stream h w ns k v"
    unfolding wq_rel_def by (cases q) auto
  then have "\<forall>x \<ge> 4096 * length ns. early s x = None" by (force simp: wq_stream_def wq_inv_def)
  then show ?thesis by blast
qed

interpretation wq: reorder_buffer wq_rel wq_put_step wq_pop_step
  by unfold_locales (fact wq_rel_unique, fact wq_rel_gap, fact wq_put_step_law, fact wq_pop_step_law)

section \<open>A concrete run\<close>

definition blank_node :: WQ_Node where
  "blank_node = \<lparr>to_head = 0, to_tail = 0, ndata = (\<lambda>_. 0), validBlockCount = 0\<rparr>"

definition blank_window :: WQ_Window where
  "blank_window = \<lparr>head = 0, safe_tail = 0, unsafe_tail = 0, safe_len = 0, unsafe_len = 0, headDataOffset = 0,
     headSeq = 0, ub_list = \<lparr>ub_headSeq = replicate 8 0, ub_tailSeq = replicate 8 0, ub_count = 0\<rparr>,
     lastSeq = 0, windowSize = 0\<rparr>"

text \<open>A window and a pool opened at sequence number 100 in a heap with room for eight cells.\<close>

definition ex_open :: wqs where
  "ex_open = snd (snd (projr (wq_open (empty_heap blank_node 8) blank_window 100)))"

definition ex_put :: "wqs \<Rightarrow> u32 \<Rightarrow> u8 list \<Rightarrow> wqs" where
  "ex_put q seq xs = (case q of (h, w, p) \<Rightarrow> snd (projr (altusWQPut h w p seq (word_of_nat (length xs)) xs)))"

definition ex_pop :: "wqs \<Rightarrow> u32 \<Rightarrow> u8 list \<Rightarrow> u32 \<times> u8 list option \<times> wqs" where
  "ex_pop q len buf = (case q of (h, w, p) \<Rightarrow> projr (altusWQPop h w p len (Some buf)))"

text \<open>Two packets in the wrong order, then a read.\<close>

lemma ex_reordered:
  "(case ex_pop (ex_put (ex_put ex_open 102 [3, 4]) 100 [1, 2]) 4 [0, 0, 0, 0, 9] of
      (n, d, h, w, p) \<Rightarrow> (n, d, lastSeq w)) = (4, Some [1, 2, 3, 4, 9], 104)"
  by code_simp

lemma ex_open_inv:
  obtains h w p where "ex_open = (h, w, p)" "wq_inv h w p [2] [4] 0 0" "wq_stream h w [2] 0 0 = empty_stream 100"
    "room h 4" "safe_len w = 1" "windowSize w = 0x20000" "lastSeq w = 100" "headSeq w = 100" "ub_count (ub_list w) = 0"
proof -
  have "\<exists>h' w' p'. wq_open (empty_heap blank_node 8) blank_window 100 = Inr (1, 1 + 2, h', w', p') \<and>
     wq_inv h' w' p' [1 + 1] [1 + 3] 0 0 \<and> wq_stream h' w' [1 + 1] 0 0 = empty_stream 100 \<and>
     brk h' = 1 + 4 \<and> limit h' = 9 \<and> safe_len w' = 1 \<and>
     windowSize w' = 0x20000 \<and> lastSeq w' = 100 \<and> headSeq w' = 100 \<and> ub_count (ub_list w') = 0"
    using wq_open_result [of "empty_heap blank_node 8" blank_window 100]
    by (simp add: empty_heap_def room_def blank_window_def)
  then show thesis using that by (auto simp: ex_open_def room_def eval_nat_numeral)
qed

lemma ex_put_inv:
  obtains h w p ns ps k v where "ex_put ex_open 100 [1, 2, 3] = (h, w, p)" "wq_inv h w p ns ps k v"
    "wq_stream h w ns k v = stream_put (empty_stream 100) 0 [1, 2, 3]"
proof -
  obtain h w p where o: "ex_open = (h, w, p)" "wq_inv h w p [2] [4] 0 0" "wq_stream h w [2] 0 0 = empty_stream 100"
    "room h 4" "safe_len w = 1" "windowSize w = 0x20000" "lastSeq w = 100" "ub_count (ub_list w) = 0"
    by (rule ex_open_inv)
  have ok: "put_ok w 0 100 3" using o by (simp add: put_ok_def window_full_def soff_def)
  have "put_post (stream_put (empty_stream 100) 0 [1, 2, 3]) (altusWQPut h w p 100 3 [1, 2, 3])"
    using altusWQPut_result [OF o(2) ok, of "[1, 2, 3]"] o by (auto simp: ub_cover_def room_def)
  then show thesis using that by (auto simp: put_post_def ex_put_def o(1))
qed

lemma ex_put_head: "(case ex_put ex_open 100 [1, 2, 3] of (h, w, p) \<Rightarrow> headSeq w = 100 \<and> headDataOffset w = 0)"
  by code_simp

section \<open>Properties\<close>



text \<open>The put and the read at that window.\<close>

theorem altusWQPut_refines_witness:
  "\<exists>h w p. ex_open = (h, w, p) \<and>
     put_post (stream_put (empty_stream 100) 5 [7, 8]) (altusWQPut h w p 105 2 [7, 8])"
proof -
  obtain h w p where o: "ex_open = (h, w, p)" "wq_inv h w p [2] [4] 0 0" "wq_stream h w [2] 0 0 = empty_stream 100"
    "room h 4" "safe_len w = 1" "windowSize w = 0x20000" "lastSeq w = 100" "ub_count (ub_list w) = 0"
    by (rule ex_open_inv)
  have ok: "put_ok w 0 105 2" using o by (simp add: put_ok_def window_full_def soff_def)
  have "room h ((0 + soff (lastSeq w) 105 + unat (2 :: u32)) div 4096)" using o by (simp add: room_def soff_def)
  then show ?thesis
    using altusWQPut_refines [OF o(2) ok, of "[7, 8]"] o by (auto simp: ub_cover_def ub_blocks_Nil soff_def)
qed

theorem altusWQPut_far_packet_witness:
  "\<exists>h w p. ex_open = (h, w, p) \<and> altusWQPut h w p 4200 2 [7, 8] = Inl OutOfBounds \<and>
     (\<exists>h' w'. altusWQPut h w p 65636 2 [7, 8] = Inr (0, h', w', p) \<and> ndata (node h' (safe_tail w)) 1 = 8)"
proof -
  obtain h w p where o: "ex_open = (h, w, p)" "wq_inv h w p [2] [4] 0 0"
    "safe_len w = 1" "windowSize w = 0x20000" "lastSeq w = 100" "ub_count (ub_list w) = 0"
    by (rule ex_open_inv)
  have e: "ub_cover 100 (ub_list w) = {}" using o(6) by (simp add: ub_cover_def ub_blocks_def)
  have "altusWQPut h w p 4200 2 [7, 8] = Inl OutOfBounds"
    using altusWQPut_far_packet [OF o(2), of 4200 2 "[7, 8]"] o e by (simp add: window_full_def soff_def)
  moreover have "\<exists>h' w'. altusWQPut h w p 65636 2 [7, 8] = Inr (0, h', w', p) \<and> ndata (node h' (safe_tail w)) 1 = 8"
    using altusWQPut_far_packet [OF o(2), of 65636 2 "[7, 8]"] o e by (auto simp: window_full_def soff_def blit_def)
  ultimately show ?thesis using o(1) by blast
qed

theorem altusWQPut_refuses_witness:
  "\<exists>h w p. ex_open = (h, w, p) \<and> altusWQPut h w p 99 2 [7, 8] = Inr (-2, h, w, p) \<and>
     altusWQPut h w p 0x20000064 2 [7, 8] = Inr (-3, h, w, p) \<and> (\<exists>q. altusWQPut h w p 105 2 [7, 8] = Inr (0, q))"
proof -
  obtain h w p where o: "ex_open = (h, w, p)" "wq_inv h w p [2] [4] 0 0" "room h 4"
    "safe_len w = 1" "windowSize w = 0x20000" "lastSeq w = 100" "ub_count (ub_list w) = 0"
    by (rule ex_open_inv)
  have e: "ub_cover 100 (ub_list w) = {}" using o(7) by (simp add: ub_cover_def ub_blocks_def)
  have s: "4294967295 = soff (lastSeq w) 99" unfolding o(6) by (simp add: soff_def unsigned_minus_1_eq_mask mask_eq_exp_minus_1)
  have "altusWQPut h w p 99 2 [7, 8] = Inr (-2, h, w, p)"
    using altusWQPut_refuses [OF o(2) s, of 2 "[7, 8]"] o(4) by simp
  moreover have "altusWQPut h w p 0x20000064 2 [7, 8] = Inr (-3, h, w, p)"
    using altusWQPut_refuses [OF o(2) refl, of "0x20000064" 2 "[7, 8]"] o by (simp add: soff_def)
  moreover have "\<exists>q. altusWQPut h w p 105 2 [7, 8] = Inr (0, q)"
    using altusWQPut_refuses [OF o(2) refl, of 105 2 "[7, 8]"] o e by (simp add: soff_def room_def)
  ultimately show ?thesis using o(1) by blast
qed

text \<open>
  C8.  Reading \<open>len\<close> bytes from a well-formed window returns the smaller of \<open>len\<close> and
  what is readable, writes exactly the first bytes of the stream to the front of the buffer, takes them
  off the stream, loses no node between window and pool, changes no stored byte, and keeps the window
  well-formed.  With no buffer the bytes are dropped.
\<close>

theorem altusWQPop_correct:
  assumes "wq_inv h w p ns ps k v" "unat len < 2147483648" "\<And>d. dest = Some d \<Longrightarrow> unat len \<le> length d"
  shows "\<exists>h' w' p' ns' ps' k' v' n. n = min (unat len) (length (ready (wq_stream h w ns k v))) \<and>
        altusWQPop h w p len dest =
          Inr (word_of_nat n, map_option (\<lambda>d. take n (ready (wq_stream h w ns k v)) @ drop n d) dest, h', w', p') \<and>
        wq_inv h' w' p' ns' ps' k' v' \<and>
        wq_stream h' w' ns' k' v' = (wq_stream h w ns k v)\<lparr>ready := drop n (ready (wq_stream h w ns k v))\<rparr> \<and>
        set ns' \<union> set ps' = set ns \<union> set ps \<and> same_data h h' UNIV"
proof -
  let ?r = "ready (wq_stream h w ns k v)" and ?n = "min (unat len) (length (ready (wq_stream h w ns k v)))"
  have "fill 0 (take ?n ?r) = (\<lambda>d. take ?n ?r @ drop ?n d)" by (simp add: fill_def fun_eq_iff)
  then show ?thesis
    using altusWQPop_result [OF assms] unfolding pop_post_def by (metis add_0)
qed

theorem altusWQPop_correct_witness:
  "\<exists>h w p h' w' p'. ex_open = (h, w, p) \<and> altusWQPop h w p 5 (Some [1, 2, 3, 4, 5]) = Inr (0, Some [1, 2, 3, 4, 5], h', w', p')"
proof -
  obtain h w p where o: "ex_open = (h, w, p)" "wq_inv h w p [2] [4] 0 0" "wq_stream h w [2] 0 0 = empty_stream 100"
    by (rule ex_open_inv)
  have "\<exists>h' w' p'. altusWQPop h w p 5 (Some [1, 2, 3, 4, 5]) = Inr (0, Some [1, 2, 3, 4, 5], h', w', p')"
    using altusWQPop_correct [OF o(2), of 5 "Some [1, 2, 3, 4, 5]"] unfolding o(3) by (auto simp: empty_stream_def)
  then show ?thesis using o(1) by blast
qed

end
