(* ===== verification/WQ_Rest.thy ===== *)
theory WQ_Rest
  imports WQ_Stream
begin

text \<open>
  The operations that walk a window's chain: looking a sequence number up, counting the nodes, and
  giving every node back to the allocator.
\<close>

section \<open>Looking up a sequence number\<close>

lemma altusWQPeek_loop_walk:
  assumes "linked h ns" "j < length ns" "x < 4294967296"
  shows "altusWQPeek_loop h (ns ! j) (word_of_nat x) =
     (if j + x div 4096 < length ns then Inr (Some (ns ! (j + x div 4096), word_of_nat (x mod 4096))) else Inr None)"
  using assms(2,3)
proof (induction x arbitrary: j rule: less_induct)
  case (less x)
  have d: "deref h (ns ! j) = Inr (node h (ns ! j))" using linked_live [OF assms(1)] less.prems by simp
  have c: "4096 \<le> (word_of_nat x :: u32) \<longleftrightarrow> 4096 \<le> x"
    using less.prems by (simp add: word_le_nat_alt unat_word_of_nat_u32)
  show ?case
  proof (cases "x < 4096")
    case True
    then show ?thesis using c less.prems by (subst altusWQPeek_loop.simps) simp
  next
    case False
    then obtain y where y: "x = y + 4096" by (metis add.commute le_Suc_ex not_less)
    have q: "x div 4096 = Suc (y div 4096)" "x mod 4096 = y mod 4096" "word_of_nat x - 4096 = (word_of_nat y :: u32)"
      by (simp_all add: y div_add_self2)
    show ?thesis
    proof (cases "Suc j < length ns")
      case True
      then have t: "to_tail (node h (ns ! j)) = ns ! Suc j" "ns ! Suc j \<noteq> 0"
        using assms(1) by (auto simp: linked_def)
      show ?thesis
        using False True c d t less.IH [of y "Suc j"] less.prems y
        by (subst altusWQPeek_loop.simps) (simp add: div_add_self2)
    next
      case F: False
      then have "j = length ns - 1" using less.prems by simp
      then have "to_tail (node h (ns ! j)) = 0"
        using linked_last [OF assms(1)] linked_nonempty [OF assms(1)] by (simp add: last_conv_nth)
      then show ?thesis using F False c d less.prems by (subst altusWQPeek_loop.simps) (simp only: q, simp)
    qed
  qed
qed

text \<open>How many bytes of a node are in order.\<close>

definition node_fill :: "nat \<Rightarrow> nat \<Rightarrow> nat \<Rightarrow> nat" where
  "node_fill k v i = (if i < k then 4096 else v)"

lemma node_end: "x + (4096 - x mod 4096) = 4096 * Suc (x div 4096)" for x :: nat
proof -
  have "4096 * q + r + (4096 - r) = 4096 * Suc q" if "r < 4096" for q r :: nat using that by simp
  from this [of "x mod 4096" "x div 4096"] show ?thesis by simp
qed

lemma altusWQPeek_result:
  assumes inv: "wq_inv h w p ns ps k v" and x: "soff (headSeq w) seq < 4096 * k + v"
  defines "i \<equiv> soff (headSeq w) seq div 4096" and "off \<equiv> soff (headSeq w) seq mod 4096"
  shows "altusWQPeek h w seq = Inr (word_of_nat (node_fill k v i - off), Some (ns ! i, off)) \<and> off < node_fill k v i"
proof -
  let ?x = "soff (headSeq w) seq"
  have ch: "wq_chain h w p ns ps k" using inv by (simp add: wq_inv_def)
  note l = wq_chainD(1) [OF ch]
  have xi: "?x = 4096 * i + off" "off < 4096" by (simp_all add: i_def off_def)
  have v4: "v < 4096" using inv by (simp add: wq_inv_def)
  have i: "i \<le> k" "k < length ns" using x xi v4 wq_chainD(9) [OF ch] by auto
  have hd: "head w = ns ! 0" using wq_head(3) [OF inv] .
  have "altusWQPeek_loop h (ns ! 0) (word_of_nat ?x) = Inr (Some (ns ! i, word_of_nat off))"
    using altusWQPeek_loop_walk [OF l, of 0 ?x] i linked_nonempty [OF l] by (simp add: i_def off_def)
  then have lp: "altusWQPeek_loop h (head w) (seq - headSeq w) = Inr (Some (ns ! i, word_of_nat off))"
    by (simp add: hd soff_def)
  have vb: "unat (validBlockCount (node h (ns ! i))) = node_fill k v i"
    using inv i by (auto simp: wq_inv_def node_fill_def le_less)
  have on: "off < node_fill k v i" using x xi i by (auto simp: node_fill_def le_less)
  have uo: "unat (word_of_nat off :: u32) = off" using xi(2) by (intro unat_word_of_nat_u32) simp
  have un: "unat (validBlockCount (node h (ns ! i)) - word_of_nat off) = node_fill k v i - off"
    using vb uo on by (simp add: unat_minus_cases)
  then have "validBlockCount (node h (ns ! i)) - word_of_nat off = word_of_nat (node_fill k v i - off)"
    "\<not> validBlockCount (node h (ns ! i)) - word_of_nat off \<le> 0"
    using on by (metis of_nat_unat ucast_id, auto simp: word_le_nat_alt)
  moreover have "deref h (ns ! i) = Inr (node h (ns ! i))" using linked_live [OF l] i by simp
  ultimately show ?thesis using lp on uo by (simp add: altusWQPeek_def)
qed

section \<open>Counting the nodes\<close>

lemma chain_length_lt_brk:
  assumes "wq_chain h w p ns ps k"
  shows "length ns < brk h" "length ps < brk h"
proof -
  have "set ns \<subseteq> {1..<brk h}" "set ps \<subseteq> {1..<brk h}"
    using wq_chainD(5,6) [OF assms] linked_live [OF wq_chainD(1) [OF assms]] linked_live [OF wq_chainD(2) [OF assms]]
    by (auto simp: Suc_le_eq)
  then have "card (set ns) \<le> brk h - 1" "card (set ps) \<le> brk h - 1"
    using card_mono [of "{1..<brk h}"] by force+
  then show "length ns < brk h" "length ps < brk h"
    using wq_chainD(1,2,4) [OF assms] by (auto simp: distinct_card linked_def)
qed

lemma nth_eq_last_iff: "distinct ns \<Longrightarrow> j < length ns \<Longrightarrow> ns ! j = last ns \<longleftrightarrow> Suc j = length ns"
  by (cases "ns = []") (auto simp: last_conv_nth nth_eq_iff_index_eq)

lemma recalculateWinLen_loop_walk:
  assumes l: "linked h ns" and ends: "unsafe_tail w = last ns" "safe_tail w = ns ! k" "k < length ns"
    and "j < length ns" "length ns - j \<le> fuel"
  shows "recalculateWinLen_loop fuel h w (ns ! j) (word_of_nat (Suc j)) =
     Inr (w\<lparr>safe_len := (if j \<le> k \<and> Suc k < length ns then word_of_nat (Suc k) else safe_len w),
            unsafe_len := word_of_nat (length ns)\<rparr>)"
  using assms
proof (induction fuel arbitrary: w j)
  case (Suc fuel)
  have dn: "distinct ns" using linked_distinct [OF l] .
  have e: "ns ! j = unsafe_tail w \<longleftrightarrow> Suc j = length ns" using Suc.prems nth_eq_last_iff [OF dn] by simp
  have s: "ns ! j = safe_tail w \<longleftrightarrow> j = k" using Suc.prems dn by (simp add: nth_eq_iff_index_eq)
  have d: "deref h (ns ! j) = Inr (node h (ns ! j))" using linked_live [OF l] Suc.prems by simp
  show ?case
  proof (cases "Suc j = length ns")
    case True
    then show ?thesis using e Suc.prems by (auto simp flip: True)
  next
    case False
    then have j: "Suc j < length ns" using Suc.prems by simp
    let ?w = "if j = k then w\<lparr>safe_len := word_of_nat (Suc j)\<rparr> else w"
    have "recalculateWinLen_loop (Suc fuel) h w (ns ! j) (word_of_nat (Suc j)) =
        recalculateWinLen_loop fuel h ?w (ns ! Suc j) (word_of_nat (Suc (Suc j)))"
      using e s d j False linked_next [OF l j] by (auto simp: Let_def add.commute)
    also have "\<dots> = Inr (?w\<lparr>safe_len := (if Suc j \<le> k \<and> Suc k < length ns then word_of_nat (Suc k) else safe_len ?w),
            unsafe_len := word_of_nat (length ns)\<rparr>)"
      by (rule Suc.IH) (use Suc.prems j in auto)
    finally show ?thesis using j by auto
  qed
qed simp

text \<open>The class \<^verbatim>\<open>altusWQSanitize\<close> assigns to \<open>n\<close> nodes in a window of size \<open>s\<close>.\<close>

definition occupancy :: "nat \<Rightarrow> nat \<Rightarrow> int" where
  "occupancy n s =
     (if 0x40000000 < n then -3 else if 2 * s < n then -2 else if s < n then -1
      else if n < s div 8 then 3 else if n < s div 4 then 2 else if n < s div 2 then 1 else 0)"

lemma altusWQSanitize_result:
  assumes inv: "wq_inv h w p ns ps k v" and b: "length ns < 4294967296" "unat (windowSize w) < 2147483648"
  shows "\<exists>w'. altusWQSanitize h w = Inr (occupancy (length ns) (unat (windowSize w)), w') \<and>
     unat (unsafe_len w') = length ns \<and> w' = w\<lparr>safe_len := safe_len w', unsafe_len := unsafe_len w'\<rparr> \<and>
     (Suc k < length ns \<or> k = 0 \<longrightarrow> unat (safe_len w') = Suc k)"
proof -
  have ch: "wq_chain h w p ns ps k" using inv by (simp add: wq_inv_def)
  let ?w = "if head w = safe_tail w then w\<lparr>safe_len := 1\<rparr> else w"
  let ?w' = "?w\<lparr>safe_len := (if 0 \<le> k \<and> Suc k < length ns then word_of_nat (Suc k) else safe_len ?w),
            unsafe_len := word_of_nat (length ns)\<rparr>"
  have hs: "head w = safe_tail w \<longleftrightarrow> k = 0"
    using wq_head(3) [OF inv] wq_chainD(9,10) [OF ch] linked_distinct [OF wq_chainD(1) [OF ch]]
      nth_eq_iff_index_eq [of ns 0 k] wq_head(2) [OF inv] by auto
  have "recalculateWinLen_loop (brk h) h ?w (ns ! 0) (word_of_nat (Suc 0)) = Inr ?w'"
    by (rule recalculateWinLen_loop_walk) (use wq_chainD [OF ch] chain_length_lt_brk [OF ch] in auto)
  then have r: "recalculateWinLen h w = Inr ?w'"
    using wq_head(3) [OF inv] by (auto simp: recalculateWinLen_def Let_def)
  have u: "unat (unsafe_len ?w') = length ns" using b(1) by (simp add: unat_word_of_nat_u32)
  have ws: "windowSize ?w' = windowSize w" by simp
  have sh: "unat (push_bit 1 (windowSize w)) = 2 * unat (windowSize w)"
    "unat (drop_bit 3 (windowSize w)) = unat (windowSize w) div 8"
    "unat (drop_bit 2 (windowSize w)) = unat (windowSize w) div 4"
    "unat (drop_bit 1 (windowSize w)) = unat (windowSize w) div 2"
    using b(2) unat_plus_cases [of "windowSize w" "windowSize w"]
    by (simp_all add: drop_bit_eq_div push_bit_eq_mult unat_div mult_2_right, simp add: numeral_2_eq_2)
  have "altusWQSanitize h w = Inr (occupancy (length ns) (unat (windowSize w)), ?w')"
    unfolding altusWQSanitize_def r rbind_simps ws word_less_nat_alt u sh occupancy_def by simp
  moreover have "unat (word_of_nat (Suc k) :: u32) = Suc k"
    using wq_chainD(9) [OF ch] b(1) by (intro unat_word_of_nat_u32) simp
  moreover have "unat (word_of_nat (Suc 0) :: u32) = Suc 0" by simp
  ultimately show ?thesis using u hs
    by (intro exI [of _ ?w'] conjI) (simp_all del: of_nat_Suc)
qed

section \<open>Giving nodes back\<close>

lemma free_chain_walk:
  assumes "linked h ns" "j < length ns" "length ns - j \<le> fuel" "stop = last ns"
    and "node h' = node h" "brk h' = brk h" "limit h' = limit h"
    and "\<And>a. live h' a \<longleftrightarrow> live h a \<and> a \<notin> set (take j ns)"
  shows "free_chain fuel h' (ns ! j) stop = Inr (h\<lparr>live := (\<lambda>a. live h a \<and> a \<notin> set ns)\<rparr>)"
  using assms(2,3,5-)
proof (induction fuel arbitrary: h' j)
  case (Suc fuel)
  have dn: "distinct ns" using linked_distinct [OF assms(1)] .
  have tk: "set (take (Suc j) ns) = insert (ns ! j) (set (take j ns))"
    using Suc.prems(1) by (simp add: take_Suc_conv_app_nth)
  have "ns ! j \<notin> set (take j ns)"
    using dn Suc.prems(1) by (auto simp: in_set_conv_nth nth_eq_iff_index_eq)
  then have lv: "live h' (ns ! j)" "ns ! j \<noteq> 0" using Suc.prems linked_live [OF assms(1)] by auto
  let ?h = "h'\<lparr>live := (live h')(ns ! j := False)\<rparr>"
  have f: "free h' (ns ! j) = Inr ?h" using lv by (simp add: free_def)
  have lh: "live ?h a \<longleftrightarrow> live h a \<and> a \<notin> set (take (Suc j) ns)" for a using Suc.prems(6) tk by auto
  show ?case
  proof (cases "Suc j = length ns")
    case True
    then have "ns ! j = stop" using nth_eq_last_iff [OF dn Suc.prems(1)] assms(4) by simp
    moreover have "?h = h\<lparr>live := (\<lambda>a. live h a \<and> a \<notin> set ns)\<rparr>"
      using Suc.prems(3-5) lh True by (intro heap.equality) (auto simp: fun_eq_iff)
    ultimately show ?thesis using f by simp
  next
    case False
    then have j: "Suc j < length ns" "ns ! j \<noteq> stop" using Suc.prems(1) nth_eq_last_iff [OF dn Suc.prems(1)] assms(4) by auto
    have "free_chain fuel ?h (ns ! Suc j) stop = Inr (h\<lparr>live := (\<lambda>a. live h a \<and> a \<notin> set ns)\<rparr>)"
      by (rule Suc.IH) (use Suc.prems j lh in auto)
    then show ?thesis
      using j f lv linked_next [OF assms(1) j(1)] Suc.prems(3) by (simp add: Let_def)
  qed
qed simp

section \<open>Properties\<close>

lemma altusWQPeek_outside:
  assumes inv: "wq_inv h w p ns ps k v" and x_def: "x = soff (headSeq w) seq"
  shows "x = 4096 * k + v \<or> 4096 * length ns \<le> x \<Longrightarrow> altusWQPeek h w seq = Inr (0, None)"
    "4096 * k + v < x \<Longrightarrow> x < 4096 * Suc k \<Longrightarrow>
       altusWQPeek h w seq = Inr (word_of_nat v - word_of_nat (x mod 4096), Some (ns ! k, x mod 4096))"
proof -
  have ch: "wq_chain h w p ns ps k" and v: "v < 4096" "validBlockCount (node h (ns ! k)) = word_of_nat v"
    using inv by (auto simp: wq_inv_def)
  note l = wq_chainD(1) [OF ch]
  have hd: "head w = ns ! 0" using wq_head(3) [OF inv] .
  have loop: "altusWQPeek_loop h (head w) (seq - headSeq w) =
     (if x div 4096 < length ns then Inr (Some (ns ! (x div 4096), word_of_nat (x mod 4096))) else Inr None)"
    using altusWQPeek_loop_walk [OF l, of 0 x] linked_nonempty [OF l] soff_lt [of "headSeq w" seq] by (simp add: hd soff_def x_def)
  have d: "deref h (ns ! k) = Inr (node h (ns ! k))" using linked_live [OF l] wq_chainD(9) [OF ch] by simp
  have u: "unat (word_of_nat v :: u32) = v" "unat (word_of_nat (x mod 4096) :: u32) = x mod 4096"
    using v(1) less_trans [OF mod_less_divisor [of 4096 x]] by (simp_all add: unat_word_of_nat_u32)
  { assume a: "x = 4096 * k + v \<or> 4096 * length ns \<le> x"
    show "altusWQPeek h w seq = Inr (0, None)"
    proof (cases "4096 * length ns \<le> x")
      case True
      then have "\<not> x div 4096 < length ns" by (simp add: div_less_iff_less_mult mult.commute)
      then show ?thesis using loop by (simp add: altusWQPeek_def)
    next
      case False
      then have "x div 4096 = k" "x mod 4096 = v" using a v(1) by auto
      then show ?thesis using loop d v(2) wq_chainD(9) [OF ch] by (simp add: altusWQPeek_def)
    qed }
  { assume a: "4096 * k + v < x" "x < 4096 * Suc k"
    then have "x div 4096 = k" by (intro div_nat_eqI) simp_all
    moreover have "v < x mod 4096"
      using a(1) calculation mult_div_mod_eq [of 4096 x] by linarith
    then have "word_of_nat v - word_of_nat (x mod 4096) \<noteq> (0 :: u32)" using u by (metis eq_iff_diff_eq_0 less_irrefl)
    ultimately show "altusWQPeek h w seq = Inr (word_of_nat v - word_of_nat (x mod 4096), Some (ns ! k, x mod 4096))"
      using loop d v(2) u(2) wq_chainD(9) [OF ch] by (simp add: altusWQPeek_def) }
qed

lemma altusWQPopNode_headSeq: "altusWQPopNode h w p = Inr (r, h', w', p') \<Longrightarrow> headSeq w' = headSeq w"
  by (auto simp: altusWQPopNode_def Let_def rbind_def split: if_splits sum.splits)

text \<open>
  C14.  Sequence numbers are looked up by their distance \<open>x\<close> from \<open>headSeq\<close>, which is taken for the number of
  the head node's first byte.  A place in order gives its node and offset and exactly the number of in-order bytes from there
  to the end of the node or of the stream, and the bytes there are those of the chain.  The place right behind the last byte
  in order, and every place behind the chain, gives 0 and no position.  A place further on in the node being filled gives
  a position and a number of bytes that wrapped around.  Recycling the head node leaves \<open>headSeq\<close> as it is, so afterwards
  it is no longer the number of the head node's first byte.
\<close>

theorem altusWQPeek_correct:
  assumes "wq_inv h w p ns ps k v" "x = soff (headSeq w) seq" "e = 4096 * k + v"
  shows "(x < e \<longrightarrow>
      altusWQPeek h w seq = Inr (word_of_nat (min (4096 - x mod 4096) (e - x)), Some (ns ! (x div 4096), x mod 4096)) \<and>
      (\<forall>i < min (4096 - x mod 4096) (e - x). ndata (node h (ns ! (x div 4096))) (x mod 4096 + i) = byte_at h ns (x + i)))
    \<and> (x = e \<or> 4096 * length ns \<le> x \<longrightarrow> altusWQPeek h w seq = Inr (0, None))
    \<and> (e < x \<and> x < 4096 * Suc k \<longrightarrow>
      altusWQPeek h w seq = Inr (word_of_nat v - word_of_nat (x mod 4096), Some (ns ! k, x mod 4096)))
    \<and> (altusWQPopNode h w p = Inr (r, h', w', p') \<longrightarrow> headSeq w' = headSeq w)"
proof (intro conjI impI)
  let ?i = "x div 4096" and ?o = "x mod 4096"
  have v: "v < 4096" using assms(1) by (simp add: wq_inv_def)
  assume lt: "x < e"
  have r: "altusWQPeek h w seq = Inr (word_of_nat (node_fill k v ?i - ?o), Some (ns ! ?i, ?o))" "?o < node_fill k v ?i"
    using altusWQPeek_result [OF assms(1), of seq] lt assms(2,3) by auto
  have x: "x = 4096 * ?i + ?o" by simp
  have ik: "?i \<le> k" using lt assms(3) v x by linarith
  have "node_fill k v ?i - ?o = min (4096 - ?o) (e - x)"
  proof (cases "?i < k")
    case True
    then have "4096 * Suc ?i \<le> 4096 * k" by (intro mult_le_mono2) simp
    moreover have "x + (4096 - ?o) = 4096 * Suc ?i" by (rule node_end)
    ultimately have "4096 - ?o \<le> e - x" using assms(3) by linarith
    then show ?thesis using True by (simp add: node_fill_def)
  next
    case False
    then have "?i = k" using ik by simp
    then have "e - x = v - ?o" "node_fill k v ?i = v" using x assms(3) by (simp_all add: node_fill_def)
    then show ?thesis using v by simp
  qed
  then show "altusWQPeek h w seq = Inr (word_of_nat (min (4096 - ?o) (e - x)), Some (ns ! ?i, ?o))" using r by simp
  show "\<forall>i < min (4096 - ?o) (e - x). ndata (node h (ns ! ?i)) (?o + i) = byte_at h ns (x + i)"
  proof (intro allI impI)
    fix i assume "i < min (4096 - ?o) (e - x)"
    then have "?o + i < 4096" by (simp only: min_less_iff_conj less_diff_conv add.commute [of i])
    then have "(x + i) div 4096 = ?i" "(x + i) mod 4096 = ?o + i"
      by (auto simp: div_add1_eq [of x i] mod_add_left_eq [of x 4096 i, symmetric])
    then show "ndata (node h (ns ! ?i)) (?o + i) = byte_at h ns (x + i)" by (simp add: byte_at_def)
  qed
qed (use altusWQPeek_outside [OF assms(1,2)] assms(3) altusWQPopNode_headSeq in auto)

theorem altusWQPeek_correct_witness:
  "\<exists>h w p a. ex_put ex_open 100 [1, 2, 3] = (h, w, p) \<and> altusWQPeek h w 101 = Inr (2, Some (a, 1)) \<and>
     ndata (node h a) 1 = 2 \<and> altusWQPeek h w 103 = Inr (0, None)"
proof -
  obtain h w p ns ps k v where o: "ex_put ex_open 100 [1, 2, 3] = (h, w, p)" "wq_inv h w p ns ps k v"
    "wq_stream h w ns k v = stream_put (empty_stream 100) 0 [1, 2, 3]"
    by (rule ex_put_inv)
  have s: "map (byte_at h ns) [unat (headDataOffset w)..<4096 * k + v] = [1, 2, 3]"
    using arg_cong [OF o(3), of ready] stream_put_in_order [of "empty_stream 100" "[1, 2, 3]"]
    by (simp add: wq_stream_def empty_stream_def)
  have hd: "headSeq w = 100" "headDataOffset w = 0"
    using ex_put_head unfolding o(1) by simp_all
  have e: "3 = 4096 * k + v" using arg_cong [OF s, of length] hd by simp
  have b: "byte_at h ns 1 = 2" using arg_cong [OF s, of "\<lambda>xs. xs ! 1"] hd e [symmetric] by (simp add: upt_rec)
  have x: "1 = soff (headSeq w) 101" "3 = soff (headSeq w) 103" using hd by (simp_all add: soff_def)
  note peek = altusWQPeek_correct [OF o(2) x(1) e] altusWQPeek_correct [OF o(2) x(2) e]
  have "altusWQPeek h w 101 = Inr (2, Some (ns ! 0, 1))" "\<forall>i < 2. ndata (node h (ns ! 0)) (1 + i) = byte_at h ns (1 + i)"
    "altusWQPeek h w 103 = Inr (0, None)"
    using peek by simp_all
  then show ?thesis using o(1) b by fastforce
qed

text \<open>
  C16.  The recount sets the total to the number of nodes in the chain (within the
  bound on the walk), and the safe count to the index of the safe tail plus one whenever unsafe nodes
  follow it; the returned class is decided by the strict thresholds of the window size.
\<close>

theorem altusWQSanitize_correct:
  assumes "wq_inv h w p ns ps k v" "length ns < 4294967296" "unat (windowSize w) < 2147483648"
  shows "\<exists>w'. altusWQSanitize h w = Inr (occupancy (length ns) (unat (windowSize w)), w') \<and>
     unat (unsafe_len w') = length ns \<and> w' = w\<lparr>safe_len := safe_len w', unsafe_len := unsafe_len w'\<rparr> \<and>
     (Suc k < length ns \<or> k = 0 \<longrightarrow> unat (safe_len w') = Suc k)"
  using assms by (rule altusWQSanitize_result)

theorem altusWQSanitize_correct_witness:
  "\<exists>h w p w'. ex_open = (h, w, p) \<and> altusWQSanitize h w = Inr (3, w') \<and> unat (unsafe_len w') = 1"
proof -
  obtain h w p where o: "ex_open = (h, w, p)" "wq_inv h w p [2] [4] 0 0" "windowSize w = 0x20000"
    by (rule ex_open_inv)
  then show ?thesis using altusWQSanitize_correct [OF o(2)] by (auto simp: occupancy_def)
qed

text \<open>
  C15.  Freeing the window and then the pool frees every node of both and the window's own
  memory exactly once: no use after free, no double free, and nothing else is touched.  The memory of the
  pool itself is still allocated afterwards.
\<close>

theorem altusFree_correct:
  assumes inv: "wq_inv h w p ns ps k v" and wa: "wa \<noteq> 0" "live h wa" "wa \<notin> set ns \<union> set ps"
    and pa: "pa \<noteq> 0" "live h pa" "pa \<notin> set ns \<union> set ps" "pa \<noteq> wa"
  shows "\<exists>h1 h2. altusFreeWQ h wa w = Inr h1 \<and> altusFreeP h1 pa p = Inr h2 \<and>
     (\<forall>a. live h2 a \<longleftrightarrow> live h a \<and> a \<notin> set ns \<and> a \<notin> set ps \<and> a \<noteq> wa) \<and> live h2 pa \<and> node h2 = node h"
proof -
  have ch: "wq_chain h w p ns ps k" using inv by (simp add: wq_inv_def)
  note D = wq_chainD [OF ch] and L = chain_length_lt_brk [OF ch]
  have ne: "ns \<noteq> []" "ps \<noteq> []" using linked_nonempty D(1,2) by auto
  let ?h0 = "h\<lparr>live := (\<lambda>a. live h a \<and> a \<notin> set ns)\<rparr>"
  let ?h1 = "?h0\<lparr>live := (live ?h0)(wa := False)\<rparr>"
  have "free_chain (brk h) h (ns ! 0) (last ns) = Inr ?h0"
    by (rule free_chain_walk [OF D(1)]) (use ne L in auto)
  then have f1: "altusFreeWQ h wa w = Inr ?h1"
    using D(7,8) wa ne by (simp add: altusFreeWQ_def hd_conv_nth free_def)
  have "linked ?h1 ps" using D(2,3) wa(3) by (intro linked_frame [OF D(2)]) (auto simp: linked_def)
  then have "free_chain (brk h) ?h1 (ps ! 0) (last ps) = Inr (?h1\<lparr>live := (\<lambda>a. live ?h1 a \<and> a \<notin> set ps)\<rparr>)"
    by (rule free_chain_walk) (use ne L in auto)
  moreover have "recycled_head p \<noteq> 0" "recycled_head p = ps ! 0"
    using D(2,11) ne linked_live [OF D(2), of "hd ps"] by (auto simp: hd_conv_nth)
  ultimately have "altusFreeP ?h1 pa p = Inr (?h1\<lparr>live := (\<lambda>a. live ?h1 a \<and> a \<notin> set ps)\<rparr>)"
    using D(12) pa(1) by (simp add: altusFreeP_def)
  then show ?thesis using f1 pa wa
    by (intro exI [of _ ?h1] exI [of _ "?h1\<lparr>live := (\<lambda>a. live ?h1 a \<and> a \<notin> set ps)\<rparr>"]) auto
qed

theorem altusFree_correct_witness:
  "\<exists>h w p h1 h2. ex_open = (h, w, p) \<and> altusFreeWQ h 1 w = Inr h1 \<and> altusFreeP h1 3 p = Inr h2 \<and>
     live h 1 \<and> live h 2 \<and> live h 4 \<and> \<not> live h2 1 \<and> \<not> live h2 2 \<and> \<not> live h2 4 \<and> live h2 3"
proof -
  obtain h w p where o: "ex_open = (h, w, p)" "wq_inv h w p [2] [4] 0 0"
    by (rule ex_open_inv)
  have "(case ex_open of (h, w, p) \<Rightarrow> live h 1 \<and> live h 3 \<and> live h 2 \<and> live h 4)" by code_simp
  then have l: "live h 1" "live h 3" "live h 2" "live h 4" unfolding o(1) by simp_all
  obtain h1 h2 where "altusFreeWQ h 1 w = Inr h1" "altusFreeP h1 3 p = Inr h2"
      "\<forall>a. live h2 a \<longleftrightarrow> live h a \<and> a \<notin> set [2] \<and> a \<notin> set [4] \<and> a \<noteq> 1"
    using altusFree_correct [OF o(2), of 1 3] l by auto
  then show ?thesis using l o(1) by (intro exI [of _ h] exI [of _ w] exI [of _ p] exI [of _ h1] exI [of _ h2]) simp
qed

end
