(* ===== verification/Node_Pool.thy ===== *)
theory Node_Pool
  imports NodeHeap
begin

text \<open>
  The nodes and the pool of nodes of the C++ part (\<^verbatim>\<open>src/ALTUS/NodeBase.h\<close>, \<^verbatim>\<open>NodeBase.cpp\<close>).  A pool is a record;
  the nodes live in a heap of their own, 0 is \<^verbatim>\<open>nullptr\<close>, and \<^verbatim>\<open>new\<close> hands out addresses in order.

  A C++ function ends in a fault, in an exception or with a value.  The mutex is not part of the sequential
  operations; \<open>pop_step\<close> is the interleaving of threads that call \<^verbatim>\<open>pop\<close>, with the section under the lock as
  one step and the test before it as another.
\<close>

datatype cxx =
    Fault fault            \<comment> \<open>undefined behaviour, or \<open>exit\<close>\<close>
  | RuntimeError string    \<comment> \<open>std::runtime_error\<close>
  | BadAlloc               \<comment> \<open>std::bad_alloc\<close>
  | InvalidArgument string \<comment> \<open>std::invalid_argument\<close>
  | SignedOverflow         \<comment> \<open>an int calculation leaves its range\<close>

type_synonym 'a cres = "cxx + 'a"

section \<open>Nodes\<close>

record Node =
  ntail :: addr              \<comment> \<open>Node* to_tail\<close>
  nbytes :: "nat \<Rightarrow> u8"       \<comment> \<open>char data[ALTUS_NODE_SIZE]\<close>

record nheap =
  cnode :: "addr \<Rightarrow> Node"
  clive :: "addr \<Rightarrow> bool"
  cbrk :: addr
  climit :: addr

text \<open>\<^verbatim>\<open>new Node\<close> with the constructor \<^verbatim>\<open>Node::Node\<close>: the data is left as the memory holds it.\<close>

definition new_Node :: "nheap \<Rightarrow> (addr \<times> nheap) cres" where
  "new_Node h =
     (if cbrk h < climit h then
        let a = cbrk h in
        Inr (a, h\<lparr>clive := (clive h)(a := True), cbrk := a + 1, cnode := (cnode h)(a := (cnode h a)\<lparr>ntail := 0\<rparr>)\<rparr>)
      else Inl BadAlloc)"

definition cderef :: "nheap \<Rightarrow> addr \<Rightarrow> Node cres" where
  "cderef h a = (if a = 0 then Inl (Fault NullDeref) else if clive h a then Inr (cnode h a) else Inl (Fault UseAfterFree))"

definition cupd :: "nheap \<Rightarrow> addr \<Rightarrow> (Node \<Rightarrow> Node) \<Rightarrow> nheap cres" where
  "cupd h a f = rbind (cderef h a) (\<lambda>nd. Inr (h\<lparr>cnode := (cnode h)(a := f nd)\<rparr>))"

definition delete :: "nheap \<Rightarrow> addr \<Rightarrow> nheap cres" where
  "delete h a = (if a = 0 then Inr h else if clive h a then Inr (h\<lparr>clive := (clive h)(a := False)\<rparr>)
                 else Inl (Fault UseAfterFree))"

section \<open>The pool\<close>

record NodePool =
  pool_size :: int       \<comment> \<open>int size\<close>
  rhead :: addr          \<comment> \<open>Node* recycled_head\<close>
  rtail :: addr          \<comment> \<open>Node* recycled_tail\<close>

definition NodePool_new :: NodePool where
  "NodePool_new = \<lparr>pool_size = 0, rhead = 0, rtail = 0\<rparr>"

text \<open>The part of \<^verbatim>\<open>pop\<close> under the lock, and \<^verbatim>\<open>pop\<close>.\<close>

definition pop_locked :: "nheap \<Rightarrow> NodePool \<Rightarrow> (addr \<times> NodePool) cres" where
  "pop_locked h pool =
     (let poppingNode = rhead pool in
      rbind (cderef h (rhead pool)) (\<lambda>nd.
      Inr (poppingNode, pool\<lparr>rhead := ntail nd, pool_size := pool_size pool - 1\<rparr>)))"

definition NodePool_pop :: "nheap \<Rightarrow> NodePool \<Rightarrow> (addr \<times> NodePool) cres" where
  "NodePool_pop h pool = (if rhead pool = 0 then Inr (0, pool) else pop_locked h pool)"

definition NodePool_push :: "nheap \<Rightarrow> NodePool \<Rightarrow> addr \<Rightarrow> (nheap \<times> NodePool) cres" where
  "NodePool_push h pool nd =
     rbind (cupd h nd (\<lambda>n. n\<lparr>ntail := 0\<rparr>)) (\<lambda>h.
     let pool = pool\<lparr>pool_size := pool_size pool + 1\<rparr> in
     if rhead pool = 0 then Inr (h, pool\<lparr>rhead := nd, rtail := nd\<rparr>)
     else rbind (cupd h (rtail pool) (\<lambda>n. n\<lparr>ntail := nd\<rparr>)) (\<lambda>h. Inr (h, pool)))"

text \<open>The two loops over a chain: walking \<open>n\<close> nodes along and deleting to the end, with as much fuel as nodes were ever allocated.\<close>

fun walk :: "nat \<Rightarrow> nheap \<Rightarrow> addr \<Rightarrow> addr cres" where
  "walk 0 h currentNode = Inr currentNode"
| "walk (Suc n) h currentNode = rbind (cderef h currentNode) (\<lambda>nd. walk n h (ntail nd))"

fun delete_chain :: "nat \<Rightarrow> nheap \<Rightarrow> addr \<Rightarrow> nheap cres" where
  "delete_chain 0 h currentNode = Inl (Fault OutOfFuel)"
| "delete_chain (Suc fuel) h currentNode =
     (if currentNode = 0 then Inr h
      else rbind (cderef h currentNode) (\<lambda>nd.
           rbind (delete h currentNode) (\<lambda>h.
           delete_chain fuel h (ntail nd))))"

definition NodePool_delete :: "nheap \<Rightarrow> NodePool \<Rightarrow> nheap cres" where
  "NodePool_delete h pool = delete_chain (cbrk h + 1) h (rhead pool)"

definition NodePool_resize :: "nheap \<Rightarrow> NodePool \<Rightarrow> int \<Rightarrow> (int \<times> nheap \<times> NodePool) cres" where
  "NodePool_resize h pool n =
     (let removeCount = pool_size pool - n in
      if removeCount \<le> 0 then Inr (0, h, pool)
      else
        rbind (walk (nat (n - 1)) h (rhead pool)) (\<lambda>currentNode.
        let pool = pool\<lparr>rtail := currentNode\<rparr> in
        rbind (cderef h currentNode) (\<lambda>nd.
        let deletingNode = ntail nd in
        rbind (cupd h (rtail pool) (\<lambda>n. n\<lparr>ntail := 0\<rparr>)) (\<lambda>h.
        let pool = pool\<lparr>pool_size := n\<rparr> in
        rbind (delete_chain (cbrk h + 1) h deletingNode) (\<lambda>h.
        Inr (removeCount, h, pool))))))"

section \<open>Threads\<close>

text \<open>A thread in \<^verbatim>\<open>pop\<close>: before the test, past the test, returned, or stopped by a fault.\<close>

datatype popper = Testing | Entering | Returned addr | Crashed cxx

type_synonym poppers = "NodePool \<times> popper list"

inductive pop_step :: "nheap \<Rightarrow> poppers \<Rightarrow> poppers \<Rightarrow> bool" for h where
  test: "t < length ts \<Longrightarrow> ts ! t = Testing \<Longrightarrow>
     pop_step h (pool, ts) (pool, ts[t := if rhead pool = 0 then Returned 0 else Entering])"
| enter: "t < length ts \<Longrightarrow> ts ! t = Entering \<Longrightarrow> pop_locked h pool = Inr (a, pool') \<Longrightarrow>
     pop_step h (pool, ts) (pool', ts[t := Returned a])"
| crash: "t < length ts \<Longrightarrow> ts ! t = Entering \<Longrightarrow> pop_locked h pool = Inl e \<Longrightarrow>
     pop_step h (pool, ts) (pool, ts[t := Crashed e])"

inductive_cases pop_stepE: "pop_step h s s'"

section \<open>Laws\<close>

lemma cderef_ok [simp]: "a \<noteq> 0 \<Longrightarrow> clive h a \<Longrightarrow> cderef h a = Inr (cnode h a)"
  by (simp add: cderef_def)

lemma cderef_null [simp]: "cderef h 0 = Inl (Fault NullDeref)"
  by (simp add: cderef_def)

lemma cupd_ok [simp]: "a \<noteq> 0 \<Longrightarrow> clive h a \<Longrightarrow> cupd h a f = Inr (h\<lparr>cnode := (cnode h)(a := f (cnode h a))\<rparr>)"
  by (simp add: cupd_def)

text \<open>\<open>chain h a xs\<close>: from \<open>a\<close> the nodes \<open>xs\<close> are reached, then \<^verbatim>\<open>nullptr\<close>.\<close>

fun chain :: "nheap \<Rightarrow> addr \<Rightarrow> addr list \<Rightarrow> bool" where
  "chain h a [] \<longleftrightarrow> a = 0"
| "chain h a (x # xs) \<longleftrightarrow> a = x \<and> x \<noteq> 0 \<and> clive h x \<and> chain h (ntail (cnode h x)) xs"

lemma chain_Nil_iff: "chain h 0 xs \<longleftrightarrow> xs = []"
  by (cases xs) auto

lemma chain_pop:
  "chain h (rhead pool) (x # xs) \<Longrightarrow>
   pop_locked h pool = Inr (x, pool\<lparr>rhead := ntail (cnode h x), pool_size := pool_size pool - 1\<rparr>)
   \<and> chain h (ntail (cnode h x)) xs"
  by (simp add: pop_locked_def)

lemma chain_frame:
  "chain h a xs \<Longrightarrow> (\<And>x. x \<in> set xs \<Longrightarrow> clive h' x \<and> ntail (cnode h' x) = ntail (cnode h x)) \<Longrightarrow> chain h' a xs"
  by (induction xs arbitrary: a) auto

fun push_all :: "nheap \<Rightarrow> NodePool \<Rightarrow> addr list \<Rightarrow> (nheap \<times> NodePool) cres" where
  "push_all h pool [] = Inr (h, pool)"
| "push_all h pool (n # ns) = rbind (NodePool_push h pool n) (\<lambda>(h, pool). push_all h pool ns)"

text \<open>Nodes pushed after the first one: each replaces the one before, because \<^verbatim>\<open>recycled_tail\<close> stays where it is.\<close>

lemma push_all_after_first:
  assumes "a \<noteq> 0" "clive h a" "rhead pool = a" "rtail pool = a" "ns \<noteq> []" "a \<notin> set ns" "distinct ns"
    "\<And>n. n \<in> set ns \<Longrightarrow> n \<noteq> 0 \<and> clive h n"
  shows "\<exists>h' pool'. push_all h pool ns = Inr (h', pool') \<and> chain h' a [a, last ns]
    \<and> rhead pool' = a \<and> pool_size pool' = pool_size pool + int (length ns) \<and> clive h' = clive h \<and> cbrk h' = cbrk h"
  using assms
proof (induction ns arbitrary: h pool)
  case (Cons n ns)
  define h1 where "h1 = h\<lparr>cnode := (cnode h)(n := (cnode h n)\<lparr>ntail := 0\<rparr>, a := (cnode h a)\<lparr>ntail := n\<rparr>)\<rparr>"
  define pool1 where "pool1 = pool\<lparr>pool_size := pool_size pool + 1\<rparr>"
  have n: "n \<noteq> 0" "clive h n" "n \<noteq> a" "a \<noteq> n" using Cons.prems(6,8) by auto
  have p: "NodePool_push h pool n = Inr (h1, pool1)"
    using n Cons.prems(1-4) by (simp add: NodePool_push_def h1_def pool1_def fun_upd_twist Let_def)
  show ?case
  proof (cases "ns = []")
    case True
    then show ?thesis using p n Cons.prems(1-4) by (simp add: h1_def pool1_def)
  next
    case False
    have "\<exists>h' pool'. push_all h1 pool1 ns = Inr (h', pool') \<and> chain h' a [a, last ns]
        \<and> rhead pool' = a \<and> pool_size pool' = pool_size pool1 + int (length ns) \<and> clive h' = clive h1 \<and> cbrk h' = cbrk h1"
      by (rule Cons.IH) (use Cons.prems False in \<open>auto simp: h1_def pool1_def\<close>)
    then show ?thesis using p False by (auto simp: h1_def pool1_def)
  qed
qed simp

text \<open>Threads that still have a node to take.\<close>

definition wants :: "popper \<Rightarrow> bool" where
  "wants t \<longleftrightarrow> t = Testing \<or> t = Entering"

lemma wanting: "t < length ts \<Longrightarrow> wants (ts ! t) \<Longrightarrow> length (filter wants ts) \<noteq> 0"
  by (force simp: filter_empty_conv set_conv_nth)

lemma wants_update:
  "t < length ts \<Longrightarrow> wants (ts ! t) \<Longrightarrow> length (filter wants (ts[t := x])) = length (filter wants ts) - (if wants x then 0 else 1)"
proof (induction ts arbitrary: t)
  case (Cons y ts)
  show ?case
  proof (cases t)
    case (Suc k)
    then have "length (filter wants ts) \<noteq> 0" using Cons.prems by (intro wanting [of k]) auto
    then show ?thesis using Cons Suc by (cases "wants y") auto
  qed (use Cons.prems in auto)
qed simp

definition pop_safe :: "nheap \<Rightarrow> poppers \<Rightarrow> bool" where
  "pop_safe h s \<longleftrightarrow> (\<exists>xs. chain h (rhead (fst s)) xs \<and> length (filter wants (snd s)) \<le> length xs)
     \<and> (\<forall>e. Crashed e \<notin> set (snd s))"

lemma pop_step_safe: "pop_step h s s' \<Longrightarrow> pop_safe h s \<Longrightarrow> pop_safe h s'"
proof (induction rule: pop_step.induct)
  case (test t ts pool)
  then obtain xs where x: "chain h (rhead pool) xs" "length (filter wants ts) \<le> length xs"
    by (auto simp: pop_safe_def)
  have "length (filter wants ts) \<noteq> 0"
    using test(1,2) by (intro wanting) (auto simp: wants_def)
  then have "rhead pool \<noteq> 0" using x by (cases xs) auto
  moreover have "length (filter wants (ts[t := Entering])) \<le> length xs"
    using wants_update [OF test(1), of Entering] test(2) x(2) by (simp add: wants_def)
  ultimately show ?case using test(3) x(1) by (auto simp: pop_safe_def dest: set_update_subset_insert [THEN subsetD])
next
  case (enter t ts pool a pool')
  then obtain xs where x: "chain h (rhead pool) xs" "length (filter wants ts) \<le> length xs"
    by (auto simp: pop_safe_def)
  have l: "length (filter wants (ts[t := Returned a])) = length (filter wants ts) - 1"
    using wants_update [OF enter(1), of "Returned a"] enter(2) by (simp add: wants_def)
  obtain y ys where "xs = y # ys" using x(1) enter(3) by (cases xs) (auto simp: pop_locked_def)
  then have "chain h (rhead pool') ys" "length (filter wants (ts[t := Returned a])) \<le> length ys"
    using x l enter(3) by (auto simp: pop_locked_def)
  then show ?case using enter(4) by (auto simp: pop_safe_def dest: set_update_subset_insert [THEN subsetD])
next
  case (crash t ts pool e)
  then obtain xs where x: "chain h (rhead pool) xs" "length (filter wants ts) \<le> length xs"
    by (auto simp: pop_safe_def)
  have "length (filter wants ts) \<noteq> 0"
    using crash(1,2) by (intro wanting) (auto simp: wants_def)
  then obtain y ys where "xs = y # ys" using x(2) by (cases xs) auto
  then show ?case using x(1) crash(3) by (auto simp: pop_locked_def)
qed

lemma pop_steps_safe: "(pop_step h)\<^sup>*\<^sup>* s s' \<Longrightarrow> pop_safe h s \<Longrightarrow> pop_safe h s'"
  by (induction rule: rtranclp_induct) (auto intro: pop_step_safe)

lemma test_all: "rhead pool \<noteq> 0 \<Longrightarrow> (pop_step h)\<^sup>*\<^sup>* (pool, us @ replicate k Testing) (pool, us @ replicate k Entering)"
proof (induction k arbitrary: us)
  case (Suc k)
  have "pop_step h (pool, us @ Testing # replicate k Testing) (pool, (us @ Testing # replicate k Testing)[length us := Entering])"
    using pop_step.test [of "length us" "us @ Testing # replicate k Testing" h pool] Suc.prems by simp
  then have "pop_step h (pool, us @ replicate (Suc k) Testing) (pool, (us @ [Entering]) @ replicate k Testing)" by simp
  with Suc.IH [OF Suc.prems, of "us @ [Entering]"] show ?case
    by (simp add: converse_rtranclp_into_rtranclp)
qed simp

lemma enter_until_empty:
  "chain h (rhead pool) xs \<Longrightarrow> \<exists>s. (pop_step h)\<^sup>*\<^sup>* (pool, us @ replicate (Suc (length xs)) Entering @ vs) s \<and> Crashed (Fault NullDeref) \<in> set (snd s)"
proof (induction xs arbitrary: us pool)
  case Nil
  then have "pop_step h (pool, us @ Entering # vs) (pool, (us @ Entering # vs)[length us := Crashed (Fault NullDeref)])"
    by (intro pop_step.crash) (simp_all add: pop_locked_def)
  then have "(pop_step h)\<^sup>*\<^sup>* (pool, us @ Entering # vs) (pool, us @ Crashed (Fault NullDeref) # vs)"
    by (intro r_into_rtranclp) simp
  then show ?case by (intro exI [of _ "(pool, us @ Crashed (Fault NullDeref) # vs)"]) simp
next
  case (Cons x xs)
  define pool' where "pool' = pool\<lparr>rhead := ntail (cnode h x), pool_size := pool_size pool - 1\<rparr>"
  let ?es = "replicate (Suc (length xs)) Entering @ vs"
  have "pop_step h (pool, us @ Entering # ?es) (pool', (us @ Entering # ?es)[length us := Returned x])"
    using chain_pop [OF Cons.prems] by (intro pop_step.enter) (simp_all add: pool'_def)
  then have "pop_step h (pool, us @ replicate (Suc (length (x # xs))) Entering @ vs) (pool', (us @ [Returned x]) @ ?es)" by simp
  moreover have "chain h (rhead pool') xs" using chain_pop [OF Cons.prems] by (simp add: pool'_def)
  ultimately show ?case using Cons.IH [of pool' "us @ [Returned x]"] by (meson converse_rtranclp_into_rtranclp)
qed

lemma delete_chain_two:
  assumes "chain h a [a, b]" "a \<noteq> b"
  shows "delete_chain (Suc (Suc (Suc n))) h a = Inr (h\<lparr>clive := (clive h)(a := False, b := False)\<rparr>)"
  using assms by (auto simp: delete_def fun_upd_twist)

lemma walk_two:
  assumes "chain h a [a, b]" shows "rbind (walk (Suc (Suc n)) h a) (cderef h) = Inl (Fault NullDeref)"
  using assms by (cases n) auto

section \<open>Results\<close>

text \<open>
  Of the nodes pushed onto an empty pool only the first and the last can be reached from it,
  while the size counts them all.  So \<^verbatim>\<open>resize\<close> to a size above 2 that is not the whole dereferences a null
  pointer, and the destructor deletes two nodes and leaks the others.
\<close>

theorem NodePool_leaks:
  assumes "distinct ns" "\<And>n. n \<in> set ns \<Longrightarrow> 0 < n \<and> n < cbrk h \<and> clive h n" "1 < length ns"
  shows "\<exists>h' pool. push_all h NodePool_new ns = Inr (h', pool) \<and> pool_size pool = int (length ns)
    \<and> chain h' (rhead pool) [hd ns, last ns]
    \<and> (\<forall>n. 2 < n \<and> n < int (length ns) \<longrightarrow> NodePool_resize h' pool n = Inl (Fault NullDeref))
    \<and> (\<exists>h''. NodePool_delete h' pool = Inr h'' \<and> (\<forall>n\<in>set ns. clive h'' n \<longleftrightarrow> n \<noteq> hd ns \<and> n \<noteq> last ns))"
proof -
  obtain a ms where ns: "ns = a # ms" "ms \<noteq> []" using assms(3) by (cases ns) auto
  define h1 where "h1 = h\<lparr>cnode := (cnode h)(a := (cnode h a)\<lparr>ntail := 0\<rparr>)\<rparr>"
  have p: "NodePool_push h NodePool_new a = Inr (h1, \<lparr>pool_size = 1, rhead = a, rtail = a\<rparr>)"
    using assms(2) [of a] ns by (simp add: NodePool_push_def NodePool_new_def h1_def)
  obtain h' pool where r: "push_all h1 \<lparr>pool_size = 1, rhead = a, rtail = a\<rparr> ms = Inr (h', pool)"
      "chain h' a [a, last ms]" "rhead pool = a" "pool_size pool = 1 + int (length ms)" "clive h' = clive h" "cbrk h' = cbrk h"
    using push_all_after_first [of a h1 "\<lparr>pool_size = 1, rhead = a, rtail = a\<rparr>" ms] assms(1,2) ns by (auto simp: h1_def)
  have "NodePool_resize h' pool n = Inl (Fault NullDeref)" if n: "2 < n" "n < int (length ns)" for n
  proof -
    define k where "k = nat (n - 3)"
    have k: "nat (n - 1) = Suc (Suc k)" using n(1) by (simp add: k_def)
    show ?thesis using walk_two [OF r(2), of k] n r(3,4) ns by (auto simp: NodePool_resize_def k Let_def rbind_def split: sum.splits)
  qed
  moreover have "\<exists>h''. NodePool_delete h' pool = Inr h'' \<and> (\<forall>n\<in>set ns. clive h'' n \<longleftrightarrow> n \<noteq> hd ns \<and> n \<noteq> last ns)"
  proof -
    have ab: "a \<noteq> last ms" "0 < a" "a < cbrk h" "0 < last ms" "last ms < cbrk h"
      using assms(1,2) ns last_in_set [OF ns(2)] by auto
    then obtain k where "cbrk h' + 1 = Suc (Suc (Suc k))"
      using r(6) less_imp_Suc_add [of 1 "cbrk h"] by (metis Suc_eq_plus1 add_Suc less_antisym less_one nat_neq_iff not_less_eq)
    then have "NodePool_delete h' pool = Inr (h'\<lparr>clive := (clive h')(a := False, last ms := False)\<rparr>)"
      using delete_chain_two [OF r(2) ab(1)] r(3) by (simp add: NodePool_delete_def)
    then show ?thesis using assms(2) ns r(5) ab by auto
  qed
  ultimately show ?thesis using p r ns by (intro exI [of _ h'] exI [of _ pool]) simp
qed

definition ex_nodes :: nheap where
  "ex_nodes = \<lparr>cnode = (\<lambda>_. \<lparr>ntail = 0, nbytes = (\<lambda>_. 0)\<rparr>), clive = (\<lambda>a. 0 < a \<and> a < 10), cbrk = 10, climit = 20\<rparr>"

theorem NodePool_leaks_witness:
  "\<exists>h' pool. push_all ex_nodes NodePool_new [1, 2, 3, 4] = Inr (h', pool) \<and> pool_size pool = 4 \<and> chain h' (rhead pool) [1, 4]
    \<and> NodePool_resize h' pool 3 = Inl (Fault NullDeref)"
proof -
  have "distinct [1, 2, 3, 4 :: addr]" "n \<in> set [1, 2, 3, 4] \<Longrightarrow> 0 < n \<and> n < cbrk ex_nodes \<and> clive ex_nodes n" for n
    by (auto simp: ex_nodes_def)
  from NodePool_leaks [OF this] obtain h' pool where "push_all ex_nodes NodePool_new [1, 2, 3, 4] = Inr (h', pool)"
      "pool_size pool = 4" "chain h' (rhead pool) [1, 4]"
      "\<forall>n. 2 < n \<and> n < 4 \<longrightarrow> NodePool_resize h' pool n = Inl (Fault NullDeref)" by auto
  moreover have "NodePool_resize h' pool 3 = Inl (Fault NullDeref)" using calculation(4) by simp
  ultimately show ?thesis by blast
qed

text \<open>
  C19: when \<open>k\<close> threads take a node each from a pool that is not empty, one of them can run into
  the null pointer exactly if there are more threads than nodes: the test for an empty pool is made before the lock
  is taken, and nothing tests again.
\<close>

theorem NodePool_pop_threads:
  assumes "chain h (rhead pool) xs" "xs \<noteq> []"
  shows "(\<exists>pool' ts e. (pop_step h)\<^sup>*\<^sup>* (pool, replicate k Testing) (pool', ts) \<and> Crashed e \<in> set ts) \<longleftrightarrow> length xs < k"
proof
  assume "\<exists>pool' ts e. (pop_step h)\<^sup>*\<^sup>* (pool, replicate k Testing) (pool', ts) \<and> Crashed e \<in> set ts"
  then obtain pool' ts e where r: "(pop_step h)\<^sup>*\<^sup>* (pool, replicate k Testing) (pool', ts)" "Crashed e \<in> set ts" by blast
  show "length xs < k"
  proof (rule ccontr)
    assume "\<not> length xs < k"
    then have "pop_safe h (pool, replicate k Testing)" using assms(1) by (auto simp: pop_safe_def wants_def)
    with pop_steps_safe [OF r(1)] r(2) show False by (auto simp: pop_safe_def)
  qed
next
  assume "length xs < k"
  then obtain j where "k = Suc (length xs) + j" by (metis less_iff_Suc_add add_Suc)
  then have k: "replicate k Entering = [] @ replicate (Suc (length xs)) Entering @ replicate j Entering"
    by (simp only: replicate_add append_Nil)
  obtain s where "(pop_step h)\<^sup>*\<^sup>* (pool, replicate k Entering) s" "Crashed (Fault NullDeref) \<in> set (snd s)"
    using enter_until_empty [OF assms(1), of "[]"] unfolding k by blast
  moreover have "(pop_step h)\<^sup>*\<^sup>* (pool, replicate k Testing) (pool, replicate k Entering)"
    using test_all [of pool h "[]"] assms by (cases xs) auto
  ultimately show "\<exists>pool' ts e. (pop_step h)\<^sup>*\<^sup>* (pool, replicate k Testing) (pool', ts) \<and> Crashed e \<in> set ts"
    by (metis rtranclp_trans prod.collapse)
qed

theorem NodePool_pop_threads_witness:
  "\<exists>pool' ts e. (pop_step ex_nodes)\<^sup>*\<^sup>* (\<lparr>pool_size = 1, rhead = 1, rtail = 1\<rparr>, replicate 2 Testing) (pool', ts) \<and> Crashed e \<in> set ts"
  using NodePool_pop_threads [of ex_nodes "\<lparr>pool_size = 1, rhead = 1, rtail = 1\<rparr>" "[1]" 2] by (simp add: ex_nodes_def)

end
