(* ===== verification/Rcv_Stream.thy ===== *)
theory Rcv_Stream
  imports Node_Pool "HOL-Library.Signed_Division"
begin

text \<open>
  The receiving end of a file stream (\<^verbatim>\<open>src/ALTUS/fileReceiveStream.h\<close>, \<^verbatim>\<open>fileReceiveStream.cpp\<close>): packets are put
  into a chain of nodes, the first of which is flushed to a temporary file when it is full; packets that arrive early
  are recorded in a vector of blocks.

  The state is the record of the object, the heap of nodes and the pool.  The system calls are arguments: \<open>created\<close>
  says whether the temporary file could be made, \<open>cap\<close> is the capacity \<^verbatim>\<open>reserve(8)\<close> gave the vector, and
  \<open>WriteFile\<close> maps the content of the file and the bytes to be written to the number of bytes written and the new
  content.
\<close>

datatype UBM = UBM_FULL | UBM_MALICIOUS | UBM_OVERLAP | UBM_EXTENDED | UBM_ADDED | UBM_ONSEQ | UBM_MERGING

type_synonym blocks = "(u32 \<times> u32) list"
type_synonym write_file = "u8 list \<Rightarrow> u8 list \<Rightarrow> nat \<times> u8 list"

record FileRcvStream =
  fr_lastSeq :: u32
  fr_unSeqLen :: u32
  fr_file :: "u8 list"
  fr_head :: addr
  fr_tail :: addr
  fr_nodeCount :: int
  fr_max_nodeCount :: int
  fr_headSeq :: u32
  fr_headByteCount :: u16
  fr_ub_list :: blocks
  fr_capacity :: nat

type_synonym frs = "nheap \<times> NodePool \<times> FileRcvStream"

section \<open>Nodes\<close>

text \<open>\<^verbatim>\<open>pool->pop()\<close>, or \<^verbatim>\<open>new Node\<close> when the pool is empty.\<close>

definition pop_or_new :: "nheap \<Rightarrow> NodePool \<Rightarrow> (addr \<times> nheap \<times> NodePool) cres" where
  "pop_or_new h pool =
     rbind (NodePool_pop h pool) (\<lambda>(a, pool).
     if a = 0 then rbind (new_Node h) (\<lambda>(a, h). Inr (a, h, pool)) else Inr (a, h, pool))"

text \<open>The macro \<^verbatim>\<open>NewNode()\<close>: the new node is linked behind \<^verbatim>\<open>tail\<close>; \<^verbatim>\<open>tail\<close> itself stays.\<close>

definition NewNode :: "frs \<Rightarrow> frs cres" where
  "NewNode = (\<lambda>(h, pool, st).
     rbind (cderef h (fr_tail st)) (\<lambda>_.
     rbind (pop_or_new h pool) (\<lambda>(a, h, pool).
     rbind (cupd h (fr_tail st) (\<lambda>n. n\<lparr>ntail := a\<rparr>)) (\<lambda>h.
     Inr (h, pool, st\<lparr>fr_nodeCount := fr_nodeCount st + 1\<rparr>)))))"

text \<open>\<^verbatim>\<open>memcpy(node->data + off, data + pos, n)\<close>.\<close>

definition memcpy_c :: "nheap \<Rightarrow> addr \<Rightarrow> int \<Rightarrow> u8 list \<Rightarrow> nat \<Rightarrow> nat \<Rightarrow> nheap cres" where
  "memcpy_c h a off data pos n =
     (if off < 0 \<or> int ALTUS_NODE_SIZE < off + int n \<or> length data < pos + n then Inl (Fault OutOfBounds)
      else cupd h a (\<lambda>nd. nd\<lparr>nbytes := blit (nbytes nd) (nat off) (take n (drop pos data))\<rparr>))"

definition FileRcvStream_new :: "bool \<Rightarrow> nat \<Rightarrow> nheap \<Rightarrow> NodePool \<Rightarrow> frs cres" where
  "FileRcvStream_new created cap h pool =
     rbind (pop_or_new h pool) (\<lambda>(a, h, pool).
     if \<not> created then Inl (RuntimeError ''temp file creation failed'')
     else Inr (h, pool,
       \<lparr>fr_lastSeq = 0, fr_unSeqLen = 0, fr_file = [], fr_head = a, fr_tail = a, fr_nodeCount = 0,
        fr_max_nodeCount = 16384, fr_headSeq = 0, fr_headByteCount = 0, fr_ub_list = [], fr_capacity = cap\<rparr>))"

fun push_chain :: "nat \<Rightarrow> nheap \<Rightarrow> NodePool \<Rightarrow> addr \<Rightarrow> (nheap \<times> NodePool) cres" where
  "push_chain 0 h pool currentNode = Inl (Fault OutOfFuel)"
| "push_chain (Suc fuel) h pool currentNode =
     (if currentNode = 0 then Inr (h, pool)
      else rbind (cderef h currentNode) (\<lambda>nd.
           rbind (NodePool_push h pool currentNode) (\<lambda>(h, pool).
           push_chain fuel h pool (ntail nd))))"

definition FileRcvStream_delete :: "frs \<Rightarrow> (nheap \<times> NodePool) cres" where
  "FileRcvStream_delete = (\<lambda>(h, pool, st). push_chain (cbrk h + 1) h pool (fr_head st))"

section \<open>Writing to the file\<close>

definition write_node :: "write_file \<Rightarrow> frs \<Rightarrow> nat \<Rightarrow> FileRcvStream cres" where
  "write_node WriteFile = (\<lambda>(h, pool, st) n.
     rbind (cderef h (fr_head st)) (\<lambda>nd.
     let (wrtLen, f) = WriteFile (fr_file st) (map (nbytes nd) [0..<n]) in
     if wrtLen \<noteq> n then Inl (RuntimeError ''file writing failed(2)'') else Inr (st\<lparr>fr_file := f\<rparr>)))"

definition Finalize :: "write_file \<Rightarrow> frs \<Rightarrow> frs cres" where
  "Finalize WriteFile = (\<lambda>(h, pool, st).
     rbind (cderef h (fr_head st)) (\<lambda>nd.
     if ntail nd \<noteq> 0 then Inl (RuntimeError ''cannot finalize stream: incomplete data'')
     else rbind (write_node WriteFile (h, pool, st) (unat (fr_headByteCount st))) (\<lambda>st. Inr (h, pool, st))))"

definition FlushNode :: "write_file \<Rightarrow> frs \<Rightarrow> frs cres" where
  "FlushNode WriteFile = (\<lambda>(h, pool, st).
     rbind (write_node WriteFile (h, pool, st) ALTUS_NODE_SIZE) (\<lambda>st.
     if fr_head st = fr_tail st then
       Inr (h, pool, st\<lparr>fr_headSeq := fr_headSeq st + 4096, fr_headByteCount := 0\<rparr>)
     else
       let oldHead = fr_head st in
       rbind (cderef h oldHead) (\<lambda>nd.
       let st = st\<lparr>fr_head := ntail nd, fr_nodeCount := fr_nodeCount st - 1\<rparr> in
       rbind (NodePool_push h pool oldHead) (\<lambda>(h, pool).
       Inr (h, pool, st\<lparr>fr_headSeq := fr_headSeq st + 4096\<rparr>)))))"

section \<open>Early packets\<close>

text \<open>
  The loop of \<^verbatim>\<open>CheckUB\<close> over the blocks that are left; \<open>n\<close> is the size of the whole vector.  The test on line 241 has
  its parenthesis in the wrong place: it asks whether the unsigned difference is above 0, that is, not 0.
\<close>

definition too_far :: "u32 \<Rightarrow> u32 \<Rightarrow> bool" where
  "too_far headSeq end' \<longleftrightarrow> end' - headSeq \<ge> 16384 * 4096"

fun CheckUB_loop :: "nat \<Rightarrow> nat \<Rightarrow> u32 \<Rightarrow> u32 \<Rightarrow> u32 \<Rightarrow> blocks \<Rightarrow> UBM \<times> blocks" where
  "CheckUB_loop cap n headSeq seq len [] =
     (if n < cap then
        if too_far headSeq (seq + len) then (UBM_FULL, []) else (UBM_ADDED, [(seq, seq + len)])
      else (UBM_FULL, []))"
| "CheckUB_loop cap n headSeq seq len ((currentHS, currentTS) # rest) =
     (if sgt0 (currentHS - seq) then
        if sgt0 (currentHS - (seq + len)) then
          if n < cap then (UBM_ADDED, (seq, seq + len) # (currentHS, currentTS) # rest)
          else (UBM_FULL, (currentHS, currentTS) # rest)
        else if seq + len = currentHS then (UBM_EXTENDED, (seq, currentTS) # rest)
        else (UBM_MALICIOUS, (currentHS, currentTS) # rest)
      else if sgt0 (currentTS - seq) then
        if \<not> sint (currentTS - (seq + len)) < 0 then (UBM_OVERLAP, (currentHS, currentTS) # rest)
        else (UBM_MALICIOUS, (currentHS, currentTS) # rest)
      else if seq = currentTS then
        if rest = [] \<or> fst (hd rest) - (seq + len) > 0 then
          if too_far headSeq (seq + len) then (UBM_FULL, (currentHS, currentTS) # rest)
          else (UBM_EXTENDED, (currentHS, seq + len) # rest)
        else if fst (hd rest) = seq + len then (UBM_EXTENDED, (currentHS, snd (hd rest)) # tl rest)
        else (UBM_MALICIOUS, (currentHS, currentTS) # rest)
      else
        let (r, rest') = CheckUB_loop cap n headSeq seq len rest in (r, (currentHS, currentTS) # rest'))"

definition CheckUB :: "FileRcvStream \<Rightarrow> u32 \<Rightarrow> u32 \<Rightarrow> UBM \<times> FileRcvStream" where
  "CheckUB st seq len =
     (if seq = fr_lastSeq st then
        case fr_ub_list st of
          [] \<Rightarrow> (UBM_ONSEQ, st)
        | (front, _) # _ \<Rightarrow>
            if sgt0 (front - (seq + len)) then (UBM_ONSEQ, st)
            else if front = seq + len then (UBM_MERGING, st)
            else (UBM_MALICIOUS, st)
      else
        let (r, bs) = CheckUB_loop (fr_capacity st) (length (fr_ub_list st)) (fr_headSeq st) seq len (fr_ub_list st)
        in (r, st\<lparr>fr_ub_list := bs\<rparr>))"

text \<open>\<^verbatim>\<open>PutUnSeq\<close>: find the node, then copy into it and the next one.\<close>

fun node_loop :: "nat \<Rightarrow> frs \<Rightarrow> addr \<Rightarrow> int \<Rightarrow> (frs \<times> addr \<times> int) cres" where
  "node_loop 0 s targetNode i = Inl (Fault OutOfFuel)"
| "node_loop (Suc fuel) s targetNode i =
     (if i \<ge> int ALTUS_NODE_SIZE then
        rbind (cderef (fst s) targetNode) (\<lambda>nd.
        rbind (if ntail nd = 0 then NewNode s else Inr s) (\<lambda>s.
        rbind (cderef (fst s) targetNode) (\<lambda>nd.
        node_loop fuel s (ntail nd) (i - int ALTUS_NODE_SIZE))))
      else Inr (s, targetNode, i))"

definition PutUnSeq :: "frs \<Rightarrow> u32 \<Rightarrow> u32 \<Rightarrow> u8 list \<Rightarrow> frs cres" where
  "PutUnSeq = (\<lambda>(h, pool, st) seq len data.
     let i = sint (seq - fr_headSeq st) in
     rbind (node_loop (nat i div ALTUS_NODE_SIZE + 1) (h, pool, st) (fr_head st) i) (\<lambda>((h, pool, st), targetNode, i).
     let writableLen = (word_of_int (4096 - i) :: u32) in
     if writableLen \<ge> len then
       rbind (memcpy_c h targetNode i data 0 (unat len)) (\<lambda>h. Inr (h, pool, st))
     else
       rbind (memcpy_c h targetNode i data 0 (unat writableLen)) (\<lambda>h.
       rbind (cderef h targetNode) (\<lambda>nd.
       rbind (if ntail nd = 0 then NewNode (h, pool, st) else Inr (h, pool, st)) (\<lambda>(h, pool, st).
       rbind (cderef h targetNode) (\<lambda>nd.
       rbind (memcpy_c h (ntail nd) 0 data (unat writableLen) (unat (len - writableLen))) (\<lambda>h.
       Inr (h, pool, st))))))))"

section \<open>A packet\<close>

text \<open>\<^verbatim>\<open>for (; mergeLength < ALTUS_NODE_SIZE; mergeLength -= ALTUS_NODE_SIZE) FlushNode();\<close>\<close>

function merge_loop :: "write_file \<Rightarrow> int \<Rightarrow> frs \<Rightarrow> frs cres" where
  "merge_loop WriteFile mergeLength s =
     (if mergeLength < 4096 then
        rbind (FlushNode WriteFile s) (\<lambda>s.
        if mergeLength - 4096 < - (2 ^ 31) then Inl SignedOverflow
        else merge_loop WriteFile (mergeLength - 4096) s)
      else Inr s)"
  by auto
termination by (relation "measure (\<lambda>(_, m, _). nat (m + 2 ^ 31))") auto

declare merge_loop.simps [simp del]

definition append_onseq :: "write_file \<Rightarrow> frs \<Rightarrow> u32 \<Rightarrow> u8 list \<Rightarrow> (int \<times> frs) cres" where
  "append_onseq WriteFile = (\<lambda>(h, pool, st) len data.
     let writableLen = (4096 - ucast (fr_headByteCount st) :: u32);
         off = uint (fr_headByteCount st) in
     if writableLen \<ge> len then
       rbind (memcpy_c h (fr_head st) off data 0 (unat len)) (\<lambda>h.
       Inr (0, h, pool, st\<lparr>fr_lastSeq := fr_lastSeq st + len, fr_headByteCount := fr_headByteCount st + ucast len\<rparr>))
     else
       rbind (memcpy_c h (fr_head st) off data 0 (unat writableLen)) (\<lambda>h.
       rbind (if fr_head st = fr_tail st then NewNode (h, pool, st) else Inr (h, pool, st)) (\<lambda>(h, pool, st).
       rbind (cderef h (fr_head st)) (\<lambda>nd.
       rbind (memcpy_c h (ntail nd) 0 data (unat writableLen) (unat (len - writableLen))) (\<lambda>h.
       let st = st\<lparr>fr_headByteCount := ucast (ucast (fr_headByteCount st) + len - 4096 :: u32)\<rparr> in
       rbind (FlushNode WriteFile (h, pool, st)) (\<lambda>s. Inr (0, s)))))))"

definition append_merging :: "write_file \<Rightarrow> frs \<Rightarrow> u32 \<Rightarrow> u8 list \<Rightarrow> (int \<times> frs) cres" where
  "append_merging WriteFile = (\<lambda>(h, pool, st) len data.
     let front = hd (fr_ub_list st);
         mergeLength = sint (len + snd front - fst front);
         writableLen = (4096 - ucast (fr_headByteCount st) :: u32);
         off = uint (fr_headByteCount st) in
     rbind (if writableLen \<ge> len then memcpy_c h (fr_head st) off data 0 (unat len)
            else rbind (memcpy_c h (fr_head st) off data 0 (unat writableLen)) (\<lambda>h.
                 rbind (cderef h (fr_head st)) (\<lambda>nd.
                 memcpy_c h (ntail nd) 0 data (unat writableLen) (unat (len - writableLen))))) (\<lambda>h.
     if off + mergeLength \<ge> 2 ^ 31 then Inl SignedOverflow
     else
     let st = st\<lparr>fr_headByteCount := word_of_int ((off + mergeLength) smod 4096),
                fr_lastSeq := fr_lastSeq st + word_of_int mergeLength\<rparr> in
     rbind (merge_loop WriteFile mergeLength (h, pool, st)) (\<lambda>s. Inr (0, s))))"

definition Append :: "write_file \<Rightarrow> frs \<Rightarrow> u32 \<Rightarrow> u32 \<Rightarrow> u8 list \<Rightarrow> (int \<times> frs) cres" where
  "Append WriteFile = (\<lambda>(h, pool, st) seq len data.
     if sgt0 (fr_lastSeq st - seq) then Inr (-1, h, pool, st)
     else
       let (message, st) = CheckUB st seq len;
           st = st\<lparr>fr_unSeqLen := (case fr_ub_list st of [] \<Rightarrow> 0 | front # _ \<Rightarrow> fst front - fr_lastSeq st)\<rparr> in
       case message of
         UBM_FULL \<Rightarrow> Inr (-2, h, pool, st)
       | UBM_MALICIOUS \<Rightarrow> Inl (RuntimeError ''malicious packet'')
       | UBM_OVERLAP \<Rightarrow> Inr (-1, h, pool, st)
       | UBM_EXTENDED \<Rightarrow> rbind (PutUnSeq (h, pool, st) seq len data) (\<lambda>s. Inr (1, s))
       | UBM_ADDED \<Rightarrow> rbind (PutUnSeq (h, pool, st) seq len data) (\<lambda>s. Inr (1, s))
       | UBM_ONSEQ \<Rightarrow> append_onseq WriteFile (h, pool, st) len data
       | UBM_MERGING \<Rightarrow> append_merging WriteFile (h, pool, st) len data)"

end
