(* ===== verification/Bytes.thy ===== *)
theory Bytes
  imports Prelude
begin

text \<open>
  Byte buffers as the ciphers use them.  A buffer is a list of bytes.  \<open>load_le\<close> and \<open>store_le\<close> read and
  write a \<^verbatim>\<open>size_t\<close> of a 64-bit little-endian machine, \<open>load_be\<close> and \<open>store_be\<close> are the
  big-endian forms, which the 32-bit loads of the ciphers use as well.  The lemmas say that the loads and
  stores are inverse and turn a bitwise operation on the word into the operation on the bytes, so a loop that
  works on words does what the loop over the bytes does.
\<close>

unbundle bit_operations_syntax

named_theorems byte_simps \<open>loads and stores of words\<close>

section \<open>Loads and stores\<close>

fun load_le :: "u8 list \<Rightarrow> 'a::len word" where
  "load_le [] = 0"
| "load_le (b # bs) = ucast b OR push_bit 8 (load_le bs)"

fun store_le :: "nat \<Rightarrow> 'a::len word \<Rightarrow> u8 list" where
  "store_le 0 w = []"
| "store_le (Suc n) w = ucast w # store_le n (drop_bit 8 w)"

definition load_be :: "u8 list \<Rightarrow> 'a::len word" where
  "load_be bs = load_le (rev bs)"

definition store_be :: "nat \<Rightarrow> 'a::len word \<Rightarrow> u8 list" where
  "store_be n w = rev (store_le n w)"

lemma length_store_le [simp]: "length (store_le n w) = n"
  by (induction n arbitrary: w) simp_all

lemma length_store_be [simp]: "length (store_be n w) = n"
  by (simp add: store_be_def)

lemma bit_load_le:
  "bit (load_le bs :: 'a::len word) i \<longleftrightarrow> i < LENGTH('a) \<and> i div 8 < length bs \<and> bit (bs ! (i div 8)) (i mod 8)"
proof (induction bs arbitrary: i)
  case (Cons b bs)
  show ?case
  proof (cases "i < 8")
    case True
    then show ?thesis by (auto simp: bit_simps)
  next
    case False
    then have "i div 8 = Suc ((i - 8) div 8)" "i mod 8 = (i - 8) mod 8"
      by (simp_all add: le_div_geq le_mod_geq)
    with False show ?thesis by (auto simp: bit_simps Cons.IH dest: bit_imp_le_length)
  qed
qed simp

lemma nth_store_le:
  "k < n \<Longrightarrow> store_le n w ! k = ucast (drop_bit (8 * k) w)"
proof (induction n arbitrary: w k)
  case (Suc n)
  then show ?case by (cases k) (simp_all add: drop_bit_drop_bit add.commute)
qed simp

lemma store_load_le [byte_simps]:
  assumes "length bs = n" "8 * n \<le> LENGTH('a)"
  shows "store_le n (load_le bs :: 'a::len word) = bs"
proof (rule nth_equalityI)
  fix k assume k: "k < length (store_le n (load_le bs :: 'a word))"
  then have "bit (store_le n (load_le bs :: 'a word) ! k) i \<longleftrightarrow> bit (bs ! k) i" if "i < 8" for i
    using that assms by (simp add: nth_store_le bit_simps bit_load_le)
  then show "store_le n (load_le bs :: 'a word) ! k = bs ! k"
    by (auto intro!: bit_word_eqI)
qed (use assms in simp)

lemma load_store_le [byte_simps]:
  assumes "8 * n = LENGTH('a)"
  shows "load_le (store_le n w) = (w :: 'a::len word)"
proof (rule bit_word_eqI)
  fix i assume "i < LENGTH('a)"
  with assms show "bit (load_le (store_le n w) :: 'a word) i \<longleftrightarrow> bit w i"
    by (simp add: bit_load_le nth_store_le bit_simps less_mult_imp_div_less mult.commute)
qed

lemma load_le_xor:
  assumes "length a = length b"
  shows "(load_le a XOR load_le b :: 'a::len word) = load_le (map2 (XOR) a b)"
  using assms by (intro bit_word_eqI) (auto simp: bit_simps bit_load_le)

lemma store_load_be [byte_simps]:
  "length bs = n \<Longrightarrow> 8 * n \<le> LENGTH('a) \<Longrightarrow> store_be n (load_be bs :: 'a::len word) = bs"
  by (simp add: store_be_def load_be_def store_load_le)

lemma load_store_be [byte_simps]:
  "8 * n = LENGTH('a) \<Longrightarrow> load_be (store_be n w) = (w :: 'a::len word)"
  by (simp add: store_be_def load_be_def load_store_le)

lemma load_be_xor:
  "length a = length b \<Longrightarrow> (load_be a XOR load_be b :: 'a::len word) = load_be (map2 (XOR) a b)"
  by (simp add: load_be_def load_le_xor zip_rev rev_map)

section \<open>Exclusive or of buffers\<close>

abbreviation xorl :: "u8 list \<Rightarrow> u8 list \<Rightarrow> u8 list" where
  "xorl a b \<equiv> map2 (XOR) a b"

lemma xor_cancel [simp]:
  "(a XOR b) XOR b = (a :: 'a::len word)" "b XOR (b XOR a) = a" "b XOR (a XOR b) = a" "(b XOR a) XOR b = a"
  by (simp_all add: bit_eq_iff bit_simps) blast+

lemma xorl_cancel [simp]:
  "length a = length b \<Longrightarrow> xorl (xorl a b) b = a" "length a = length b \<Longrightarrow> xorl b (xorl a b) = a"
  "length a = length b \<Longrightarrow> xorl (xorl b a) b = a" "length a = length b \<Longrightarrow> xorl b (xorl b a) = a"
  by (auto intro!: nth_equalityI)

lemma xorl_commute: "xorl a b = xorl b a"
  by (rule nth_equalityI) (simp_all add: xor.commute)

lemma xorl_take: "length a \<le> n \<Longrightarrow> xorl a (take n b) = xorl a b"
  by (rule nth_equalityI) simp_all

text \<open>A 16-byte block handled as two 64-bit words, \<^verbatim>\<open>for (n = 0; n < 16; n += sizeof(size_t))\<close>.\<close>

definition words16 :: "(u64 \<Rightarrow> u64 \<Rightarrow> u64) \<Rightarrow> u8 list \<Rightarrow> u8 list \<Rightarrow> u8 list" where
  "words16 f a b = concat (map (\<lambda>n. store_le 8 (f (load_le (take 8 (drop n a))) (load_le (take 8 (drop n b))))) [0, 8])"

text \<open>The same block handled byte by byte, \<^verbatim>\<open>for (n = 0; n < 16; ++n)\<close>.\<close>

definition bytes16 :: "(u8 \<Rightarrow> u8 \<Rightarrow> u8) \<Rightarrow> u8 list \<Rightarrow> u8 list \<Rightarrow> u8 list" where
  "bytes16 f a b = map (\<lambda>n. f (a ! n) (b ! n)) [0..<16]"

lemma length_bytes16 [simp]: "length (bytes16 f a b) = 16"
  by (simp add: bytes16_def)

lemma length_words16 [simp]: "length (words16 f a b) = 16"
  by (simp add: words16_def)

lemma words16_xor [byte_simps]:
  assumes "length a = 16" "length b = 16"
  shows "words16 (XOR) a b = xorl a b"
proof -
  have e: "store_le 8 (load_le (take 8 (drop n a)) XOR load_le (take 8 (drop n b)) :: u64) = take 8 (drop n (xorl a b))"
    if "n \<le> 8" for n
    using assms that by (simp add: load_le_xor byte_simps take_map drop_map take_zip drop_zip)
  have "words16 (XOR) a b = take 8 (xorl a b) @ take 8 (drop 8 (xorl a b))"
    unfolding words16_def using e [of 0] e [of 8] by simp
  also have "take 8 (drop 8 (xorl a b)) = drop 8 (xorl a b)"
    using assms by simp
  finally show ?thesis by simp
qed

lemma words16_copy [byte_simps]:
  assumes "length b = 16" shows "words16 (\<lambda>_ t. t) a b = b"
proof -
  have "take 8 b @ drop 8 b = b" by simp
  then show ?thesis using assms by (simp add: words16_def byte_simps)
qed

lemma bytes16_eq [byte_simps]:
  "length a = 16 \<Longrightarrow> length b = 16 \<Longrightarrow> bytes16 f a b = map2 f a b"
  by (auto simp: bytes16_def intro!: nth_equalityI)

section \<open>The number a buffer stands for\<close>

fun le_nat :: "u8 list \<Rightarrow> nat" where
  "le_nat [] = 0"
| "le_nat (b # bs) = unat b + 256 * le_nat bs"

definition be_nat :: "u8 list \<Rightarrow> nat" where
  "be_nat bs = le_nat (rev bs)"

lemma unat_u8_lt [simp]: "unat (b :: u8) < 256"
  using unsigned_less [of b] by simp

lemma le_nat_append: "le_nat (a @ b) = le_nat a + 256 ^ length a * le_nat b"
  by (induction a) (simp_all add: algebra_simps)

lemma le_nat_lt: "le_nat bs < 256 ^ length bs"
proof (induction bs)
  case (Cons b bs)
  have "unat b < 256" "Suc (le_nat bs) \<le> 256 ^ length bs" using Cons by simp_all
  then have "unat b + 256 * le_nat bs < 256 * 256 ^ length bs" by linarith
  then show ?case by simp
qed simp

lemma le_nat_inject: "length a = length b \<Longrightarrow> le_nat a = le_nat b \<longleftrightarrow> a = b"
proof (induction a b rule: list_induct2)
  case (Cons x a y b)
  have "(unat x + 256 * le_nat a) mod 256 = unat x" "(unat x + 256 * le_nat a) div 256 = le_nat a"
    "(unat y + 256 * le_nat b) mod 256 = unat y" "(unat y + 256 * le_nat b) div 256 = le_nat b"
    by (simp_all add: div_mult_self2)
  then have "unat x + 256 * le_nat a = unat y + 256 * le_nat b \<longleftrightarrow> unat x = unat y \<and> le_nat a = le_nat b"
    by metis
  with Cons show ?case by (simp add: word_unat_eq_iff)
qed simp

lemma load_le_nat: "load_le bs = (of_nat (le_nat bs) :: 'a::len word)"
proof (induction bs)
  case (Cons b bs)
  have "(ucast b OR push_bit 8 (load_le bs) :: 'a word) = ucast b + push_bit 8 (load_le bs)"
    by (rule disjunctive_add [symmetric]) (auto simp: bit_simps dest: bit_imp_le_length)
  then show ?case by (simp add: Cons push_bit_eq_mult)
qed simp

lemma be_nat_Nil [simp]: "be_nat [] = 0" by (simp add: be_nat_def)

lemma be_nat_snoc: "be_nat (bs @ [b]) = 256 * be_nat bs + unat b"
  by (simp add: be_nat_def)

lemma be_nat_append: "be_nat (a @ b) = be_nat a * 256 ^ length b + be_nat b"
  by (simp add: be_nat_def le_nat_append)

lemma be_nat_lt: "be_nat bs < 256 ^ length bs"
  using le_nat_lt [of "rev bs"] by (simp add: be_nat_def)

lemma be_nat_inject: "length a = length b \<Longrightarrow> be_nat a = be_nat b \<longleftrightarrow> a = b"
  using le_nat_inject [of "rev a" "rev b"] by (simp add: be_nat_def)

lemma load_be_nat: "load_be bs = (of_nat (be_nat bs) :: 'a::len word)"
  by (simp add: load_be_def be_nat_def load_le_nat)

lemma unat_load_be:
  assumes "8 * length bs \<le> LENGTH('a)"
  shows "unat (load_be bs :: 'a::len word) = be_nat bs"
proof -
  have "(256::nat) ^ length bs = 2 ^ (8 * length bs)" by (simp add: power_mult)
  also have "\<dots> \<le> 2 ^ LENGTH('a)" using assms by (rule power_increasing) simp
  finally have "be_nat bs < 2 ^ LENGTH('a)" using be_nat_lt [of bs] by linarith
  then show ?thesis by (simp add: load_be_nat unsigned_of_nat take_bit_nat_eq_self)
qed

lemma be_nat_store_be:
  assumes "8 * n = LENGTH('a)"
  shows "be_nat (store_be n w) = unat (w :: 'a::len word)"
  using unat_load_be [of "store_be n w", where 'a = 'a] assms by (simp add: load_store_be)

end
