(* ===== verification/Channel.thy ===== *)
theory Channel
  imports WQ_Rest Rcv_Stream Bytes
begin

text \<open>
  A channel (\<^verbatim>\<open>src/ALTUS/channel.h\<close>, \<^verbatim>\<open>channel.cpp\<close>): one direction of a stream or a shared struct between two hosts.
  Its union of pointers is \<open>storage\<close>, which also says what the pointer was last set to; using it as something else is a
  fault.  The memory all channels share is \<open>mem\<close>; what the system decides is \<open>sysenv\<close>: whether the temporary file could
  be made, the capacity of a fresh vector, \<^verbatim>\<open>WriteFile\<close>, and what freshly allocated windows and channels contain.

  Packets are lists of bytes: \<open>buf\<close> is the whole receive buffer, of which the first \<open>packetSize\<close> bytes were received.
\<close>

datatype channelType =
    ch_invalid | shared_struct | rdt_stream | file_stream | lossy_stream
  | shared_struct_rcv | rdt_stream_rcv | file_stream_rcv | lossy_stream_rcv

datatype storage =
    Dangling                     \<comment> \<open>not set, or null\<close>
  | FileStream FileRcvStream     \<comment> \<open>frstream\<close>
  | Window addr WQ_Window        \<comment> \<open>buffer\<close>
  | Struct "u8 list"             \<comment> \<open>storage\<close>

record channel =
  ch_type :: channelType
  ch_IsReceiving :: bool
  ch_NextSendSeq :: u32
  ch_lastAckedSeq :: u32
  ch_lastLostLen :: u16
  ch_IsUpdated :: bool
  ch_storage :: storage
  ch_storage_size :: int

record sysenv =
  os_created :: bool
  os_capacity :: nat
  os_WriteFile :: write_file
  os_window :: WQ_Window
  os_channel :: channel

record mem =
  m_heap :: heap
  m_pool :: WQ_Node_Pool
  m_nodes :: nheap
  m_npool :: NodePool

abbreviation (input) ALTUS_PACKET_SIZE :: nat where "ALTUS_PACKET_SIZE \<equiv> 496"
abbreviation (input) ALTUS_RDT_HEADER_SIZE :: nat where "ALTUS_RDT_HEADER_SIZE \<equiv> 8"
abbreviation (input) ALTUS_RDT_DATA_SIZE :: nat where "ALTUS_RDT_DATA_SIZE \<equiv> 488"
abbreviation (input) ALTUS_FLAG_ACK :: u8 where "ALTUS_FLAG_ACK \<equiv> 1"

definition lift_fault :: "'a res \<Rightarrow> 'a cres" where
  "lift_fault r = (case r of Inl f \<Rightarrow> Inl (Fault f) | Inr x \<Rightarrow> Inr x)"

lemma lift_fault_simps [simp]: "lift_fault (Inl f) = Inl (Fault f)" "lift_fault (Inr x) = Inr x"
  by (simp_all add: lift_fault_def)

definition buffer_of :: "channel \<Rightarrow> (addr \<times> WQ_Window) cres" where
  "buffer_of ch = (case ch_storage ch of Window a w \<Rightarrow> Inr (a, w) | _ \<Rightarrow> Inl (Fault UseAfterFree))"

section \<open>Construction\<close>

definition channel_new :: "sysenv \<Rightarrow> bool \<Rightarrow> channel" where
  "channel_new env IsReceiver = (os_channel env)
     \<lparr>ch_IsReceiving := IsReceiver, ch_type := ch_invalid, ch_NextSendSeq := 0, ch_lastLostLen := 0, ch_IsUpdated := False,
      ch_storage := Dangling, ch_storage_size := 0\<rparr>"

definition new_window :: "sysenv \<Rightarrow> mem \<Rightarrow> (addr \<times> WQ_Window \<times> mem) cres" where
  "new_window env m =
     rbind (lift_fault (altusNewWindow (m_heap m) (os_window env))) (\<lambda>(h, a, w). Inr (a, w, m\<lparr>m_heap := h\<rparr>))"

text \<open>The constructor that takes a type; for some types it sets nothing.\<close>

definition channel_new_typed :: "sysenv \<Rightarrow> mem \<Rightarrow> channelType \<Rightarrow> u8 list \<Rightarrow> int \<Rightarrow> (channel \<times> mem) cres" where
  "channel_new_typed env m type arg n =
     (let ch = (os_channel env)\<lparr>ch_type := type\<rparr>;
          fresh = (\<lambda>recv. ch\<lparr>ch_IsReceiving := recv, ch_NextSendSeq := 0, ch_lastAckedSeq := 0, ch_lastLostLen := 0, ch_IsUpdated := False\<rparr>)
      in case type of
           ch_invalid \<Rightarrow> Inl (InvalidArgument ''Invalid channel type'')
         | shared_struct \<Rightarrow> Inr ((fresh False)\<lparr>ch_storage := Struct arg, ch_storage_size := n\<rparr>, m)
         | rdt_stream \<Rightarrow>
             rbind (new_window env m) (\<lambda>(a, w, m). Inr ((fresh False)\<lparr>ch_storage := Window a w\<rparr>, m))
         | file_stream_rcv \<Rightarrow>
             rbind (FileRcvStream_new (os_created env) (os_capacity env) (m_nodes m) (m_npool m)) (\<lambda>(h, pool, st).
             Inr ((fresh True)\<lparr>ch_storage := FileStream st\<rparr>, m\<lparr>m_nodes := h, m_npool := pool\<rparr>))
         | _ \<Rightarrow> Inr (ch, m))"

definition LinkStruct :: "channel \<Rightarrow> u8 list \<Rightarrow> u8 \<Rightarrow> int \<times> channel" where
  "LinkStruct ch target len =
     (if ch_type ch \<noteq> ch_invalid then (-1, ch)
      else (0, ch\<lparr>ch_storage_size := uint len, ch_storage := Struct target, ch_type := shared_struct\<rparr>))"

definition LinkRDTWindow :: "sysenv \<Rightarrow> mem \<Rightarrow> channel \<Rightarrow> (channel \<times> mem) cres" where
  "LinkRDTWindow env m ch =
     rbind (new_window env m) (\<lambda>(a, w, m).
     Inr (ch\<lparr>ch_storage := Window a (w\<lparr>lastSeq := 0, headSeq := 0\<rparr>), ch_type := rdt_stream\<rparr>, m))"

definition LinkLossyWindow :: "sysenv \<Rightarrow> mem \<Rightarrow> channel \<Rightarrow> (channel \<times> mem) cres" where
  "LinkLossyWindow env m ch =
     rbind (new_window env m) (\<lambda>(a, w, m).
     Inr (ch\<lparr>ch_storage := Window a (w\<lparr>lastSeq := 0, headSeq := 0\<rparr>), ch_type := lossy_stream\<rparr>, m))"

definition free_buffer :: "mem \<Rightarrow> channel \<Rightarrow> mem cres" where
  "free_buffer m ch =
     rbind (buffer_of ch) (\<lambda>(a, w).
     rbind (lift_fault (altusFreeWQ (m_heap m) a w)) (\<lambda>h. Inr (m\<lparr>m_heap := h\<rparr>)))"

definition channel_delete :: "mem \<Rightarrow> channel \<Rightarrow> mem cres" where
  "channel_delete m ch =
     (case ch_type ch of
        rdt_stream \<Rightarrow> free_buffer m ch
      | rdt_stream_rcv \<Rightarrow> free_buffer m ch
      | file_stream_rcv \<Rightarrow>
          (case ch_storage ch of
             FileStream st \<Rightarrow>
               rbind (FileRcvStream_delete (m_nodes m, m_npool m, st)) (\<lambda>(h, pool). Inr (m\<lparr>m_nodes := h, m_npool := pool\<rparr>))
           | _ \<Rightarrow> Inl (Fault UseAfterFree))
      | _ \<Rightarrow> Inr m)"

section \<open>Packets\<close>

text \<open>\<^verbatim>\<open>altusWQPut(buffer, pool, ...)\<close> on the buffer of a channel.\<close>

definition put_buffer :: "mem \<Rightarrow> channel \<Rightarrow> (WQ_Window \<Rightarrow> u32) \<Rightarrow> u32 \<Rightarrow> u8 list \<Rightarrow> (int \<times> mem \<times> channel) cres" where
  "put_buffer m ch seq len data =
     rbind (buffer_of ch) (\<lambda>(a, w).
     rbind (lift_fault (altusWQPut (m_heap m) w (m_pool m) (seq w) len data)) (\<lambda>(c, h, w, p).
     Inr (c, m\<lparr>m_heap := h, m_pool := p\<rparr>, ch\<lparr>ch_storage := Window a w\<rparr>)))"

text \<open>The two header fields in network byte order.\<close>

definition ntohl_at :: "u8 list \<Rightarrow> nat \<Rightarrow> u32" where
  "ntohl_at buf i = load_be (take 4 (drop i buf))"

definition ntohs_at :: "u8 list \<Rightarrow> nat \<Rightarrow> u16" where
  "ntohs_at buf i = load_be (take 2 (drop i buf))"

text \<open>\<^verbatim>\<open>packetSize - ALTUS_RDT_HEADER_SIZE - paddingLen\<close>, an \<^verbatim>\<open>int\<close> passed as \<^verbatim>\<open>unsigned int\<close>.\<close>

definition data_length :: "u8 list \<Rightarrow> int \<Rightarrow> u32" where
  "data_length buf packetSize = word_of_int (packetSize - 8 - uint (buf ! 2))"

definition receive_in :: "sysenv \<Rightarrow> mem \<Rightarrow> channel \<Rightarrow> u8 list \<Rightarrow> int \<Rightarrow> (int \<times> mem \<times> channel) cres" where
  "receive_in env m ch buf packetSize =
     (case ch_type ch of
        ch_invalid \<Rightarrow> Inr (-1, m, ch)
      | shared_struct \<Rightarrow>
          if packetSize < ch_storage_size ch then Inr (-1, m, ch)
          else
            (case ch_storage ch of
               Struct target \<Rightarrow>
                 let n = nat (ch_storage_size ch) in
                 if ch_storage_size ch < 0 \<or> length target < n \<or> length buf < n then Inl (Fault OutOfBounds)
                 else Inr (0, m, ch\<lparr>ch_storage := Struct (take n buf @ drop n target)\<rparr>)
             | _ \<Rightarrow> Inl (Fault UseAfterFree))
      | rdt_stream \<Rightarrow>
          rbind (put_buffer m ch (\<lambda>_. ntohl_at buf 4) (data_length buf packetSize) (drop 8 buf)) (\<lambda>(c, m, ch).
          Inr (if buf ! 3 OR ALTUS_FLAG_ACK \<noteq> 0 then 1 else 0, m, ch))
      | lossy_stream \<Rightarrow>
          rbind (put_buffer m ch lastSeq (word_of_int (drop_bit 4 packetSize)) buf) (\<lambda>(c, m, ch). Inr (0, m, ch))
      | file_stream_rcv \<Rightarrow>
          (case ch_storage ch of
             FileStream st \<Rightarrow>
               rbind (Append (os_WriteFile env) (m_nodes m, m_npool m, st) (ntohl_at buf 4) (data_length buf packetSize) (drop 8 buf))
                 (\<lambda>(c, h, pool, st). Inr (0, m\<lparr>m_nodes := h, m_npool := pool\<rparr>, ch\<lparr>ch_storage := FileStream st\<rparr>))
           | _ \<Rightarrow> Inl (Fault UseAfterFree))
      | _ \<Rightarrow> Inl (Fault ExitProgram))"

text \<open>An acknowledgement that arrives at the sending end; every path but the first returns -1.\<close>

definition receive_ack :: "mem \<Rightarrow> channel \<Rightarrow> u8 list \<Rightarrow> (int \<times> mem \<times> channel) cres" where
  "receive_ack m ch buf =
     (let LostLen = ntohs_at buf 2; Seq = ntohl_at buf 4; deltaSeq = sint (Seq - ch_lastAckedSeq ch) in
      if deltaSeq < 0 \<or> sint (ch_NextSendSeq ch - Seq) < 0 then Inr (0, m, ch)
      else if LostLen \<noteq> 0 then Inr (-1, m, ch)
      else
        rbind (buffer_of ch) (\<lambda>(a, w).
        rbind (lift_fault (altusWQPop (m_heap m) w (m_pool m) (word_of_int deltaSeq) None)) (\<lambda>(n, dest, h, w, p).
        Inr (-1, m\<lparr>m_heap := h, m_pool := p\<rparr>, ch\<lparr>ch_storage := Window a w\<rparr>))))"

definition receive :: "sysenv \<Rightarrow> mem \<Rightarrow> channel \<Rightarrow> u8 list \<Rightarrow> int \<Rightarrow> (int \<times> mem \<times> channel) cres" where
  "receive env m ch buf packetSize =
     (if ch_IsReceiving ch then receive_in env m ch buf packetSize
      else if ch_type ch = rdt_stream then receive_ack m ch buf
      else Inr (-1, m, ch))"

end
