(* ===== verification/Std_Map.thy ===== *)
theory Std_Map
  imports Prelude
begin

text \<open>
  \<^verbatim>\<open>std::map\<close> as the code uses it: an association list in the order of the keys, which is the order in which a range
  loop visits it.  \<^verbatim>\<open>insert\<close> does not replace an existing entry.  \<open>dictionary\<close> is the contract of such a map; its lemmas
  are what the peers and the host rely on when they hand out identifiers.
\<close>

type_synonym ('k, 'v) std_map = "('k \<times> 'v) list"

abbreviation std_find :: "('k, 'v) std_map \<Rightarrow> 'k \<Rightarrow> 'v option" where
  "std_find \<equiv> map_of"

fun std_insert :: "'k::linorder \<Rightarrow> 'v \<Rightarrow> ('k, 'v) std_map \<Rightarrow> ('k, 'v) std_map" where
  "std_insert k v [] = [(k, v)]"
| "std_insert k v ((k', v') # m) =
     (if k < k' then (k, v) # (k', v') # m else if k = k' then (k', v') # m else (k', v') # std_insert k v m)"

definition std_erase :: "'k \<Rightarrow> ('k, 'v) std_map \<Rightarrow> ('k, 'v) std_map" where
  "std_erase k m = filter (\<lambda>(k', _). k' \<noteq> k) m"

text \<open>Assignment through an iterator or a pointer found in the map.\<close>

definition std_update :: "'k \<Rightarrow> 'v \<Rightarrow> ('k, 'v) std_map \<Rightarrow> ('k, 'v) std_map" where
  "std_update k v m = map (\<lambda>(k', v'). if k' = k then (k', v) else (k', v')) m"

definition std_ok :: "('k::linorder, 'v) std_map \<Rightarrow> bool" where
  "std_ok m \<longleftrightarrow> sorted_wrt (<) (map fst m)"

section \<open>Laws\<close>

lemma std_find_None: "std_find m k = None \<longleftrightarrow> k \<notin> fst ` set m"
  by (fact map_of_eq_None_iff)

lemma std_okD: "std_ok m \<Longrightarrow> distinct (map fst m)"
  by (simp add: std_ok_def strict_sorted_iff)

lemma std_find_insert:
  "std_ok m \<Longrightarrow> std_find (std_insert k v m) k' = (if k' = k \<and> std_find m k = None then Some v else std_find m k')"
proof (induction m)
  case (Cons a m)
  obtain x y where a: "a = (x, y)" by (cases a)
  have "std_ok m" using Cons.prems by (simp add: a std_ok_def)
  note IH = Cons.IH [OF this]
  have "k < x \<Longrightarrow> std_find m k = None" using Cons.prems by (force simp: a std_ok_def map_of_eq_None_iff)
  then show ?case using IH by (auto simp: a)
qed simp

lemma std_insert_keys: "fst ` set (std_insert k v m) = insert k (fst ` set m)"
proof (induction m)
  case (Cons a m)
  then show ?case by (cases a) (simp add: insert_commute)
qed simp

lemma std_ok_insert: "std_ok m \<Longrightarrow> std_ok (std_insert k v m)"
proof (induction m)
  case (Cons a m)
  obtain x y where a: "a = (x, y)" by (cases a)
  have keys: "z \<in> fst ` set (std_insert k v m) \<Longrightarrow> z = k \<or> z \<in> fst ` set m" for z by (simp add: std_insert_keys)
  have "std_ok (std_insert k v m)" "\<And>z. z \<in> fst ` set m \<Longrightarrow> x < z" using Cons by (auto simp: a std_ok_def)
  then show ?case using keys Cons.prems by (fastforce simp: a std_ok_def)
qed (simp add: std_ok_def)

lemma std_find_erase: "std_find (std_erase k m) k' = (if k' = k then None else std_find m k')"
  by (induction m) (auto simp: std_erase_def)

lemma std_ok_erase: "std_ok m \<Longrightarrow> std_ok (std_erase k m)"
  by (induction m) (auto simp: std_ok_def std_erase_def)

lemma std_find_update: "std_find (std_update k v m) k' = (if k' = k \<and> std_find m k \<noteq> None then Some v else std_find m k')"
  by (induction m) (auto simp: std_update_def)

lemma std_ok_update: "std_ok m \<Longrightarrow> std_ok (std_update k v m)"
proof -
  have "map fst (std_update k v m) = map fst m" for m :: "('a \<times> 'b) list" by (auto simp: std_update_def)
  then show "std_ok m \<Longrightarrow> std_ok (std_update k v m)" by (simp add: std_ok_def)
qed

section \<open>The contract\<close>

locale dictionary =
  fixes find :: "'m \<Rightarrow> 'k \<Rightarrow> 'v option"
    and ins :: "'k \<Rightarrow> 'v \<Rightarrow> 'm \<Rightarrow> 'm"
    and del :: "'k \<Rightarrow> 'm \<Rightarrow> 'm"
    and ok :: "'m \<Rightarrow> bool"
  assumes find_ins: "ok m \<Longrightarrow> find (ins k v m) k' = (if k' = k \<and> find m k = None then Some v else find m k')"
    and find_del: "ok m \<Longrightarrow> find (del k m) k' = (if k' = k then None else find m k')"
    and ok_ins: "ok m \<Longrightarrow> ok (ins k v m)"
    and ok_del: "ok m \<Longrightarrow> ok (del k m)"
begin

lemma fresh_ins:
  assumes "ok m" "find m k = None"
  shows "find (ins k v m) = (find m)(k \<mapsto> v)"
  using assms find_ins by (auto simp: fun_eq_iff)

lemma ins_keeps: "ok m \<Longrightarrow> find m k' = Some v' \<Longrightarrow> find (ins k v m) k' = Some v'"
  by (auto simp: find_ins)

text \<open>An entry put under a fresh key and removed again leaves the map as it was.\<close>

lemma del_ins: "ok m \<Longrightarrow> find m k = None \<Longrightarrow> find (del k (ins k v m)) = find m"
  by (auto simp: fun_eq_iff find_ins find_del ok_ins)

lemma ran_ins: "ok m \<Longrightarrow> find m k = None \<Longrightarrow> ran (find (ins k v m)) = insert v (ran (find m))"
  by (simp add: fresh_ins ran_map_upd)

lemma dom_ins: "ok m \<Longrightarrow> dom (find (ins k v m)) = insert k (dom (find m))"
  by (auto simp: find_ins dom_def)

end

interpretation std: dictionary std_find std_insert std_erase std_ok
  by unfold_locales (simp_all add: std_find_insert std_find_erase std_ok_insert std_ok_erase)

end
