(* ===== verification/Peer.thy ===== *)
theory Peer
  imports Channel Std_Map
begin

text \<open>
  A peer (\<^verbatim>\<open>src/ALTUS/ALTUSPeer.h\<close>, \<^verbatim>\<open>ALTUSPeer.cpp\<close>): the channels to one remote host.  Incoming packets are handed to
  their channel and acknowledged; \<^verbatim>\<open>Send\<close> cuts the streams of the sending channels into packets.  The socket is the list
  of datagrams an operation sends.  \<open>junk\<close> is what the packet buffer on the stack holds before it is filled.
\<close>

record ALTUSPeer =
  p_ch :: "(u16, channel) std_map"
  p_lastcuid :: u16
  p_addr :: u32                 \<comment> \<open>remoteAddr.sin_addr\<close>
  p_port :: u16                 \<comment> \<open>remoteAddr.sin_port\<close>
  p_packetRate :: int
  p_publicKey :: "u8 list"
  p_keySize :: int
  p_sessionKey :: "u8 list"

type_synonym datagram = "u32 \<times> u16 \<times> u8 list"

section \<open>Construction\<close>

definition rdt_channel :: "sysenv \<Rightarrow> mem \<Rightarrow> bool \<Rightarrow> (channel \<times> mem) cres" where
  "rdt_channel env m recv = LinkRDTWindow env m (channel_new env recv)"

definition peer_with :: "u8 list \<Rightarrow> u16 \<Rightarrow> u8 list \<Rightarrow> u32 \<Rightarrow> u16 \<Rightarrow> ALTUSPeer" where
  "peer_with publicKey keySize sessionKey IP port =
     \<lparr>p_ch = [], p_lastcuid = 1, p_addr = IP, p_port = port, p_packetRate = 0, p_publicKey = publicKey,
      p_keySize = uint keySize, p_sessionKey = sessionKey\<rparr>"

definition ALTUSPeer_server :: "sysenv \<Rightarrow> mem \<Rightarrow> u8 list \<Rightarrow> u16 \<Rightarrow> u8 list \<Rightarrow> u32 \<Rightarrow> u16 \<Rightarrow> (ALTUSPeer \<times> mem) cres" where
  "ALTUSPeer_server env m publicKey keySize sessionKey IP port =
     rbind (rdt_channel env m True) (\<lambda>(receivingCH, m).
     rbind (rdt_channel env m False) (\<lambda>(sendingCH, m).
     rbind (rdt_channel env m False) (\<lambda>(fileSenderCH, m).
     rbind (channel_new_typed env m file_stream_rcv [] 0) (\<lambda>(fileCH, m).
     Inr ((peer_with publicKey keySize sessionKey IP port)
       \<lparr>p_ch := std_insert 3 fileSenderCH (std_insert 2 fileCH (std_insert 1 sendingCH (std_insert 0 receivingCH [])))\<rparr>, m)))))"

definition ALTUSPeer_client :: "sysenv \<Rightarrow> mem \<Rightarrow> u8 list \<Rightarrow> u16 \<Rightarrow> u8 list \<Rightarrow> u64 \<Rightarrow> (ALTUSPeer \<times> mem) cres" where
  "ALTUSPeer_client env m publicKey keySize sessionKey addrport =
     (let ip = ucast (drop_bit 32 addrport); port = ucast (addrport AND 0xFFFF) in
      rbind (rdt_channel env m False) (\<lambda>(sendingCH, m).
      rbind (rdt_channel env m True) (\<lambda>(receivingCH, m).
      rbind (rdt_channel env m False) (\<lambda>(fileSenderCH, m).
      rbind (channel_new_typed env m file_stream_rcv [] 0) (\<lambda>(fileCH, m).
      Inr ((peer_with publicKey keySize sessionKey ip port)
        \<lparr>p_ch := std_insert 3 fileCH (std_insert 2 fileSenderCH (std_insert 1 receivingCH (std_insert 0 sendingCH [])))\<rparr>, m))))))"

fun delete_channels :: "mem \<Rightarrow> (u16, channel) std_map \<Rightarrow> mem cres" where
  "delete_channels m [] = Inr m"
| "delete_channels m ((_, ch) # chs) = rbind (channel_delete m ch) (\<lambda>m. delete_channels m chs)"

text \<open>\<^verbatim>\<open>memset(publicKey, 0, keySize)\<close> before a key is freed.\<close>

definition wipe_key :: "u8 list \<Rightarrow> int \<Rightarrow> unit cres" where
  "wipe_key key keySize = (if int (length key) < keySize then Inl (Fault OutOfBounds) else Inr ())"

definition ALTUSPeer_delete :: "mem \<Rightarrow> ALTUSPeer \<Rightarrow> mem cres" where
  "ALTUSPeer_delete m peer =
     rbind (wipe_key (p_publicKey peer) (p_keySize peer)) (\<lambda>_.
     rbind (wipe_key (p_sessionKey peer) 32) (\<lambda>_.
     delete_channels m (p_ch peer)))"

section \<open>Channels\<close>

text \<open>The loop of \<^verbatim>\<open>newChannel\<close> that looks for a free identifier.\<close>

function free_cuid :: "(u16, 'v) std_map \<Rightarrow> u16 \<Rightarrow> u16 \<Rightarrow> u16 option" where
  "free_cuid ch lastcuid newcuid =
     (if std_find ch newcuid \<noteq> None then
        if newcuid + 1 = lastcuid then None else free_cuid ch lastcuid (newcuid + 1)
      else Some newcuid)"
  by pat_completeness auto
termination
proof (relation "measure (\<lambda>(_, l, n). unat (l - n - 1))", goal_cases)
  case (2 ch l n)
  have "unat (x - 1) < unat x" if "x \<noteq> 0" for x :: u16
    using that unat_minus_one [OF that] unat_eq_0 [of x] by simp
  from this [of "l - n - 1"] show ?case using 2 by (simp add: algebra_simps)
qed simp

declare free_cuid.simps [simp del]

definition newChannel :: "sysenv \<Rightarrow> ALTUSPeer \<Rightarrow> bool \<Rightarrow> int \<times> ALTUSPeer" where
  "newChannel env peer IsReceiving =
     (let peer = peer\<lparr>p_lastcuid := p_lastcuid peer + 1\<rparr> in
      case free_cuid (p_ch peer) (p_lastcuid peer) (p_lastcuid peer) of
        None \<Rightarrow> (-1, peer)
      | Some newcuid \<Rightarrow> (uint newcuid, peer\<lparr>p_ch := std_insert newcuid (channel_new env IsReceiving) (p_ch peer)\<rparr>))"

definition getChannelByID :: "ALTUSPeer \<Rightarrow> u16 \<Rightarrow> channel option" where
  "getChannelByID peer cuid = std_find (p_ch peer) cuid"

section \<open>Receiving\<close>

text \<open>
  The acknowledgement.  The bound on the lost length is computed and then overwritten, so only the low 16 bits of
  the gap are sent.
\<close>

definition response :: "u8 list \<Rightarrow> WQ_Window \<Rightarrow> u8 list" where
  "response buf w =
     (let unseq_size = ub_headSeq (ub_list w) ! 0 - lastSeq w;
          lostLen = (if ub_count (ub_list w) > 0 then ucast unseq_size else 0) :: u16
      in take 2 buf @ store_be 2 lostLen @ store_be 4 (lastSeq w))"

definition processPacket ::
  "sysenv \<Rightarrow> mem \<Rightarrow> ALTUSPeer \<Rightarrow> u8 list \<Rightarrow> int \<Rightarrow> (int \<times> mem \<times> ALTUSPeer \<times> datagram list) cres" where
  "processPacket env m peer buf recvSize =
     (let cuid = ntohs_at buf 0 in
      case std_find (p_ch peer) cuid of
        None \<Rightarrow> Inr (-1, m, peer, [])
      | Some thisChannel \<Rightarrow>
          rbind (receive env m thisChannel buf recvSize) (\<lambda>(r, m, thisChannel).
          let peer = peer\<lparr>p_ch := std_update cuid thisChannel (p_ch peer)\<rparr> in
          if r = 0 then Inr (0, m, peer, [])
          else if r = 1 then
            rbind (buffer_of thisChannel) (\<lambda>(_, w).
            Inr (-1, m, peer, [(p_addr peer, p_port peer, response buf w)]))
          else Inr (-1, m, peer, [])))"

section \<open>Sending\<close>

definition CreateUpstream :: "mem \<Rightarrow> ALTUSPeer \<Rightarrow> u16 \<Rightarrow> u8 list \<Rightarrow> int \<Rightarrow> (int \<times> mem \<times> ALTUSPeer) cres" where
  "CreateUpstream m peer cuid buf len =
     (case std_find (p_ch peer) cuid of
        None \<Rightarrow> Inr (-1, m, peer)
      | Some ch \<Rightarrow>
          if ch_type ch \<noteq> rdt_stream \<or> ch_IsReceiving ch then Inr (-2, m, peer)
          else
            rbind (put_buffer m ch lastSeq (word_of_int len) buf) (\<lambda>(retval, m, ch).
            Inr (retval, m, peer\<lparr>p_ch := std_update cuid (ch\<lparr>ch_IsUpdated := True\<rparr>) (p_ch peer)\<rparr>)))"

text \<open>\<^verbatim>\<open>memcpy\<close> of \<open>n\<close> bytes from the place \<^verbatim>\<open>altusWQPeek\<close> found.\<close>

definition read_pos :: "heap \<Rightarrow> (addr \<times> nat) option \<Rightarrow> nat \<Rightarrow> u8 list cres" where
  "read_pos h pos n =
     (case pos of
        None \<Rightarrow> if n = 0 then Inr [] else Inl (Fault NullDeref)
      | Some (a, off) \<Rightarrow>
          rbind (lift_fault (deref h a)) (\<lambda>nd.
          if ALTUS_NODE_SIZE < off + n then Inl (Fault OutOfBounds) else Inr (map (ndata nd) [off..<off + n])))"

definition rdt_header :: "u16 \<Rightarrow> u8 \<Rightarrow> u32 \<Rightarrow> u8 list" where
  "rdt_header cuid paddingLen seq = store_be 2 cuid @ [paddingLen, ALTUS_FLAG_ACK] @ store_be 4 seq"

definition send_rdt :: "heap \<Rightarrow> u8 list \<Rightarrow> u16 \<Rightarrow> channel \<Rightarrow> (u8 list \<times> channel) cres" where
  "send_rdt h junk cuid cd =
     rbind (buffer_of cd) (\<lambda>(_, w).
     let nextSeq = ch_NextSendSeq cd; cd' = cd\<lparr>ch_NextSendSeq := nextSeq + 488\<rparr> in
     rbind (lift_fault (altusWQPeek h w nextSeq)) (\<lambda>(availableLen, pos).
     if availableLen \<ge> 488 then
       rbind (read_pos h pos ALTUS_RDT_DATA_SIZE) (\<lambda>data. Inr (rdt_header cuid 0 nextSeq @ data, cd'))
     else
       rbind (lift_fault (altusWQPeek h w (nextSeq + availableLen))) (\<lambda>(availLen2, pos2).
       let sendingLen = availableLen + availLen2;
           sendingLen = (if sendingLen > 488 then 488 else sendingLen);
           paddingLen = (496 - sendingLen - 8) mod 16 in
       rbind (read_pos h pos (unat availableLen)) (\<lambda>data.
       rbind (if pos2 \<noteq> None then read_pos h pos2 (unat (sendingLen - availableLen)) else Inr []) (\<lambda>data2.
       let buf = rdt_header cuid (ucast paddingLen) nextSeq @ data @ data2 in
       Inr (take (8 + unat sendingLen + unat paddingLen) (buf @ drop (length buf) junk),
            if pos2 \<noteq> None then cd' else cd'\<lparr>ch_IsUpdated := False\<rparr>))))))"

text \<open>Up to 16 packets of one channel; \<open>True\<close> when \<^verbatim>\<open>Send\<close> gives up.\<close>

fun send_loop :: "nat \<Rightarrow> heap \<Rightarrow> u8 list \<Rightarrow> u16 \<Rightarrow> channel \<Rightarrow> (bool \<times> channel \<times> u8 list list) cres" where
  "send_loop 0 h junk cuid cd = Inr (False, cd, [])"
| "send_loop (Suc n) h junk cuid cd =
     (if \<not> ch_IsUpdated cd then Inr (False, cd, [])
      else if ch_IsReceiving cd then send_loop n h junk cuid cd
      else case ch_type cd of
          ch_invalid \<Rightarrow> send_loop n h junk cuid cd
        | shared_struct \<Rightarrow>
            (case ch_storage cd of
               Struct s \<Rightarrow>
                 if ch_storage_size cd < 0 \<or> int (length s) < ch_storage_size cd then Inl (Fault OutOfBounds)
                 else rbind (send_loop n h junk cuid cd) (\<lambda>(stop, cd', ps). Inr (stop, cd', take (nat (ch_storage_size cd)) s # ps))
             | _ \<Rightarrow> Inl (Fault UseAfterFree))
        | rdt_stream \<Rightarrow>
            rbind (send_rdt h junk cuid cd) (\<lambda>(p, cd).
            rbind (send_loop n h junk cuid cd) (\<lambda>(stop, cd, ps). Inr (stop, cd, p # ps)))
        | _ \<Rightarrow> Inr (True, cd, []))"

fun send_channels :: "heap \<Rightarrow> u8 list \<Rightarrow> (u16, channel) std_map \<Rightarrow> (int \<times> (u16, channel) std_map \<times> u8 list list) cres" where
  "send_channels h junk [] = Inr (0, [], [])"
| "send_channels h junk ((cuid, cd) # cs) =
     rbind (send_loop 16 h junk cuid cd) (\<lambda>(stop, cd, ps).
     if stop then Inr (-2, (cuid, cd) # cs, ps)
     else rbind (send_channels h junk cs) (\<lambda>(r, cs, qs). Inr (r, (cuid, cd) # cs, ps @ qs)))"

definition Send :: "heap \<Rightarrow> u8 list \<Rightarrow> ALTUSPeer \<Rightarrow> (int \<times> ALTUSPeer \<times> datagram list) cres" where
  "Send h junk peer =
     rbind (send_channels h junk (p_ch peer)) (\<lambda>(r, cs, ps).
     Inr (r, peer\<lparr>p_ch := cs\<rparr>, map (\<lambda>p. (p_addr peer, p_port peer, p)) ps))"

end
