(* ===== verification/Host.thy ===== *)
theory Host
  imports Peer
begin

text \<open>
  The host (\<^verbatim>\<open>src/ALTUS/ALTUSHost.h\<close>, \<^verbatim>\<open>ALTUSHost.cpp\<close>, and the pre-peers of \<^verbatim>\<open>ALTUSPeer.cpp\<close>): the handshake that makes
  peers, the tables of peers, and the dispatch of packets.

  Two tables hold pointers to the same peer objects, and the retry queue holds pointers to client pre-peers, so these
  objects live in stores (\<open>h_objs\<close>, \<open>h_cobjs\<close>) and the tables hold their addresses.  One call of \<open>listen\<close> is one turn of
  the loop of \<^verbatim>\<open>Listener\<close> with the datagram received; one call of \<open>Connecter_step\<close> is one turn of \<^verbatim>\<open>Connecter\<close>.  The clock is
  the argument \<open>now\<close>, the user's callback of \<^verbatim>\<open>acceptAction\<close> is \<open>act\<close>, \<open>he_junk\<close> is what fresh memory holds, and an operation
  returns the datagrams it sends.  \<^verbatim>\<open>connectAction\<close>, which runs in a thread of its own, is not part of the step.
\<close>

section \<open>Data\<close>

record ALTUS_SPrePeer =
  s_publicKey :: "u8 list"
  s_keySize :: u16
  s_sessionKey :: "u8 list"
  s_starttime :: u32
  s_A :: bool
  s_B :: bool
  s_C :: bool
  s_D :: bool
  s_IsAckSent :: bool

record ALTUS_CPrePeer =
  c_Expired :: bool
  c_addr :: u32
  c_port :: u16
  c_publicKey :: "u8 list"
  c_keySize :: u16
  c_sessionKey :: "u8 list"
  c_starttime :: u32

record ALTUSHost =
  h_myPublicKey :: "u8 list"
  h_myPublicKeySize :: int
  h_peers :: "(u64, nat) std_map"
  h_peid_peer :: "(u32, nat) std_map"
  h_lastpeid :: u32
  h_s_prepeers :: "(u64, ALTUS_SPrePeer) std_map"
  h_c_prepeers :: "(u64, nat) std_map"
  h_RetryQueue :: "(u32 \<times> nat) list"
  h_IsAlive :: bool
  h_IsAccepting :: bool
  h_objs :: "nat \<Rightarrow> ALTUSPeer option"
  h_cobjs :: "nat \<Rightarrow> ALTUS_CPrePeer option"
  h_next :: nat                                  \<comment> \<open>the next address of either store\<close>
  h_pool :: addr                                 \<comment> \<open>pool, of which h_mem has the contents\<close>
  h_mem :: mem
  h_buf :: "u8 list"                             \<comment> \<open>char buf[ALTUS_PACKET_SIZE] of Listener\<close>

record host_env =
  he_sys :: sysenv
  he_junk :: "nat \<Rightarrow> u8"

type_synonym action = "ALTUSHost \<Rightarrow> u32 \<Rightarrow> ALTUSHost cres"

definition NullFunc :: action where
  "NullFunc host a = Inr host"

abbreviation (input) ALTUS_RSA_KEY_SIZE :: nat where "ALTUS_RSA_KEY_SIZE \<equiv> 700"
abbreviation (input) ALTUS_SESSION_KEY_SIZE :: nat where "ALTUS_SESSION_KEY_SIZE \<equiv> 32"
abbreviation (input) ALTUS_HANDSHAKE_HEADER_SIZE :: nat where "ALTUS_HANDSHAKE_HEADER_SIZE \<equiv> 12"

definition bytes_of :: "string \<Rightarrow> u8 list" where
  "bytes_of s = map of_char s"

definition addrTo_uint64 :: "u32 \<Rightarrow> u16 \<Rightarrow> u64" where
  "addrTo_uint64 ip port = push_bit 32 (ucast ip) OR ucast port"

definition ip_of :: "u64 \<Rightarrow> u32" where
  "ip_of addrport = ucast (drop_bit 32 addrport)"

definition port_of :: "u64 \<Rightarrow> u16" where
  "port_of addrport = ucast (addrport AND 0xFFFF)"

section \<open>Construction\<close>

text \<open>The constructor; \<open>socket_ok\<close> and \<open>bind_ok\<close> are the results of \<^verbatim>\<open>socket\<close> and \<^verbatim>\<open>bind\<close>.\<close>

definition ALTUSHost_new :: "bool \<Rightarrow> bool \<Rightarrow> heap \<Rightarrow> nheap \<Rightarrow> u8 list \<Rightarrow> u8 list \<Rightarrow> ALTUSHost cres" where
  "ALTUSHost_new socket_ok bind_ok h nodes key buf =
     rbind (lift_fault (altusWQNewNodePool h)) (\<lambda>(h, poolPtr, pool).
     if \<not> socket_ok \<or> \<not> bind_ok then Inl (Fault ExitProgram)
     else Inr \<lparr>h_myPublicKey = key, h_myPublicKeySize = int ALTUS_RSA_KEY_SIZE, h_peers = [], h_peid_peer = [], h_lastpeid = 0,
          h_s_prepeers = [], h_c_prepeers = [], h_RetryQueue = [], h_IsAlive = False, h_IsAccepting = False, h_objs = Map.empty, h_cobjs = Map.empty,
          h_next = 0, h_pool = poolPtr, h_mem = \<lparr>m_heap = h, m_pool = pool, m_nodes = nodes, m_npool = NodePool_new\<rparr>, h_buf = buf\<rparr>)"

text \<open>\<^verbatim>\<open>run\<close> also starts the threads, whose turns are steps below.\<close>

definition run :: "ALTUSHost \<Rightarrow> ALTUSHost" where
  "run host = host\<lparr>h_IsAlive := True, h_IsAccepting := True\<rparr>"

definition keep_accept :: "ALTUSHost \<Rightarrow> ALTUSHost" where
  "keep_accept host = host\<lparr>h_IsAccepting := True\<rparr>"

definition decline_accept :: "ALTUSHost \<Rightarrow> ALTUSHost" where
  "decline_accept host = host\<lparr>h_IsAccepting := False\<rparr>"

section \<open>Pre-peers\<close>

definition ALTUS_SPrePeer_new :: "host_env \<Rightarrow> u32 \<Rightarrow> ALTUS_SPrePeer" where
  "ALTUS_SPrePeer_new env starttime =
     \<lparr>s_publicKey = map (he_junk env) [0..<ALTUS_RSA_KEY_SIZE], s_keySize = 0,
      s_sessionKey = map (he_junk env) [0..<ALTUS_SESSION_KEY_SIZE], s_starttime = starttime,
      s_A = False, s_B = False, s_C = False, s_D = False, s_IsAckSent = False\<rparr>"

definition ALTUS_CPrePeer_new :: "host_env \<Rightarrow> u32 \<Rightarrow> u32 \<Rightarrow> u16 \<Rightarrow> u8 list \<Rightarrow> ALTUS_CPrePeer" where
  "ALTUS_CPrePeer_new env now ip port serverkey =
     \<lparr>c_Expired = False, c_addr = ip, c_port = port, c_publicKey = serverkey, c_keySize = word_of_nat (length serverkey),
      c_sessionKey = map (he_junk env) [0..<ALTUS_SESSION_KEY_SIZE], c_starttime = now\<rparr>"

definition ALTUS_SPrePeer_delete :: "ALTUS_SPrePeer \<Rightarrow> unit cres" where
  "ALTUS_SPrePeer_delete peer =
     rbind (wipe_key (s_publicKey peer) (uint (s_keySize peer))) (\<lambda>_. wipe_key (s_sessionKey peer) 32)"

definition ALTUS_CPrePeer_delete :: "ALTUS_CPrePeer \<Rightarrow> unit cres" where
  "ALTUS_CPrePeer_delete peer =
     rbind (wipe_key (c_publicKey peer) (uint (c_keySize peer))) (\<lambda>_. wipe_key (c_sessionKey peer) 32)"

text \<open>\<^verbatim>\<open>memcpy(publicKey + off, src, n)\<close> into the 700 bytes allocated.\<close>

definition copy_key :: "u8 list \<Rightarrow> nat \<Rightarrow> u8 list \<Rightarrow> nat \<Rightarrow> u8 list cres" where
  "copy_key key off src n =
     (if length key < off + n \<or> length src < n then Inl (Fault OutOfBounds)
      else Inr (take off key @ take n src @ drop (off + n) key))"

section \<open>Tables of peers\<close>

text \<open>The loop that looks for a free \<^verbatim>\<open>peid\<close>; one turn more than there are peers is enough.\<close>

fun free_peid :: "nat \<Rightarrow> (u32, 'v) std_map \<Rightarrow> u32 \<Rightarrow> u32 cres" where
  "free_peid 0 m newpeid = Inl (Fault OutOfFuel)"
| "free_peid (Suc fuel) m newpeid =
     (if std_find m newpeid \<noteq> None then free_peid fuel m (newpeid + 1) else Inr newpeid)"

text \<open>What \<^verbatim>\<open>prepeerToPeer\<close> and \<^verbatim>\<open>TryCompleteConnection\<close> do with the new peer.\<close>

definition add_peer :: "ALTUSHost \<Rightarrow> u64 \<Rightarrow> ALTUSPeer \<Rightarrow> (u32 \<times> ALTUSHost) cres" where
  "add_peer host addrport peer =
     (let dst = h_next host in
      rbind (free_peid (length (h_peid_peer host) + 1) (h_peid_peer host) (h_lastpeid host + 1)) (\<lambda>newpeid.
      Inr (newpeid, host\<lparr>h_objs := (h_objs host)(dst := Some peer), h_next := dst + 1,
             h_peers := std_insert addrport dst (h_peers host), h_lastpeid := newpeid,
             h_peid_peer := std_insert newpeid dst (h_peid_peer host)\<rparr>)))"

definition prepeerToPeer :: "host_env \<Rightarrow> action \<Rightarrow> ALTUSHost \<Rightarrow> u64 \<Rightarrow> ALTUSHost cres" where
  "prepeerToPeer env act host addrport =
     (case std_find (h_s_prepeers host) addrport of
        None \<Rightarrow> Inl (Fault UseAfterFree)
      | Some src \<Rightarrow>
          if std_find (h_peers host) addrport \<noteq> None then Inl (Fault ExitProgram)
          else
            rbind (ALTUSPeer_server (he_sys env) (h_mem host) (s_publicKey src) (s_keySize src) (s_sessionKey src)
                     (ip_of addrport) (port_of addrport)) (\<lambda>(dst, m).
            rbind (add_peer (host\<lparr>h_mem := m\<rparr>) addrport dst) (\<lambda>(newpeid, host).
            act (host\<lparr>h_s_prepeers := std_erase addrport (h_s_prepeers host)\<rparr>) newpeid)))"

definition getPeerbyID :: "ALTUSHost \<Rightarrow> u32 \<Rightarrow> nat option" where
  "getPeerbyID host peid = std_find (h_peid_peer host) peid"

definition removePeer :: "ALTUSHost \<Rightarrow> u32 \<Rightarrow> (int \<times> ALTUSHost) cres" where
  "removePeer host peid =
     (case std_find (h_peid_peer host) peid of
        None \<Rightarrow> Inr (-1, host)
      | Some q \<Rightarrow>
          case h_objs host q of
            None \<Rightarrow> Inl (Fault UseAfterFree)
          | Some peer \<Rightarrow>
              let addrport = addrTo_uint64 (p_addr peer) (p_port peer) in
              rbind (ALTUSPeer_delete (h_mem host) peer) (\<lambda>m.
              Inr (0, host\<lparr>h_mem := m, h_peers := std_erase addrport (h_peers host), h_objs := (h_objs host)(q := None),
                           h_peid_peer := std_erase peid (h_peid_peer host)\<rparr>)))"

section \<open>The server's side of the handshake\<close>

definition sendAck :: "u64 \<Rightarrow> datagram" where
  "sendAck addrport = (ip_of addrport, port_of addrport, bytes_of ''ALTUS/1.0Y'' @ [0, 0] @ replicate ALTUS_SESSION_KEY_SIZE 0)"

definition page_offset :: "u8 \<Rightarrow> nat option" where
  "page_offset page =
     (if page = of_char CHR ''A'' then Some 0 else if page = of_char CHR ''B'' then Some 484
      else if page = of_char CHR ''C'' then Some (484 * 2) else if page = of_char CHR ''D'' then Some (484 * 3) else None)"

definition mark_page :: "nat \<Rightarrow> ALTUS_SPrePeer \<Rightarrow> ALTUS_SPrePeer" where
  "mark_page off peer =
     (if off = 0 then peer\<lparr>s_A := True\<rparr> else if off = 484 then peer\<lparr>s_B := True\<rparr>
      else if off = 484 * 2 then peer\<lparr>s_C := True\<rparr> else peer\<lparr>s_D := True\<rparr>)"

text \<open>The first page from an address.\<close>

definition accept_first :: "host_env \<Rightarrow> action \<Rightarrow> u32 \<Rightarrow> ALTUSHost \<Rightarrow> u64 \<Rightarrow> u8 list \<Rightarrow> nat \<Rightarrow> (int \<times> ALTUSHost \<times> datagram list) cres" where
  "accept_first env act now host addrport buf sz =
     (let keysize = ntohs_at buf 10; newpeer = (ALTUS_SPrePeer_new env now)\<lparr>s_keySize := keysize\<rparr> in
      if keysize < 128 then Inr (-3, host, [])
      else case page_offset (buf ! 9) of
          None \<Rightarrow> rbind (ALTUS_SPrePeer_delete newpeer) (\<lambda>_. Inr (-3, host, []))
        | Some off \<Rightarrow>
            rbind (copy_key (s_publicKey newpeer) off (drop 12 buf) (sz - 12)) (\<lambda>key.
            let newpeer = mark_page off (newpeer\<lparr>s_publicKey := key\<rparr>) in
            rbind (if off = 0 \<and> uint keysize = int sz - 12 then prepeerToPeer env act host addrport else Inr host) (\<lambda>host.
            Inr (1, host\<lparr>h_s_prepeers := std_insert addrport newpeer (h_s_prepeers host)\<rparr>, []))))"

definition key_arrived :: "ALTUS_SPrePeer \<Rightarrow> bool" where
  "key_arrived peer \<longleftrightarrow>
     uint (s_keySize peer) < 484 * 2 \<and> (s_A peer \<or> s_B peer)
     \<or> uint (s_keySize peer) < 484 * 3 \<and> (s_A peer \<or> s_B peer \<or> s_C peer)
     \<or> s_A peer \<and> s_B peer \<and> s_C peer \<and> s_D peer"

text \<open>Further packets from an address; the pages are copied from the start of the packet, header included.\<close>

definition accept_more ::
  "host_env \<Rightarrow> action \<Rightarrow> ALTUSHost \<Rightarrow> u64 \<Rightarrow> ALTUS_SPrePeer \<Rightarrow> u8 list \<Rightarrow> nat \<Rightarrow> (int \<times> ALTUSHost \<times> datagram list) cres" where
  "accept_more env act host addrport peer buf sz =
     (if buf ! 9 = of_char CHR ''Z'' \<and> s_IsAckSent peer then
        rbind (prepeerToPeer env act host addrport) (\<lambda>host. Inr (0, host, []))
      else
        rbind (case page_offset (buf ! 9) of
                 None \<Rightarrow> Inr peer
               | Some off \<Rightarrow>
                   rbind (copy_key (s_publicKey peer) off buf (sz - 12)) (\<lambda>key.
                   Inr (mark_page off (peer\<lparr>s_publicKey := key\<rparr>)))) (\<lambda>peer.
        let arrived = key_arrived peer; peer = (if arrived then peer\<lparr>s_IsAckSent := True\<rparr> else peer) in
        Inr (0, host\<lparr>h_s_prepeers := std_update addrport peer (h_s_prepeers host)\<rparr>, if arrived then [sendAck addrport] else [])))"

definition accepter ::
  "host_env \<Rightarrow> action \<Rightarrow> u32 \<Rightarrow> ALTUSHost \<Rightarrow> u64 \<Rightarrow> u8 list \<Rightarrow> nat \<Rightarrow> (int \<times> ALTUSHost \<times> datagram list) cres" where
  "accepter env act now host addrport buf sz =
     (if sz < 12 then Inr (-2, host, [])
      else if take 6 buf \<noteq> bytes_of ''ALTUS/'' then Inr (-2, host, [])
      else if take 3 (drop 6 buf) \<noteq> bytes_of ''1.0'' then Inr (-1, host, [])
      else
        rbind (case std_find (h_s_prepeers host) addrport of
                 Some peer \<Rightarrow>
                   if now - s_starttime peer > 5000 then
                     rbind (ALTUS_SPrePeer_delete peer) (\<lambda>_.
                     Inr (host\<lparr>h_s_prepeers := std_erase addrport (h_s_prepeers host)\<rparr>))
                   else Inr host
               | None \<Rightarrow> Inr host) (\<lambda>host.
        case std_find (h_s_prepeers host) addrport of
          None \<Rightarrow> accept_first env act now host addrport buf sz
        | Some peer \<Rightarrow> accept_more env act host addrport peer buf sz))"

section \<open>The client's side\<close>

text \<open>The pages of the key: each packet is cut to the length of its part of the key, header included.\<close>

function pages :: "u8 list \<Rightarrow> int \<Rightarrow> int \<Rightarrow> u8 \<Rightarrow> u8 list list" where
  "pages key keySize sentLen page =
     (if sentLen < keySize then
        let sendinglength = (if 484 > keySize - sentLen then keySize - sentLen else 484);
            msg = bytes_of ''ALTUS/1.0'' @ [page] @ store_be 2 (word_of_int keySize :: u16) @ take (nat sendinglength) key
        in take (nat sendinglength) msg # pages key keySize (sentLen + sendinglength) (page + 1)
      else [])"
  by auto
termination by (relation "measure (\<lambda>(_, k, s, _). nat (k - s))") auto

declare pages.simps [simp del]

definition SendHandShake1 :: "ALTUSHost \<Rightarrow> u64 \<Rightarrow> int \<times> datagram list" where
  "SendHandShake1 host addrport =
     (if std_find (h_c_prepeers host) addrport = None then (-1, [])
      else (0, map (\<lambda>p. (ip_of addrport, port_of addrport, p))
                 (pages (h_myPublicKey host) (h_myPublicKeySize host) 0 (of_char CHR ''A''))))"

definition htons :: "u16 \<Rightarrow> u16" where
  "htons x = push_bit 8 x OR drop_bit 8 x"

text \<open>The priority queue: the entry that is due first is at the front; times are compared by the sign of their difference.\<close>

fun retry_push :: "u32 \<times> nat \<Rightarrow> (u32 \<times> nat) list \<Rightarrow> (u32 \<times> nat) list" where
  "retry_push e [] = [e]"
| "retry_push e (x # q) = (if sgt0 (fst x - fst e) then e # x # q else x # retry_push e q)"

definition connect :: "host_env \<Rightarrow> u32 \<Rightarrow> ALTUSHost \<Rightarrow> u32 \<Rightarrow> u16 \<Rightarrow> u8 list \<Rightarrow> int \<times> ALTUSHost \<times> datagram list" where
  "connect env now host ip hport serverkey =
     (let port = htons hport; addrport = push_bit 32 (ucast ip) OR ucast port in
      if std_find (h_c_prepeers host) addrport \<noteq> None then (-1, host, [])
      else
        let q = h_next host; newpeer = ALTUS_CPrePeer_new env now ip port serverkey;
            host = host\<lparr>h_cobjs := (h_cobjs host)(q := Some newpeer), h_next := q + 1,
                        h_c_prepeers := std_insert addrport q (h_c_prepeers host)\<rparr>;
            (_, out) = SendHandShake1 host addrport;
            queue = retry_push (now + 3 * 1500, q) (retry_push (now + 2 * 1500, q) (retry_push (now + 1 * 1500, q) (h_RetryQueue host)))
        in (0, host\<lparr>h_RetryQueue := queue\<rparr>, out))"

definition popCPrePeer :: "ALTUSHost \<Rightarrow> u64 \<Rightarrow> nat option \<times> ALTUSHost" where
  "popCPrePeer host addrport =
     (case std_find (h_c_prepeers host) addrport of
        None \<Rightarrow> (None, host)
      | Some q \<Rightarrow> (Some q, host\<lparr>h_c_prepeers := std_erase addrport (h_c_prepeers host)\<rparr>))"

definition FlushRetryQueue :: "ALTUSHost \<Rightarrow> ALTUSHost" where
  "FlushRetryQueue host = host\<lparr>h_RetryQueue := []\<rparr>"

definition TryCompleteConnection :: "host_env \<Rightarrow> ALTUSHost \<Rightarrow> u64 \<Rightarrow> u8 list \<Rightarrow> nat \<Rightarrow> (int \<times> ALTUSHost \<times> datagram list) cres" where
  "TryCompleteConnection env host addrport buf recvSize =
     (case popCPrePeer host addrport of
        (None, host) \<Rightarrow> Inr (-1, host, [])
      | (Some q, host) \<Rightarrow>
          if recvSize \<noteq> 12 + 32 then Inr (-1, host, [])
          else if take 10 buf \<noteq> bytes_of ''ALTUS/1.0Y'' \<or> buf ! 10 \<noteq> 0 then Inr (-1, host, [])
          else case h_cobjs host q of
              None \<Rightarrow> Inl (Fault UseAfterFree)
            | Some cprepeer \<Rightarrow>
                let sessionKey = take 32 (drop 12 buf) in
                if std_find (h_peers host) addrport \<noteq> None then Inl (Fault ExitProgram)
                else
                  rbind (ALTUSPeer_client (he_sys env) (h_mem host) (c_publicKey cprepeer) (c_keySize cprepeer) sessionKey addrport)
                    (\<lambda>(newPeer, m).
                  let host = host\<lparr>h_mem := m, h_cobjs := (h_cobjs host)(q := Some (cprepeer\<lparr>c_Expired := True, c_publicKey := [], c_sessionKey := []\<rparr>))\<rparr> in
                  rbind (add_peer host addrport newPeer) (\<lambda>(newpeid, host).
                  Inr (0, host, [(p_addr newPeer, p_port newPeer, bytes_of ''ALTUS/1.0Z'' @ [0, 0])]))))"

definition Connecter_step :: "ALTUSHost \<Rightarrow> (ALTUSHost \<times> datagram list) cres" where
  "Connecter_step host =
     (case h_RetryQueue host of
        [] \<Rightarrow> Inr (host, [])
      | (time, q) # queue \<Rightarrow>
          let host = host\<lparr>h_RetryQueue := queue\<rparr> in
          case h_cobjs host q of
            None \<Rightarrow> Inl (Fault UseAfterFree)
          | Some t \<Rightarrow>
              if c_Expired t then Inr (host, [])
              else
                let addrport = addrTo_uint64 (c_addr t) (c_port t) in
                if sint (time - c_starttime t) \<ge> 3 * 1500 then
                  rbind (ALTUS_CPrePeer_delete t) (\<lambda>_.
                  Inr (host\<lparr>h_c_prepeers := std_erase addrport (h_c_prepeers host), h_cobjs := (h_cobjs host)(q := None)\<rparr>, []))
                else Inr (host, snd (SendHandShake1 host addrport)))"

section \<open>The listener\<close>

definition listen :: "host_env \<Rightarrow> action \<Rightarrow> u32 \<Rightarrow> ALTUSHost \<Rightarrow> u32 \<Rightarrow> u16 \<Rightarrow> u8 list \<Rightarrow> (ALTUSHost \<times> datagram list) cres" where
  "listen env act now host ip port data =
     (if length data > ALTUS_PACKET_SIZE then Inr (host\<lparr>h_buf := take ALTUS_PACKET_SIZE data\<rparr>, [])
      else
        let buf = data @ drop (length data) (h_buf host); recvSize = length data;
            host = host\<lparr>h_buf := buf\<rparr>; addrport = addrTo_uint64 ip port in
        case std_find (h_peers host) addrport of
          None \<Rightarrow>
            if std_find (h_c_prepeers host) addrport \<noteq> None then
              rbind (TryCompleteConnection env host addrport buf recvSize) (\<lambda>(_, host, out). Inr (host, out))
            else if h_IsAccepting host then
              rbind (accepter env act now host addrport buf recvSize) (\<lambda>(_, host, out). Inr (host, out))
            else Inr (host, [])
        | Some q \<Rightarrow>
            (case h_objs host q of
               None \<Rightarrow> Inl (Fault UseAfterFree)
             | Some peer \<Rightarrow>
                 rbind (processPacket (he_sys env) (h_mem host) peer buf (int recvSize)) (\<lambda>(_, m, peer, out).
                 Inr (host\<lparr>h_mem := m, h_objs := (h_objs host)(q := Some peer)\<rparr>, out))))"

section \<open>The sender\<close>

text \<open>One turn of the loop of \<^verbatim>\<open>Sender\<close>.\<close>

fun send_peers :: "host_env \<Rightarrow> ALTUSHost \<Rightarrow> (u64, nat) std_map \<Rightarrow> (ALTUSHost \<times> datagram list) cres" where
  "send_peers env host [] = Inr (host, [])"
| "send_peers env host ((_, q) # ps) =
     (case h_objs host q of
        None \<Rightarrow> Inl (Fault UseAfterFree)
      | Some peer \<Rightarrow>
          rbind (Send (m_heap (h_mem host)) (map (he_junk env) [0..<ALTUS_PACKET_SIZE]) peer) (\<lambda>(_, peer, out).
          rbind (send_peers env (host\<lparr>h_objs := (h_objs host)(q := Some peer)\<rparr>) ps) (\<lambda>(host, out'). Inr (host, out @ out'))))"

definition Sender_step :: "host_env \<Rightarrow> ALTUSHost \<Rightarrow> (ALTUSHost \<times> datagram list) cres" where
  "Sender_step env host = send_peers env host (h_peers host)"

section \<open>Destruction\<close>

fun delete_all :: "('m \<Rightarrow> 'v \<Rightarrow> 'm cres) \<Rightarrow> 'm \<Rightarrow> ('k \<times> 'v) list \<Rightarrow> 'm cres" where
  "delete_all del m [] = Inr m"
| "delete_all del m ((_, v) # vs) = rbind (del m v) (\<lambda>m. delete_all del m vs)"

definition delete_at :: "('m \<Rightarrow> 'v \<Rightarrow> 'm cres) \<Rightarrow> (nat \<rightharpoonup> 'v) \<Rightarrow> 'm \<Rightarrow> nat \<Rightarrow> 'm cres" where
  "delete_at del objs m q = (case objs q of None \<Rightarrow> Inl (Fault UseAfterFree) | Some v \<Rightarrow> del m v)"

text \<open>
  The destructor once the threads have stopped.  It joins the threads first, which ends the program when \<^verbatim>\<open>run\<close> has not
  started them.
\<close>

definition ALTUSHost_delete :: "ALTUSHost \<Rightarrow> mem cres" where
  "ALTUSHost_delete host =
     (if \<not> h_IsAlive host then Inl (Fault ExitProgram)
      else
        rbind (delete_all (delete_at ALTUSPeer_delete (h_objs host)) (h_mem host) (h_peers host)) (\<lambda>m.
        rbind (delete_all (\<lambda>_. ALTUS_SPrePeer_delete) () (h_s_prepeers host)) (\<lambda>_.
        rbind (delete_all (delete_at (\<lambda>_. ALTUS_CPrePeer_delete) (h_cobjs host)) () (h_c_prepeers host)) (\<lambda>_.
        rbind (lift_fault (altusFreeP (m_heap m) (h_pool host) (m_pool m))) (\<lambda>h.
        rbind (NodePool_delete (m_nodes m) (m_npool m)) (\<lambda>nodes. Inr (m\<lparr>m_heap := h, m_nodes := nodes\<rparr>)))))))"

section \<open>Steps\<close>

text \<open>
  What can happen to a host: a datagram arrives, the connecter or the sender takes its turn, or the user calls an
  operation.  The three threads run once \<^verbatim>\<open>run\<close> has started them.
\<close>

inductive host_step :: "host_env \<Rightarrow> action \<Rightarrow> ALTUSHost \<Rightarrow> ALTUSHost \<Rightarrow> bool" for env act where
  datagram: "h_IsAlive host \<Longrightarrow> listen env act now host ip port data = Inr (host', out) \<Longrightarrow> host_step env act host host'"
| connecter: "h_IsAlive host \<Longrightarrow> Connecter_step host = Inr (host', out) \<Longrightarrow> host_step env act host host'"
| sender: "h_IsAlive host \<Longrightarrow> Sender_step env host = Inr (host', out) \<Longrightarrow> host_step env act host host'"
| connecting: "connect env now host ip port key = (r, host', out) \<Longrightarrow> host_step env act host host'"
| removing: "removePeer host peid = Inr (r, host') \<Longrightarrow> host_step env act host host'"
| flushing: "host_step env act host (FlushRetryQueue host)"
| running: "host_step env act host (run host)"
| accepting: "host_step env act host (keep_accept host)"
| declining: "host_step env act host (decline_accept host)"

inductive_cases host_stepE: "host_step env act host host'"

end
