(* ===== verification/Peer_Props.thy ===== *)
theory Peer_Props
  imports Peer
begin

text \<open>
  Identifiers of channels, the packets \<^verbatim>\<open>Send\<close> makes of a stream, and what the peer at the other end does with them.
\<close>

section \<open>Identifiers\<close>

lemma free_cuid_Some: "free_cuid ch l n = Some c \<Longrightarrow> std_find ch c = None"
  by (induction ch l n rule: free_cuid.induct) (subst (asm) (2) free_cuid.simps, auto split: if_splits)

lemma unat_pred_u16: "x \<noteq> 0 \<Longrightarrow> unat (x - 1 :: u16) = unat x - 1"
  by (rule unat_minus_one)

lemma free_cuid_None: "free_cuid ch l n = None \<Longrightarrow> unat (c - n) \<le> unat (l - n - 1) \<Longrightarrow> std_find ch c \<noteq> None"
proof (induction ch l n rule: free_cuid.induct)
  case (1 ch l n)
  have used: "std_find ch n \<noteq> None" using 1(2) by (subst (asm) free_cuid.simps) (auto split: if_splits)
  show ?case
  proof (cases "c = n")
    case False
    then have c: "c - n \<noteq> 0" by simp
    then have "0 < unat (c - n)" by (simp add: unat_gt_0)
    then have l: "l - n - 1 \<noteq> 0" using 1(3) by auto
    then have "n + 1 \<noteq> l" by auto
    moreover have "unat (c - (n + 1)) \<le> unat (l - (n + 1) - 1)"
      using 1(3) unat_pred_u16 [OF c] unat_pred_u16 [OF l] by (simp add: algebra_simps)
    ultimately show ?thesis using 1(1) [OF used] 1(2) used by (subst (asm) (2) free_cuid.simps) auto
  qed (use used in simp)
qed

section \<open>Reading the stream that is sent\<close>

lemma peek_end:
  assumes inv: "wq_inv h w p ns ps k v" and x: "soff (headSeq w) seq = 4096 * k + v"
  shows "altusWQPeek h w seq = Inr (0, None)"
proof -
  have ch: "wq_chain h w p ns ps k" and v: "v < 4096" using inv by (simp_all add: wq_inv_def)
  note l = wq_chainD(1) [OF ch]
  have d: "(4096 * k + v) div 4096 = k" "(4096 * k + v) mod 4096 = v" using v by simp_all
  have lt: "4096 * k + v < 4294967296" using soff_lt [of "headSeq w" seq] unfolding x .
  have "seq - headSeq w = word_of_nat (4096 * k + v)" using x by (simp add: soff_def flip: x)
  then have "altusWQPeek_loop h (head w) (seq - headSeq w) = Inr (Some (ns ! k, word_of_nat v))"
    using altusWQPeek_loop_walk [OF l, of 0, OF _ lt] wq_chainD(9) [OF ch] wq_head(2,3) [OF inv] unfolding d by auto
  moreover have "validBlockCount (node h (ns ! k)) = word_of_nat v"
    using inv by (simp add: wq_inv_def) (metis of_nat_unat ucast_id)
  moreover have "deref h (ns ! k) = Inr (node h (ns ! k))" using linked_live [OF l] wq_chainD(9) [OF ch] by simp
  ultimately show ?thesis by (simp add: altusWQPeek_def)
qed

lemma read_pos_bytes:
  assumes "wq_inv h w p ns ps k v" "i \<le> k" "off + n \<le> 4096" "off < 4096"
  shows "read_pos h (Some (ns ! i, off)) n = Inr (map (byte_at h ns) [4096 * i + off..<4096 * i + off + n])"
proof -
  have ch: "wq_chain h w p ns ps k" using assms(1) by (simp add: wq_inv_def)
  have "deref h (ns ! i) = Inr (node h (ns ! i))"
    using linked_live [OF wq_chainD(1) [OF ch]] wq_chainD(9) [OF ch] assms(2) by simp
  moreover have "map (ndata (node h (ns ! i))) [off..<off + n] = map (byte_at h ns) [4096 * i + off..<4096 * i + off + n]"
  proof (rule nth_equalityI)
    fix j assume "j < length (map (ndata (node h (ns ! i))) [off..<off + n])"
    then have "(4096 * i + off + j) div 4096 = i" "(4096 * i + off + j) mod 4096 = off + j"
      using assms(3) by (auto simp: add.assoc)
    then show "map (ndata (node h (ns ! i))) [off..<off + n] ! j = map (byte_at h ns) [4096 * i + off..<4096 * i + off + n] ! j"
      using \<open>j < _\<close> by (simp add: byte_at_def)
  qed simp
  ultimately show ?thesis using assms(3) by (simp add: read_pos_def)
qed

text \<open>The two looks \<^verbatim>\<open>Send\<close> takes at the window, and the bytes it copies.\<close>

lemma peek_first:
  assumes "wq_inv h w p ns ps k v" "soff (headSeq w) seq < 4096 * k + v"
  obtains i off avail where "altusWQPeek h w seq = Inr (word_of_nat avail, Some (ns ! i, off))"
    "soff (headSeq w) seq = 4096 * i + off" "off + avail \<le> 4096" "off < 4096" "i \<le> k" "0 < avail"
    "soff (headSeq w) seq + avail \<le> 4096 * k + v"
    "soff (headSeq w) seq + avail < 4096 * k + v \<Longrightarrow> i < k \<and> off + avail = 4096"
proof -
  let ?x = "soff (headSeq w) seq"
  let ?i = "?x div 4096" and ?o = "?x mod 4096"
  let ?n = "node_fill k v ?i - ?o"
  have v: "v < 4096" using assms(1) by (simp add: wq_inv_def)
  have r: "altusWQPeek h w seq = Inr (word_of_nat ?n, Some (ns ! ?i, ?o))" "?o < node_fill k v ?i"
    using altusWQPeek_result [OF assms] by auto
  have x: "?x = 4096 * ?i + ?o" by simp
  have ik: "?i \<le> k" using assms(2) v x by linarith
  have e: "?x + ?n = 4096 * ?i + node_fill k v ?i" using r(2) x by linarith
  have "4096 * ?i + node_fill k v ?i \<le> 4096 * k + v \<and> (4096 * ?i + node_fill k v ?i < 4096 * k + v \<longrightarrow> ?i < k)"
  proof (cases "?i < k")
    case True
    then have "4096 * Suc ?i \<le> 4096 * k" by (intro mult_le_mono2) simp
    then show ?thesis using True by (simp add: node_fill_def)
  next
    case False
    then show ?thesis using ik by (simp add: node_fill_def)
  qed
  note B = this
  have f: "node_fill k v ?i \<le> 4096" "?i < k \<Longrightarrow> node_fill k v ?i = 4096" using v by (simp_all add: node_fill_def)
  show thesis
  proof (rule that [OF r(1) x])
    show "?o + ?n \<le> 4096" "0 < ?n" using r(2) f(1) by linarith+
    show "?o < 4096" by simp
    show "?i \<le> k" by (rule ik)
    show "?x + ?n \<le> 4096 * k + v" using B e by linarith
    show "?i < k \<and> ?o + ?n = 4096" if "?x + ?n < 4096 * k + v"
      using B e that f(2) r(2) by linarith
  qed
qed

lemma upt_join: "a \<le> b \<Longrightarrow> b \<le> c \<Longrightarrow> map f [a..<b] @ map f [b..<c] = map f [a..<c]"
  by (metis map_append upt_add_eq_append le_add_diff_inverse)

lemma length_rdt_header [simp]: "length (rdt_header c pad seq) = 8"
  by (simp add: rdt_header_def)

lemma padding_word:
  assumes "n \<le> 488"
  shows "unat ((496 - word_of_nat n - 8 :: u32) mod 16) = (488 - n) mod 16"
    and "ucast ((496 - word_of_nat n - 8 :: u32) mod 16) = (word_of_nat ((488 - n) mod 16) :: u8)"
proof -
  have "unat (496 - word_of_nat n - 8 :: u32) = 488 - n"
    using assms by (simp add: unat_minus_cases unat_word_of_nat_u32)
  then show u: "unat ((496 - word_of_nat n - 8 :: u32) mod 16) = (488 - n) mod 16" by (simp add: unat_mod)
  have "(488 - n) mod 16 < 256" by (rule less_trans [of _ 16]) simp_all
  then have "unat (ucast ((496 - word_of_nat n - 8 :: u32) mod 16) :: u8) = unat (word_of_nat ((488 - n) mod 16) :: u8)"
    by (simp only: unsigned_ucast_eq u) (simp add: take_bit_nat_eq_self unat_of_nat)
  then show "ucast ((496 - word_of_nat n - 8 :: u32) mod 16) = (word_of_nat ((488 - n) mod 16) :: u8)"
    by (simp only: word_unat_eq_iff)
qed

definition rdt_packet :: "u16 \<Rightarrow> u32 \<Rightarrow> u8 list \<Rightarrow> u8 list \<Rightarrow> u8 list" where
  "rdt_packet cuid seq data junk =
     (let pad = (488 - length data) mod 16
      in take (8 + length data + pad) (rdt_header cuid (word_of_nat pad) seq @ data @ drop (8 + length data) junk))"

lemma send_rdt_full:
  assumes "ch_storage cd = Window a w" "altusWQPeek h w (ch_NextSendSeq cd) = Inr (word_of_nat avail, pos)"
    and "488 \<le> avail" "avail \<le> 4096" "read_pos h pos 488 = Inr data" "length data = 488"
  shows "send_rdt h junk cuid cd = Inr (rdt_packet cuid (ch_NextSendSeq cd) data junk, cd\<lparr>ch_NextSendSeq := ch_NextSendSeq cd + 488\<rparr>)"
proof -
  have "488 \<le> (word_of_nat avail :: u32)" using assms(3,4) by (simp add: word_le_nat_alt unat_word_of_nat_u32)
  then show ?thesis using assms by (simp add: send_rdt_def buffer_of_def rdt_packet_def Let_def)
qed

lemma send_rdt_short:
  assumes "ch_storage cd = Window a w" "altusWQPeek h w (ch_NextSendSeq cd) = Inr (word_of_nat avail, pos)"
    and "avail < 488" "altusWQPeek h w (ch_NextSendSeq cd + word_of_nat avail) = Inr (word_of_nat avail2, pos2)" "avail2 \<le> 4096"
    and "n = min 488 (avail + avail2)" "read_pos h pos avail = Inr d1"
    and "(if pos2 \<noteq> None then read_pos h pos2 (n - avail) else Inr []) = Inr d2" "length (d1 @ d2) = n"
  shows "send_rdt h junk cuid cd = Inr (rdt_packet cuid (ch_NextSendSeq cd) (d1 @ d2) junk,
    cd\<lparr>ch_NextSendSeq := ch_NextSendSeq cd + 488, ch_IsUpdated := ch_IsUpdated cd \<and> pos2 \<noteq> None\<rparr>)"
proof -
  have n: "n \<le> 488" "avail \<le> n" using assms(3,6) by simp_all
  have u: "unat (word_of_nat avail :: u32) = avail" "unat (word_of_nat avail + word_of_nat avail2 :: u32) = avail + avail2"
    using assms(3,5) by (simp_all add: unat_word_of_nat_u32 flip: of_nat_add)
  have lt: "\<not> 488 \<le> (word_of_nat avail :: u32)" using assms(3) by (simp add: word_le_nat_alt u)
  have s: "(if (488 :: u32) < word_of_nat avail + word_of_nat avail2 then 488 else word_of_nat avail + word_of_nat avail2) = word_of_nat n"
    using assms(6) by (auto simp: word_less_nat_alt u min_def)
  have d: "unat (word_of_nat n - word_of_nat avail :: u32) = n - avail" "unat (word_of_nat n :: u32) = n"
    using n assms(3) by (simp_all add: unat_minus_cases unat_word_of_nat_u32)
  have b: "buffer_of cd = Inr (a, w)" using assms(1) by (simp add: buffer_of_def)
  show ?thesis
    unfolding send_rdt_def b rbind_simps prod.case Let_def assms(2,4) lift_fault_simps if_not_P [OF lt] s d u(1) padding_word [OF n(1)] assms(7,8)
    using assms(9) by (cases pos2) (simp_all add: rdt_packet_def Let_def)
qed

lemma send_rdt_packet:
  assumes inv: "wq_inv h w p ns ps k v" and b: "ch_storage cd = Window a w" and big: "4096 * k + v < 4294967296"
    and x: "x = soff (headSeq w) (ch_NextSendSeq cd)" "x < 4096 * k + v" and n: "n = min 488 (4096 * k + v - x)"
  shows "\<exists>u. send_rdt h junk cuid cd = Inr (rdt_packet cuid (ch_NextSendSeq cd) (map (byte_at h ns) [x..<x + n]) junk,
      cd\<lparr>ch_NextSendSeq := ch_NextSendSeq cd + 488, ch_IsUpdated := u\<rparr>)
    \<and> (u \<longleftrightarrow> ch_IsUpdated cd \<and> (n = 488 \<or> x div 4096 \<noteq> (4096 * k + v - 1) div 4096))"
proof -
  obtain i off avail where P: "altusWQPeek h w (ch_NextSendSeq cd) = Inr (word_of_nat avail, Some (ns ! i, off))"
      "x = 4096 * i + off" "off + avail \<le> 4096" "off < 4096" "i \<le> k" "0 < avail" "x + avail \<le> 4096 * k + v"
      "x + avail < 4096 * k + v \<Longrightarrow> i < k \<and> off + avail = 4096"
    using peek_first [OF inv, of "ch_NextSendSeq cd"] x by metis
  have v: "v < 4096" using inv by (simp add: wq_inv_def)
  show ?thesis
  proof (cases "488 \<le> avail")
    case True
    have "n = 488" using True P(7) n by linarith
    moreover have "read_pos h (Some (ns ! i, off)) 488 = Inr (map (byte_at h ns) [x..<x + 488])"
      using read_pos_bytes [OF inv P(5), of off 488] P(2-4) True by simp
    ultimately have "send_rdt h junk cuid cd = Inr (rdt_packet cuid (ch_NextSendSeq cd) (map (byte_at h ns) [x..<x + n]) junk,
        cd\<lparr>ch_NextSendSeq := ch_NextSendSeq cd + 488, ch_IsUpdated := ch_IsUpdated cd\<rparr>)"
      using send_rdt_full [OF b P(1) True] P(3) by simp
    then show ?thesis using \<open>n = 488\<close> by blast
  next
    case False
    have r1: "read_pos h (Some (ns ! i, off)) avail = Inr (map (byte_at h ns) [x..<x + avail])"
      using read_pos_bytes [OF inv P(5,3,4)] P(2) by simp
    have s2: "soff (headSeq w) (ch_NextSendSeq cd + word_of_nat avail) = x + avail"
      using soff_add [of "headSeq w" "ch_NextSendSeq cd" "word_of_nat avail"] P(3,7) big x(1) by (simp add: unat_word_of_nat_u32)
    show ?thesis
    proof (cases "x + avail = 4096 * k + v")
      case True
      have "altusWQPeek h w (ch_NextSendSeq cd + word_of_nat avail) = Inr (word_of_nat 0, None)"
        using peek_end [OF inv] s2 True by simp
      moreover have "n = avail" "n = min 488 (avail + 0)" using n True False by linarith+
      moreover have "x div 4096 = (4096 * k + v - 1) div 4096"
      proof -
        have "(off + avail - 1) div 4096 = 0" "off div 4096 = 0" using P(3,4,6) by auto
        moreover have "4096 * k + v - 1 = 4096 * i + (off + avail - 1)" using True P(2,6) by linarith
        ultimately show ?thesis using P(2) by (simp only: div_mult_self4 mult.commute) simp
      qed
      ultimately show ?thesis
        using send_rdt_short [OF b P(1) _ _ _ _ r1, of 0 None n "[]" junk cuid] False True by auto
    next
      case F: False
      then have i: "i < k" "off + avail = 4096" "x + avail = 4096 * Suc i" using P(2,7,8) by auto
      then obtain i2 off2 avail2 where Q: "altusWQPeek h w (ch_NextSendSeq cd + word_of_nat avail) = Inr (word_of_nat avail2, Some (ns ! i2, off2))"
          "x + avail = 4096 * i2 + off2" "off2 + avail2 \<le> 4096" "off2 < 4096" "i2 \<le> k" "x + avail + avail2 \<le> 4096 * k + v"
          "x + avail + avail2 < 4096 * k + v \<Longrightarrow> i2 < k \<and> off2 + avail2 = 4096"
        using peek_first [OF inv, of "ch_NextSendSeq cd + word_of_nat avail"] F P(7) unfolding s2 by (metis le_neq_implies_less)
      have o2: "off2 = 0" using Q(2,4) i(3) by (metis mod_mult_self2_is_0 mod_mult_self4 mod_less mult.commute add.commute)
      have n2: "n = min 488 (avail + avail2)"
        using n Q(6,7) o2 P(7) by (cases "x + avail + avail2 < 4096 * k + v") auto
      have "read_pos h (Some (ns ! i2, off2)) (n - avail) = Inr (map (byte_at h ns) [x + avail..<x + avail + (n - avail)])"
        using read_pos_bytes [OF inv Q(5), of off2 "n - avail"] Q(2-4) n2 False by simp
      moreover have "avail \<le> n" using n2 False by simp
      moreover have "x div 4096 \<noteq> (4096 * k + v - 1) div 4096"
      proof -
        have "4096 * Suc i \<le> 4096 * k + v - 1" using F P(7) i(3) by linarith
        then have "Suc i \<le> (4096 * k + v - 1) div 4096" by (simp add: less_eq_div_iff_mult_less_eq mult.commute)
        moreover have "x div 4096 = i" using P(2,4) by simp
        ultimately show ?thesis by simp
      qed
      ultimately show ?thesis
        using send_rdt_short [OF b P(1) _ Q(1) _ n2 r1, of "map (byte_at h ns) [x + avail..<x + n]" junk cuid] False Q(3)
        by (intro exI [of _ "ch_IsUpdated cd"]) (auto simp: upt_join)
    qed
  qed
qed

section \<open>The packet at the other end\<close>

lemma rdt_packet_append:
  assumes "length data \<le> 488" "length junk = 496"
  obtains pad rest where "pad = (488 - length data) mod 16" "pad < 16"
    "rdt_packet cuid seq data junk = rdt_header cuid (word_of_nat pad) seq @ data @ rest" "length rest = pad"
proof -
  let ?pad = "(488 - length data) mod 16"
  have "?pad \<le> 488 - length data" by (rule mod_less_eq_dividend)
  then have "length (take ?pad (drop (8 + length data) junk)) = ?pad" using assms by simp
  moreover have "rdt_packet cuid seq data junk = rdt_header cuid (word_of_nat ?pad) seq @ data @ take ?pad (drop (8 + length data) junk)"
    by (simp add: rdt_packet_def Let_def)
  ultimately show thesis using that by (metis mod_less_divisor zero_less_numeral)
qed

lemma rdt_header_fields:
  "ntohs_at (rdt_header cuid pad seq @ r) 0 = cuid" "(rdt_header cuid pad seq @ r) ! 2 = pad"
  "(rdt_header cuid pad seq @ r) ! 3 = 1" "ntohl_at (rdt_header cuid pad seq @ r) 4 = seq"
  "take 2 (rdt_header cuid pad seq @ r) = store_be 2 cuid" "drop 8 (rdt_header cuid pad seq @ r) = r"
  by (simp_all add: rdt_header_def ntohs_at_def ntohl_at_def load_store_be nth_append)

lemma receive_rdt_packet:
  assumes "length data \<le> 488" "length junk = 496" "ch_IsReceiving ch" "ch_type ch = rdt_stream"
    and buf_def: "buf = rdt_packet cuid seq data junk @ stale" and n_def: "n = int (length (rdt_packet cuid seq data junk))"
  shows "\<exists>rest. receive env m ch buf n =
      rbind (put_buffer m ch (\<lambda>_. seq) (word_of_nat (length data)) (data @ rest)) (\<lambda>(c, m, ch). Inr (1, m, ch))
    \<and> ntohs_at buf 0 = cuid \<and> take 2 buf = store_be 2 cuid"
proof -
  obtain pad rest where P: "pad < 16" "length rest = pad"
    "rdt_packet cuid seq data junk = rdt_header cuid (word_of_nat pad) seq @ data @ rest"
    using rdt_packet_append [OF assms(1,2)] by metis
  have u: "uint (word_of_nat pad :: u8) = int pad" using P(1) by (simp add: uint_nat unat_of_nat)
  have d: "data_length buf n = word_of_nat (length data)"
    unfolding data_length_def buf_def n_def P(3) append_assoc rdt_header_fields u using P(2) by simp
  have one: "(1 :: u8) OR 1 \<noteq> 0" by simp
  show ?thesis
    unfolding receive_def receive_in_def d
    unfolding buf_def P(3) append_assoc rdt_header_fields
    using assms(3,4) by (intro exI [of _ "rest @ stale"]) (simp add: split_def)
qed

lemma ub_cover_empty:
  assumes "ub_inv lo b u" "ub_cover b u = {}" shows "ub_count u = 0"
proof (cases "ub_blocks u")
  case Nil
  then show ?thesis using length_ub_blocks [of u] by (simp add: unat_eq_0)
next
  case (Cons block bs)
  then have "soff b (fst block) \<in> ub_cover b u" using assms(1) by (cases block) (auto simp: ub_cover_def ub_inv_def)
  then show ?thesis using assms(2) by simp
qed

text \<open>In-order bytes at a window with nothing early.\<close>

lemma put_in_order:
  assumes inv: "wq_inv h w p ns ps k v" and e: "ub_count (ub_list w) = 0" and l: "0 < length data" "length data \<le> 488"
    and full: "\<not> window_full w (lastSeq w) (word_of_nat (length data))" and room: "room h ((v + length data) div 4096)"
  shows "\<exists>h' w' p' ns' ps' k' v'. altusWQPut h w p (lastSeq w) (word_of_nat (length data)) (data @ rest) = Inr (0, h', w', p')
    \<and> wq_inv h' w' p' ns' ps' k' v' \<and> ready (wq_stream h' w' ns' k' v') = ready (wq_stream h w ns k v) @ data
    \<and> lastSeq w' = lastSeq w + word_of_nat (length data) \<and> ub_count (ub_list w') = 0"
proof -
  have u: "unat (word_of_nat (length data) :: u32) = length data" using l by (simp add: unat_word_of_nat_u32)
  have c: "ub_cover (lastSeq w) (ub_list w) = {}" using e by (simp add: ub_cover_def ub_blocks_def)
  then have ne: "early (wq_stream h w ns k v) = (\<lambda>_. None)" by (simp add: wq_stream_def)
  have "v < 4096" using inv by (simp add: wq_inv_def)
  then have ok: "put_ok w v (lastSeq w) (word_of_nat (length data))" using full l u by (simp add: put_ok_def)
  have "put_post (stream_put (wq_stream h w ns k v) 0 data)
      (altusWQPut h w p (lastSeq w) (word_of_nat (length data)) (data @ rest))"
    using altusWQPut_result [OF inv ok, of "data @ rest"] u c e room by simp
  then obtain h' w' p' ns' ps' k' v' where R: "altusWQPut h w p (lastSeq w) (word_of_nat (length data)) (data @ rest) = Inr (0, h', w', p')"
      "wq_inv h' w' p' ns' ps' k' v'" "wq_stream h' w' ns' k' v' = stream_put (wq_stream h w ns k v) 0 data"
    unfolding put_post_def by blast
  note S = R(3) [unfolded stream_put_in_order [OF ne]]
  have "early (wq_stream h' w' ns' k' v') = (\<lambda>_. None)" using S by simp
  then have "ub_cover (lastSeq w') (ub_list w') = {}" by (auto simp: wq_stream_def fun_eq_iff split: if_splits)
  then have "ub_count (ub_list w') = 0" using R(2) ub_cover_empty by (auto simp: wq_inv_def)
  moreover have "lastSeq w' = lastSeq w + word_of_nat (length data)"
    using arg_cong [OF S, of expect] by (simp add: wq_stream_def)
  ultimately show ?thesis using R(1,2) arg_cong [OF S, of ready] by (intro exI conjI) auto
qed

lemma processPacket_rdt:
  assumes "std_find (p_ch peer) cuid = Some ch" "ntohs_at buf 0 = cuid" "take 2 buf = store_be 2 cuid"
    and "receive env m ch buf n = Inr (1, m', ch\<lparr>ch_storage := Window b w\<rparr>)" "ub_count (ub_list w) = 0"
  shows "processPacket env m peer buf n = Inr (-1, m', peer\<lparr>p_ch := std_update cuid (ch\<lparr>ch_storage := Window b w\<rparr>) (p_ch peer)\<rparr>,
    [(p_addr peer, p_port peer, store_be 2 cuid @ [0, 0] @ store_be 4 (lastSeq w))])"
proof -
  have "store_be 2 (0 :: u16) = [0, 0]" by code_simp
  then show ?thesis using assms by (simp add: processPacket_def buffer_of_def response_def Let_def)
qed

section \<open>Results\<close>

text \<open>
  C3: one packet from end to end.  A turn of the loop of \<^verbatim>\<open>Send\<close> for a channel whose next byte to send is in order
  in its window makes one packet of the next bytes of the stream, 488 or as many as there are, also across the boundary of two nodes.
  The peer at the other end, when these are the bytes it waits for and nothing is missing there, appends exactly
  these bytes to what can be read from its channel, keeps the invariant of the window, and answers with one
  acknowledgement that carries the number of the next byte it waits for.  (\<^verbatim>\<open>processPacket\<close> returns -1 all the same.)
\<close>

theorem peer_delivery:
  assumes sender: "wq_inv h w p ns ps k v" "ch_storage cd = Window a w" "4096 * k + v < 4294967296"
      "x = soff (headSeq w) (ch_NextSendSeq cd)" "x < 4096 * k + v" "n = min 488 (4096 * k + v - x)" "length junk = 496"
    and receiver: "std_find (p_ch peer) cuid = Some ch" "ch_IsReceiving ch" "ch_type ch = rdt_stream" "ch_storage ch = Window b w2"
      "wq_inv (m_heap m) w2 (m_pool m) ns2 ps2 k2 v2" "ub_count (ub_list w2) = 0" "lastSeq w2 = ch_NextSendSeq cd"
      "\<not> window_full w2 (lastSeq w2) (word_of_nat n)" "room (m_heap m) ((v2 + n) div 4096)"
  shows "\<exists>pkt cd' m' peer' w' ns' ps' k' v'. send_rdt h junk cuid cd = Inr (pkt, cd')
    \<and> processPacket env m peer (pkt @ stale) (int (length pkt)) = Inr (-1, m', peer',
        [(p_addr peer, p_port peer, store_be 2 cuid @ [0, 0] @ store_be 4 (lastSeq w2 + word_of_nat n))])
    \<and> std_find (p_ch peer') cuid = Some (ch\<lparr>ch_storage := Window b w'\<rparr>)
    \<and> wq_inv (m_heap m') w' (m_pool m') ns' ps' k' v'
    \<and> ready (wq_stream (m_heap m') w' ns' k' v') = ready (wq_stream (m_heap m) w2 ns2 k2 v2) @ map (byte_at h ns) [x..<x + n]"
proof -
  define data where "data = map (byte_at h ns) [x..<x + n]"
  define pkt where "pkt = rdt_packet cuid (ch_NextSendSeq cd) data junk"
  have l: "length data = n" "0 < n" "n \<le> 488" using sender(5,6) by (simp_all add: data_def)
  obtain u where s: "send_rdt h junk cuid cd = Inr (pkt, cd\<lparr>ch_NextSendSeq := ch_NextSendSeq cd + 488, ch_IsUpdated := u\<rparr>)"
    using send_rdt_packet [OF sender(1-6), of junk cuid] unfolding pkt_def data_def by blast
  have "length data \<le> 488" using l by simp
  from receive_rdt_packet [OF this sender(7) receiver(2,3), of "pkt @ stale" cuid "ch_NextSendSeq cd" stale _ env m, folded pkt_def, OF refl refl]
  obtain rest where r: "receive env m ch (pkt @ stale) (int (length pkt)) =
      rbind (put_buffer m ch (\<lambda>_. ch_NextSendSeq cd) (word_of_nat n) (data @ rest)) (\<lambda>(c, m, ch). Inr (1, m, ch))"
    "ntohs_at (pkt @ stale) 0 = cuid" "take 2 (pkt @ stale) = store_be 2 cuid"
    unfolding l by blast
  obtain h' w' p' ns' ps' k' v' where q: "altusWQPut (m_heap m) w2 (m_pool m) (lastSeq w2) (word_of_nat n) (data @ rest) = Inr (0, h', w', p')"
      "wq_inv h' w' p' ns' ps' k' v'" "ready (wq_stream h' w' ns' k' v') = ready (wq_stream (m_heap m) w2 ns2 k2 v2) @ data"
      "lastSeq w' = lastSeq w2 + word_of_nat n" "ub_count (ub_list w') = 0"
    using put_in_order [OF receiver(5,6), of data rest] receiver(8,9) l by auto
  define m' where "m' = m\<lparr>m_heap := h', m_pool := p'\<rparr>"
  have "receive env m ch (pkt @ stale) (int (length pkt)) = Inr (1, m', ch\<lparr>ch_storage := Window b w'\<rparr>)"
    unfolding r(1) put_buffer_def buffer_of_def using receiver(4,7) q(1) by (simp add: m'_def)
  from processPacket_rdt [OF receiver(1) r(2,3) this q(5)] s q(2-4) receiver(1)
  show ?thesis unfolding data_def
    by (intro exI [of _ pkt] exI [of _ "cd\<lparr>ch_NextSendSeq := ch_NextSendSeq cd + 488, ch_IsUpdated := u\<rparr>"] exI [of _ m']
        exI [of _ "peer\<lparr>p_ch := std_update cuid (ch\<lparr>ch_storage := Window b w'\<rparr>) (p_ch peer)\<rparr>"] exI [of _ w'] exI conjI)
       (auto simp: m'_def std_find_update)
qed

definition ex_channel :: "bool \<Rightarrow> WQ_Window \<Rightarrow> channel" where
  "ex_channel recv w = \<lparr>ch_type = rdt_stream, ch_IsReceiving = recv, ch_NextSendSeq = 100, ch_lastAckedSeq = 0, ch_lastLostLen = 0,
     ch_IsUpdated = True, ch_storage = Window 1 w, ch_storage_size = 0\<rparr>"

definition ex_env :: sysenv where
  "ex_env = \<lparr>os_created = True, os_capacity = 8, os_WriteFile = (\<lambda>f d. (length d, f @ d)), os_window = blank_window,
     os_channel = ex_channel False blank_window\<rparr>"

definition ex_peer :: "(u16, channel) std_map \<Rightarrow> ALTUSPeer" where
  "ex_peer chs = (peer_with [] 0 [] 7 8)\<lparr>p_ch := chs\<rparr>"

theorem peer_delivery_witness:
  "\<exists>h w p h2 w2 p2 pkt cd' m' peer' w' ns' k' v'. ex_put ex_open 100 [1, 2, 3] = (h, w, p) \<and> ex_open = (h2, w2, p2)
    \<and> send_rdt h (replicate 496 0) 0 (ex_channel False w) = Inr (pkt, cd')
    \<and> processPacket ex_env \<lparr>m_heap = h2, m_pool = p2, m_nodes = ex_nodes, m_npool = NodePool_new\<rparr> (ex_peer [(0, ex_channel True w2)])
        (pkt @ []) (int (length pkt)) = Inr (-1, m', peer', [(7, 8, store_be 2 (0 :: u16) @ [0, 0] @ store_be 4 (103 :: u32))])
    \<and> ready (wq_stream (m_heap m') w' ns' k' v') = [1, 2, 3]"
proof -
  obtain h w p ns ps k v where o: "ex_put ex_open 100 [1, 2, 3] = (h, w, p)" "wq_inv h w p ns ps k v"
    "wq_stream h w ns k v = stream_put (empty_stream 100) 0 [1, 2, 3]"
    by (rule ex_put_inv)
  obtain h2 w2 p2 where r: "ex_open = (h2, w2, p2)" "wq_inv h2 w2 p2 [2] [4] 0 0" "wq_stream h2 w2 [2] 0 0 = empty_stream 100"
    "room h2 4" "safe_len w2 = 1" "windowSize w2 = 0x20000" "lastSeq w2 = 100" "ub_count (ub_list w2) = 0"
    by (rule ex_open_inv)
  have s: "map (byte_at h ns) [unat (headDataOffset w)..<4096 * k + v] = [1, 2, 3]"
    using arg_cong [OF o(3), of ready] stream_put_in_order [of "empty_stream 100" "[1, 2, 3]"]
    by (simp add: wq_stream_def empty_stream_def)
  have hd: "headSeq w = 100" "headDataOffset w = 0" using ex_put_head unfolding o(1) by simp_all
  have e: "4096 * k + v = 3" using arg_cong [OF s, of length] hd by simp
  have f: "\<not> window_full w2 (lastSeq w2) (word_of_nat 3)" "room h2 (3 div 4096)" "3 = min 488 (3 - 0 :: nat)"
    using r(4-7) by (simp_all add: window_full_def room_def)
  have x: "0 = soff (headSeq w) (ch_NextSendSeq (ex_channel False w))" using hd by (simp add: ex_channel_def)
  from peer_delivery [OF o(2) _ _ x, of _ 3 "replicate 496 0" "ex_peer [(0, ex_channel True w2)]" 0 "ex_channel True w2" 1 w2
      "\<lparr>m_heap = h2, m_pool = p2, m_nodes = ex_nodes, m_npool = NodePool_new\<rparr>" "[2]" "[4]" 0 0 ex_env "[]"]
  show ?thesis using o(1) r f s hd e
    by (fastforce simp: ex_channel_def ex_peer_def peer_with_def empty_stream_def)
qed

text \<open>
  C21: the search for a free identifier ends.  While one of the 65536 identifiers is unused the new
  channel is put under an unused one, which is returned, and every other channel stays; when all are used -1 is
  returned and no channel changes.
\<close>

theorem newChannel_correct:
  assumes "std_ok (p_ch peer)" "newChannel env peer IsReceiving = (r, peer')"
  shows "std_ok (p_ch peer') \<and>
    (if \<forall>c. std_find (p_ch peer) c \<noteq> None then r = -1 \<and> p_ch peer' = p_ch peer
     else \<exists>c. r = uint c \<and> std_find (p_ch peer) c = None
       \<and> std_find (p_ch peer') = (std_find (p_ch peer))(c \<mapsto> channel_new env IsReceiving))"
proof (cases "free_cuid (p_ch peer) (p_lastcuid peer + 1) (p_lastcuid peer + 1)")
  case None
  let ?l = "p_lastcuid peer + 1"
  have "unat (c - ?l) \<le> unat (?l - ?l - 1)" for c :: u16
    using unsigned_less [of "c - ?l", where 'a = nat] by (simp add: unsigned_minus_1_eq_mask mask_eq_exp_minus_1)
  then have "std_find (p_ch peer) c \<noteq> None" for c using free_cuid_None [OF None] by blast
  then show ?thesis using None assms by (auto simp: newChannel_def Let_def)
next
  case (Some c)
  note free = free_cuid_Some [OF Some]
  have "std_find (std_insert c (channel_new env IsReceiving) (p_ch peer)) = (std_find (p_ch peer))(c \<mapsto> channel_new env IsReceiving)"
    using std.fresh_ins [OF assms(1) free] .
  moreover have "std_ok (std_insert c (channel_new env IsReceiving) (p_ch peer))" using std.ok_ins [OF assms(1)] .
  moreover have n: "\<not> (\<forall>c. std_find (p_ch peer) c \<noteq> None)" using free by blast
  moreover have "r = uint c" "p_ch peer' = std_insert c (channel_new env IsReceiving) (p_ch peer)"
    using Some assms(2) by (auto simp: newChannel_def Let_def)
  ultimately show ?thesis using free unfolding if_not_P [OF n] by metis
qed

theorem newChannel_correct_witness:
  "\<exists>c. fst (newChannel ex_env (ex_peer []) True) = uint c
    \<and> std_find (p_ch (snd (newChannel ex_env (ex_peer []) True))) = Map.empty(c \<mapsto> channel_new ex_env True)"
  using newChannel_correct [of "ex_peer []" ex_env True] by (cases "newChannel ex_env (ex_peer []) True") (auto simp: ex_peer_def std_ok_def)

end
