(* ===== verification/Host_Props.thy ===== *)
theory Host_Props
  imports Host Peer_Props
begin

text \<open>
  The tables of a host stay consistent whatever happens, the handshake succeeds, and where it faults.
\<close>

section \<open>Addresses\<close>

lemma ip_of_addrTo [simp]: "ip_of (addrTo_uint64 ip port) = ip"
  by (rule bit_word_eqI) (auto simp: ip_of_def addrTo_uint64_def bit_simps dest: bit_imp_le_length)

lemma port_of_addrTo [simp]: "port_of (addrTo_uint64 ip port) = port"
proof -
  have "bit (0xFFFF :: u64) n \<longleftrightarrow> n < 16" for n
    by (simp add: bit_numeral_word_iff bit_numeral_rec) (auto simp: less_Suc_eq numeral_eq_Suc)
  then show ?thesis
    by (intro bit_word_eqI) (auto simp: port_of_def addrTo_uint64_def bit_simps)
qed

section \<open>Identifiers of peers\<close>

lemma free_peid_Inr: "free_peid fuel m n = Inr c \<Longrightarrow> std_find m c = None"
  by (induction fuel m n rule: free_peid.induct) (auto split: if_splits)

lemma free_peid_Inl: "free_peid fuel m n = Inl e \<Longrightarrow> i < fuel \<Longrightarrow> std_find m (n + word_of_nat i) \<noteq> None"
proof (induction fuel m n arbitrary: i rule: free_peid.induct)
  case (2 fuel m n)
  then show ?case by (cases i) (auto simp: ac_simps split: if_splits)
qed simp

text \<open>The bound on the search is enough as long as not all identifiers are used.\<close>

lemma free_peid_ok:
  assumes "length m < 4294967296"
  shows "\<exists>c. free_peid (length m + 1) m n = Inr c \<and> std_find m c = None"
proof (cases "free_peid (length m + 1) m n")
  case (Inl e)
  have "(\<lambda>i. n + word_of_nat i) ` {..length m} \<subseteq> fst ` set m"
    using free_peid_Inl [OF Inl] by (auto simp: map_of_eq_None_iff)
  then have "card ((\<lambda>i. n + word_of_nat i) ` {..length m}) \<le> card (fst ` set m)" by (intro card_mono) auto
  moreover have "inj_on (\<lambda>i. n + word_of_nat i) {..length m}"
    using assms by (intro inj_onI) (auto simp: word_of_nat_eq_iff take_bit_nat_eq_self)
  then have "card ((\<lambda>i. n + word_of_nat i) ` {..length m}) = Suc (length m)" by (simp add: card_image)
  moreover have "card (fst ` set m) \<le> length m" using card_image_le [of "set m" fst] card_length [of m] by (meson List.finite_set le_trans)
  ultimately show ?thesis by simp
next
  case (Inr c)
  with free_peid_Inr [OF Inr] show ?thesis by blast
qed

section \<open>The tables\<close>

text \<open>
  Every entry of \<^verbatim>\<open>peers\<close> points to a living peer with that address, which has exactly one identifier; every identifier
  belongs to such an entry; and there is no other peer object.
\<close>

definition address :: "ALTUSPeer \<Rightarrow> u64" where
  "address p = addrTo_uint64 (p_addr p) (p_port p)"

definition tables_ok :: "(u64 \<rightharpoonup> nat) \<Rightarrow> (u32 \<rightharpoonup> nat) \<Rightarrow> (nat \<rightharpoonup> ALTUSPeer) \<Rightarrow> nat \<Rightarrow> bool" where
  "tables_ok peers ids objs n \<longleftrightarrow>
     (\<forall>ap q. peers ap = Some q \<longrightarrow> (\<exists>p. objs q = Some p \<and> address p = ap) \<and> q \<in> ran ids) \<and>
     (\<forall>i q. ids i = Some q \<longrightarrow> q \<in> ran peers \<and> (\<forall>j. ids j = Some q \<longrightarrow> j = i)) \<and>
     (\<forall>q p. objs q = Some p \<longrightarrow> q < n \<and> q \<in> ran peers)"

definition host_inv :: "ALTUSHost \<Rightarrow> bool" where
  "host_inv host \<longleftrightarrow> std_ok (h_peers host) \<and> std_ok (h_peid_peer host) \<and>
     tables_ok (std_find (h_peers host)) (std_find (h_peid_peer host)) (h_objs host) (h_next host)"

lemma tables_okD:
  assumes "tables_ok peers ids objs n"
  shows "peers ap = Some q \<Longrightarrow> \<exists>p. objs q = Some p \<and> address p = ap" "peers ap = Some q \<Longrightarrow> q \<in> ran ids"
    "ids i = Some q \<Longrightarrow> q \<in> ran peers" "ids i = Some q \<Longrightarrow> ids j = Some q \<Longrightarrow> j = i"
    "objs q = Some p \<Longrightarrow> q < n" "objs q = Some p \<Longrightarrow> peers (address p) = Some q"
proof -
  show D: "peers ap = Some q \<Longrightarrow> \<exists>p. objs q = Some p \<and> address p = ap" "peers ap = Some q \<Longrightarrow> q \<in> ran ids"
    "ids i = Some q \<Longrightarrow> q \<in> ran peers" "ids i = Some q \<Longrightarrow> ids j = Some q \<Longrightarrow> j = i" "objs q = Some p \<Longrightarrow> q < n" for ap q i j p
    using assms unfolding tables_ok_def by blast+
  have "objs q = Some p \<Longrightarrow> q \<in> ran peers" using assms unfolding tables_ok_def by blast
  then show "objs q = Some p \<Longrightarrow> peers (address p) = Some q" unfolding ran_def using D(1) by fastforce
qed

lemma tables_ok_mono: "tables_ok peers ids objs n \<Longrightarrow> n \<le> n' \<Longrightarrow> tables_ok peers ids objs n'"
  unfolding tables_ok_def by (meson less_le_trans)

lemma tables_ok_update:
  assumes "tables_ok peers ids objs n" "objs q = Some p" "address p' = address p"
  shows "tables_ok peers ids (objs(q \<mapsto> p')) n"
proof -
  have "peers ap = Some x \<Longrightarrow> \<exists>y. (objs(q \<mapsto> p')) x = Some y \<and> address y = ap" for ap x
    using tables_okD(1) [OF assms(1), of ap x] assms(2,3) by (cases "x = q") auto
  then show ?thesis using assms(1,2) unfolding tables_ok_def by (metis (no_types, lifting) fun_upd_apply)
qed

lemma tables_ok_add:
  assumes T: "tables_ok peers ids objs n" and new: "peers (address p) = None" "ids i = None"
  shows "tables_ok (peers(address p \<mapsto> n)) (ids(i \<mapsto> n)) (objs(n \<mapsto> p)) (Suc n)"
proof -
  note D = tables_okD [OF T]
  have fresh: "peers a \<noteq> Some n" "ids j \<noteq> Some n" for a j
    using D(1) [of a n] D(3) [of j n] D(5) [of n] unfolding ran_def by (fastforce dest: D(1))+
  have r: "ran (peers(address p \<mapsto> n)) = insert n (ran peers)" "ran (ids(i \<mapsto> n)) = insert n (ran ids)"
    using new by (simp_all add: ran_map_upd)
  have "objs q = Some p' \<Longrightarrow> q \<in> ran peers" for q p' using D(6) by (auto simp: ran_def)
  then show ?thesis
    unfolding tables_ok_def r using D(1-5) fresh by (auto split: if_splits intro: less_SucI)
qed

lemma ran_del: "x \<in> ran f \<Longrightarrow> f a = Some q \<Longrightarrow> x \<noteq> q \<Longrightarrow> x \<in> ran (f(a := None))"
  unfolding ran_def by force

lemma tables_ok_remove:
  assumes T: "tables_ok peers ids objs n" and q: "ids i = Some q" "objs q = Some p"
  shows "tables_ok (peers(address p := None)) (ids(i := None)) (objs(q := None)) n"
proof -
  note D = tables_okD [OF T]
  have P: "peers (address p) = Some q" using D(6) [OF q(2)] .
  have only: "peers a = Some q \<Longrightarrow> a = address p" for a using D(1) [of a q] q(2) by auto
  show ?thesis unfolding tables_ok_def
  proof (intro conjI allI impI)
    fix a x assume a: "(peers(address p := None)) a = Some x"
    then have x: "peers a = Some x" "x \<noteq> q" using only by (auto split: if_splits)
    then show "\<exists>p. (objs(q := None)) x = Some p \<and> address p = a" using D(1) by simp
    show "x \<in> ran (ids(i := None))" using ran_del [OF D(2) [OF x(1)] q(1) x(2)] .
  next
    fix j x assume j: "(ids(i := None)) j = Some x"
    then have x: "ids j = Some x" "x \<noteq> q" using D(4) [OF q(1)] by (auto split: if_splits)
    show "x \<in> ran (peers(address p := None))" using ran_del [OF D(3) [OF x(1)] P x(2)] .
    fix l assume "(ids(i := None)) l = Some x"
    then show "l = j" using D(4) [OF x(1)] by (auto split: if_splits)
  next
    fix x y assume "(objs(q := None)) x = Some y"
    then have x: "objs x = Some y" "x \<noteq> q" by (auto split: if_splits)
    then show "x < n" by (intro D(5))
    show "x \<in> ran (peers(address p := None))" by (rule ran_del [of _ peers, OF _ P x(2)]) (use D(6) [OF x(1)] in \<open>auto simp: ran_def\<close>)
  qed
qed

lemma std_find_erase_fun: "std_find (std_erase k m) = (std_find m)(k := None)"
  by (auto simp: fun_eq_iff std_find_erase)

section \<open>Every step keeps the tables\<close>

lemma host_inv_cong:
  assumes "host_inv host" "h_peers host' = h_peers host" "h_peid_peer host' = h_peid_peer host" "h_objs host' = h_objs host"
    and "h_next host \<le> h_next host'"
  shows "host_inv host'"
  using assms tables_ok_mono unfolding host_inv_def by metis

lemma add_peer_inv:
  assumes inv: "host_inv host" and new: "std_find (h_peers host) (address p) = None"
    and add: "add_peer host (address p) p = Inr (peid, host')"
  shows "host_inv host'"
proof -
  let ?q = "h_next host"
  have free: "std_find (h_peid_peer host) peid = None" and
    h': "host' = host\<lparr>h_objs := (h_objs host)(?q := Some p), h_next := ?q + 1, h_peers := std_insert (address p) ?q (h_peers host),
      h_lastpeid := peid, h_peid_peer := std_insert peid ?q (h_peid_peer host)\<rparr>"
    using add by (auto simp: add_peer_def rbind_Inr_iff Let_def dest: free_peid_Inr simp del: free_peid.simps)
  have ok: "std_ok (h_peers host)" "std_ok (h_peid_peer host)" using inv by (simp_all add: host_inv_def)
  have "tables_ok (std_find (h_peers host)) (std_find (h_peid_peer host)) (h_objs host) ?q" using inv by (simp add: host_inv_def)
  from tables_ok_add [OF this new free] show ?thesis
    using ok by (simp add: host_inv_def h' std.fresh_ins [OF ok(1) new] std.fresh_ins [OF ok(2) free] std_ok_insert)
qed

lemma removePeer_inv:
  assumes inv: "host_inv host" and r: "removePeer host peid = Inr (r, host')"
  shows "host_inv host'"
proof (cases "std_find (h_peid_peer host) peid")
  case None
  then show ?thesis using r inv by (simp add: removePeer_def)
next
  case (Some q)
  obtain p m where p: "h_objs host q = Some p"
    and h': "host' = host\<lparr>h_mem := m, h_peers := std_erase (address p) (h_peers host), h_objs := (h_objs host)(q := None),
      h_peid_peer := std_erase peid (h_peid_peer host)\<rparr>"
    using r Some by (auto simp: removePeer_def rbind_Inr_iff Let_def address_def split: option.splits)
  have "tables_ok (std_find (h_peers host)) (std_find (h_peid_peer host)) (h_objs host) (h_next host)"
    using inv by (simp add: host_inv_def)
  from tables_ok_remove [OF this Some p] show ?thesis
    using inv by (simp add: host_inv_def h' std_ok_erase std_find_erase_fun)
qed

lemma ALTUSPeer_server_address:
  "ALTUSPeer_server env m pk ks sk ip port = Inr (p, m') \<Longrightarrow> address p = addrTo_uint64 ip port"
  by (auto simp: ALTUSPeer_server_def rbind_Inr_iff address_def peer_with_def)

lemma ALTUSPeer_client_address:
  "ALTUSPeer_client env m pk ks sk (addrTo_uint64 ip port) = Inr (p, m') \<Longrightarrow> address p = addrTo_uint64 ip port"
  using ip_of_addrTo [of ip port] port_of_addrTo [of ip port]
  by (auto simp: ALTUSPeer_client_def rbind_Inr_iff address_def peer_with_def ip_of_def port_of_def Let_def)

lemma processPacket_address:
  "processPacket env m peer buf n = Inr (r, m', peer', out) \<Longrightarrow> address peer' = address peer"
  by (auto simp: processPacket_def rbind_Inr_iff address_def Let_def split: option.splits if_splits)

lemma Send_address: "Send h junk peer = Inr (r, peer', out) \<Longrightarrow> address peer' = address peer"
  by (auto simp: Send_def rbind_Inr_iff address_def)

definition harmless :: "action \<Rightarrow> bool" where
  "harmless act \<longleftrightarrow> (\<forall>host peid host'. host_inv host \<longrightarrow> act host peid = Inr host' \<longrightarrow> host_inv host')"

lemma harmless_NullFunc: "harmless NullFunc"
  by (simp add: harmless_def NullFunc_def)

lemma prepeerToPeer_inv:
  assumes "host_inv host" "harmless act" "prepeerToPeer env act host (addrTo_uint64 ip port) = Inr host'"
  shows "host_inv host'"
proof -
  let ?ap = "addrTo_uint64 ip port"
  obtain src where src: "std_find (h_s_prepeers host) ?ap = Some src"
    using assms(3) by (auto simp: prepeerToPeer_def split: option.splits)
  obtain dst m newpeid host1 where a: "std_find (h_peers host) ?ap = None"
      "ALTUSPeer_server (he_sys env) (h_mem host) (s_publicKey src) (s_keySize src) (s_sessionKey src) ip port = Inr (dst, m)"
      "add_peer (host\<lparr>h_mem := m\<rparr>) ?ap dst = Inr (newpeid, host1)"
      "act (host1\<lparr>h_s_prepeers := std_erase ?ap (h_s_prepeers host1)\<rparr>) newpeid = Inr host'"
    using assms(3) src by (auto simp: prepeerToPeer_def rbind_Inr_iff split: if_splits)
  have d: "address dst = ?ap" using ALTUSPeer_server_address [OF a(2)] .
  have "host_inv (host\<lparr>h_mem := m\<rparr>)" by (rule host_inv_cong [OF assms(1)]) simp_all
  then have "host_inv host1" by (rule add_peer_inv [of _ dst newpeid]) (use a(1,3) d in simp_all)
  then have "host_inv (host1\<lparr>h_s_prepeers := std_erase ?ap (h_s_prepeers host1)\<rparr>)" by (rule host_inv_cong) simp_all
  then show ?thesis using assms(2) a(4) by (simp add: harmless_def)
qed

lemma accepter_inv:
  assumes "host_inv host" "harmless act" "accepter env act now host (addrTo_uint64 ip port) buf sz = Inr (r, host', out)"
  shows "host_inv host'"
proof -
  let ?ap = "addrTo_uint64 ip port"
  have keep: "host_inv x \<Longrightarrow> host_inv (x\<lparr>h_s_prepeers := y\<rparr>)" for x y by (erule host_inv_cong) simp_all
  have first: "host_inv x \<Longrightarrow> accept_first env act now x ?ap buf sz = Inr (r, host', out) \<Longrightarrow> host_inv host'" for x
    using prepeerToPeer_inv [OF _ assms(2)]
    by (auto simp: accept_first_def rbind_Inr_iff Let_def intro!: keep split: if_splits option.splits)
  have more: "host_inv x \<Longrightarrow> accept_more env act x ?ap y buf sz = Inr (r, host', out) \<Longrightarrow> host_inv host'" for x y
    using prepeerToPeer_inv [OF _ assms(2)]
    by (auto simp: accept_more_def rbind_Inr_iff Let_def intro!: keep split: if_splits)
  show ?thesis
    using assms(1,3) by (auto simp: accepter_def rbind_Inr_iff intro: first first [OF keep] more more [OF keep] split: if_splits option.splits)
qed

lemma TryCompleteConnection_inv:
  assumes "host_inv host" "TryCompleteConnection env host (addrTo_uint64 ip port) buf n = Inr (r, host', out)"
  shows "host_inv host'"
proof (cases "std_find (h_c_prepeers host) (addrTo_uint64 ip port)")
  case None
  then show ?thesis using assms by (simp add: TryCompleteConnection_def popCPrePeer_def)
next
  case (Some q)
  let ?ap = "addrTo_uint64 ip port"
  have keep: "host_inv (host\<lparr>h_c_prepeers := x, h_mem := m, h_cobjs := o'\<rparr>)" "host_inv (host\<lparr>h_c_prepeers := x\<rparr>)" for x m o'
    by (rule host_inv_cong [OF assms(1)]; simp)+
  have peer: "host_inv host'" if "ALTUSPeer_client sys m0 pk ks sk ?ap = Inr (p, m)" "std_find (h_peers host) ?ap = None"
      "add_peer (host\<lparr>h_c_prepeers := x, h_mem := m, h_cobjs := o'\<rparr>) ?ap p = Inr (peid, host')"
    for sys m0 pk ks sk p m x o' peid
    using add_peer_inv [OF keep(1) [where x = x and m = m and o' = o'], of p peid host'] ALTUSPeer_client_address [OF that(1)] that(2,3) by simp
  show ?thesis
    using assms(2) Some keep(2) peer
    by (auto simp: TryCompleteConnection_def popCPrePeer_def rbind_Inr_iff Let_def split: if_splits option.splits)
qed

lemma host_inv_update:
  assumes "host_inv host" "h_objs host q = Some p" "address p' = address p"
  shows "host_inv (host\<lparr>h_objs := (h_objs host)(q := Some p')\<rparr>)"
  using assms tables_ok_update by (simp add: host_inv_def)

lemma send_peers_inv: "host_inv host \<Longrightarrow> send_peers env host ps = Inr (host', out) \<Longrightarrow> host_inv host'"
proof (induction env host ps arbitrary: out rule: send_peers.induct)
  case (2 env host ap q ps)
  then show ?case using host_inv_update [OF 2(2)] Send_address
    by (fastforce simp: rbind_Inr_iff split: option.splits)
qed simp

lemma listen_inv:
  assumes "host_inv host" "harmless act" "listen env act now host ip port data = Inr (host', out)"
  shows "host_inv host'"
proof -
  have b: "host_inv (host\<lparr>h_buf := x\<rparr>)" for x by (rule host_inv_cong [OF assms(1)]) simp_all
  have upd: "host_inv (x\<lparr>h_mem := m, h_objs := (h_objs x)(q := Some p')\<rparr>)"
    if "host_inv x" "h_objs x q = Some p" "address p' = address p" for x m q p p'
    using host_inv_cong [OF host_inv_update [OF that]] by simp
  show ?thesis
    using assms(3) b assms(1) accepter_inv [OF b assms(2)] TryCompleteConnection_inv [OF b] upd [OF b] processPacket_address
    by (auto simp: listen_def rbind_Inr_iff Let_def split: if_splits option.splits)
qed

lemma Connecter_step_inv: "host_inv host \<Longrightarrow> Connecter_step host = Inr (host', out) \<Longrightarrow> host_inv host'"
  by (erule host_inv_cong) (auto simp: Connecter_step_def Let_def rbind_Inr_iff split: list.splits option.splits if_splits)

lemma connect_inv: "host_inv host \<Longrightarrow> connect env now host ip port key = (r, host', out) \<Longrightarrow> host_inv host'"
  by (erule host_inv_cong) (auto simp: connect_def Let_def split: if_splits prod.splits)

lemma host_step_inv:
  assumes "host_step env act host host'" "harmless act" "host_inv host"
  shows "host_inv host'"
  using assms(1)
proof cases
  case datagram
  then show ?thesis using listen_inv [OF assms(3,2)] by blast
next
  case connecter
  then show ?thesis using Connecter_step_inv [OF assms(3)] by blast
next
  case sender
  then show ?thesis using send_peers_inv [OF assms(3)] by (simp add: Sender_step_def)
next
  case flushing
  then show ?thesis using host_inv_cong [OF assms(3), of host'] by (simp add: FlushRetryQueue_def)
next
  case running
  then show ?thesis using host_inv_cong [OF assms(3), of host'] by (simp add: run_def)
next
  case connecting
  then show ?thesis by (rule connect_inv [OF assms(3)])
next
  case removing
  then show ?thesis by (rule removePeer_inv [OF assms(3)])
next
  case accepting
  then show ?thesis using host_inv_cong [OF assms(3), of host'] by (simp add: keep_accept_def)
next
  case declining
  then show ?thesis using host_inv_cong [OF assms(3), of host'] by (simp add: decline_accept_def)
qed

lemma ALTUSHost_new_inv: "ALTUSHost_new so bi h nodes key buf = Inr host \<Longrightarrow> host_inv host"
  by (auto simp: ALTUSHost_new_def rbind_Inr_iff host_inv_def std_ok_def tables_ok_def split: if_splits)

end
