(* ===== verification/Handshake.thy ===== *)
theory Handshake
  imports Host_Props
begin

text \<open>
  Two hosts and a network that loses nothing: the handshake from \<^verbatim>\<open>connect\<close> to a peer at both ends.
\<close>

section \<open>Memory for a peer\<close>

definition peer_room :: "mem \<Rightarrow> bool" where
  "peer_room m \<longleftrightarrow> room (m_heap m) 6 \<and> 0 < brk (m_heap m) \<and> rhead (m_npool m) = 0 \<and> cbrk (m_nodes m) < climit (m_nodes m)"

lemma rdt_channel_ok:
  assumes "0 < brk (m_heap m)" "room (m_heap m) (n + 2)"
  shows "\<exists>ch m'. rdt_channel env m recv = Inr (ch, m') \<and> 0 < brk (m_heap m') \<and> room (m_heap m') n
    \<and> m_nodes m' = m_nodes m \<and> m_npool m' = m_npool m"
  using assms
  by (simp add: rdt_channel_def LinkRDTWindow_def new_window_def altusNewWindow_def malloc_def room_def Let_def upd_def)

lemma file_channel_ok:
  assumes "os_created env" "rhead (m_npool m) = 0" "cbrk (m_nodes m) < climit (m_nodes m)"
  shows "\<exists>ch m'. channel_new_typed env m file_stream_rcv arg n = Inr (ch, m')"
  using assms by (simp add: channel_new_typed_def FileRcvStream_new_def pop_or_new_def NodePool_pop_def new_Node_def Let_def)

lemma four_channels_ok:
  assumes "peer_room m" "os_created env"
  shows "\<exists>c1 m1 c2 m2 c3 m3 c4 m4. rdt_channel env m r1 = Inr (c1, m1) \<and> rdt_channel env m1 r2 = Inr (c2, m2)
    \<and> rdt_channel env m2 r3 = Inr (c3, m3) \<and> channel_new_typed env m3 file_stream_rcv [] 0 = Inr (c4, m4)"
proof -
  note P = assms(1) [unfolded peer_room_def]
  obtain c1 m1 where 1: "rdt_channel env m r1 = Inr (c1, m1)" "0 < brk (m_heap m1)" "room (m_heap m1) 4" "m_nodes m1 = m_nodes m" "m_npool m1 = m_npool m"
    using rdt_channel_ok [of m 4 env r1] P by auto
  obtain c2 m2 where 2: "rdt_channel env m1 r2 = Inr (c2, m2)" "0 < brk (m_heap m2)" "room (m_heap m2) 2" "m_nodes m2 = m_nodes m" "m_npool m2 = m_npool m"
    using rdt_channel_ok [of m1 2 env r2] 1 by auto
  obtain c3 m3 where 3: "rdt_channel env m2 r3 = Inr (c3, m3)" "m_nodes m3 = m_nodes m" "m_npool m3 = m_npool m"
    using rdt_channel_ok [of m2 0 env r3] 2 by (auto simp: numeral_2_eq_2)
  obtain c4 m4 where "channel_new_typed env m3 file_stream_rcv [] 0 = Inr (c4, m4)"
    using file_channel_ok [of env m3 "[]" 0] P 3 assms(2) by auto
  with 1 2 3 show ?thesis by blast
qed

lemma ALTUSPeer_server_ok:
  assumes "peer_room m" "os_created env"
  shows "\<exists>p m'. ALTUSPeer_server env m pk ks sk ip port = Inr (p, m')"
  using four_channels_ok [OF assms, of True False False] by (auto simp: ALTUSPeer_server_def)

lemma ALTUSPeer_client_ok:
  assumes "peer_room m" "os_created env"
  shows "\<exists>p m'. ALTUSPeer_client env m pk ks sk ap = Inr (p, m')"
  using four_channels_ok [OF assms, of False True False] by (auto simp: ALTUSPeer_client_def Let_def)

lemma add_peer_ok:
  assumes "length (h_peid_peer host) < 4294967296" "std_ok (h_peers host)" "std_find (h_peers host) ap = None"
  shows "\<exists>peid host'. add_peer host ap p = Inr (peid, host') \<and> std_find (h_peers host') ap = Some (h_next host)
    \<and> std_find (h_peid_peer host) peid = None \<and> h_peid_peer host' = std_insert peid (h_next host) (h_peid_peer host)
    \<and> h_objs host' (h_next host) = Some p"
proof -
  obtain c where c: "free_peid (length (h_peid_peer host) + 1) (h_peid_peer host) (h_lastpeid host + 1) = Inr c" "std_find (h_peid_peer host) c = None"
    using free_peid_ok [OF assms(1)] by blast
  then show ?thesis using std.fresh_ins [OF assms(2,3)] unfolding add_peer_def Let_def by (simp del: free_peid.simps)
qed

section \<open>The network\<close>

text \<open>The datagrams addressed to a host, and their delivery in order.\<close>

definition sent_to :: "u32 \<Rightarrow> u16 \<Rightarrow> datagram list \<Rightarrow> u8 list list" where
  "sent_to ip port out = map (\<lambda>(_, _, d). d) (filter (\<lambda>(i, p, _). i = ip \<and> p = port) out)"

fun deliver :: "host_env \<Rightarrow> action \<Rightarrow> u32 \<Rightarrow> ALTUSHost \<Rightarrow> u32 \<Rightarrow> u16 \<Rightarrow> u8 list list \<Rightarrow> (ALTUSHost \<times> datagram list) cres" where
  "deliver env act now host ip port [] = Inr (host, [])"
| "deliver env act now host ip port (d # ds) =
     rbind (listen env act now host ip port d) (\<lambda>(host, out).
     rbind (deliver env act now host ip port ds) (\<lambda>(host, out'). Inr (host, out @ out')))"

section \<open>The packets of the handshake\<close>

definition page_header :: "char \<Rightarrow> u8 list" where
  "page_header c = bytes_of ''ALTUS/1.0'' @ [of_char c] @ store_be 2 (700 :: u16)"

lemma length_page_header [simp]: "length (page_header c) = 12"
  by (simp add: page_header_def bytes_of_def)

lemma pages_700:
  assumes "length key = 700"
  shows "pages key 700 0 (of_char CHR ''A'') = [page_header CHR ''A'' @ take 472 key, page_header CHR ''B'' @ take 204 key]"
proof -
  have b: "of_char CHR ''A'' + 1 = (of_char CHR ''B'' :: u8)" by code_simp
  have "pages key 700 700 p = []" for p by (simp add: pages.simps)
  then have 2: "pages key 700 484 (of_char CHR ''B'') = [page_header CHR ''B'' @ take 204 key]"
    by (subst pages.simps) (simp add: page_header_def bytes_of_def Let_def assms)
  show ?thesis using 2 b by (subst pages.simps) (simp add: page_header_def bytes_of_def Let_def)
qed

lemma page_header_fields:
  "take 6 (page_header c @ r) = bytes_of ''ALTUS/''" "take 3 (drop 6 (page_header c @ r)) = bytes_of ''1.0''"
  "(page_header c @ r) ! 9 = of_char c" "ntohs_at (page_header c @ r) 10 = 700" "drop 12 (page_header c @ r) = r"
  by (simp_all add: page_header_def bytes_of_def ntohs_at_def load_store_be)

section \<open>The server's steps\<close>

definition ready_for :: "ALTUSHost \<Rightarrow> u64 \<Rightarrow> bool" where
  "ready_for host ap \<longleftrightarrow> length (h_buf host) = 496 \<and> h_IsAccepting host \<and> std_find (h_peers host) ap = None
     \<and> std_find (h_c_prepeers host) ap = None \<and> std_ok (h_s_prepeers host)"

text \<open>The buffer after a datagram; only its length matters.\<close>

lemma listen_accepter:
  assumes "ready_for host (addrTo_uint64 ip port)" "length d \<le> 496"
  shows "listen env act now host ip port d =
    rbind (accepter env act now (host\<lparr>h_buf := d @ drop (length d) (h_buf host)\<rparr>) (addrTo_uint64 ip port)
      (d @ drop (length d) (h_buf host)) (length d)) (\<lambda>(_, host, out). Inr (host, out))"
  using assms by (simp add: listen_def ready_for_def split_def Let_def)

lemma accepter_unknown:
  assumes "12 \<le> sz" "take 6 buf = bytes_of ''ALTUS/''" "take 3 (drop 6 buf) = bytes_of ''1.0''" "std_find (h_s_prepeers host) ap = None"
  shows "accepter env act now host ap buf sz = accept_first env act now host ap buf sz"
  using assms by (simp add: accepter_def)

lemma accepter_known:
  assumes "12 \<le> sz" "take 6 buf = bytes_of ''ALTUS/''" "take 3 (drop 6 buf) = bytes_of ''1.0''" "std_find (h_s_prepeers host) ap = Some sp"
    and "now - s_starttime sp \<le> 5000"
  shows "accepter env act now host ap buf sz = accept_more env act host ap sp buf sz"
proof -
  have "\<not> 5000 < now - s_starttime sp" using assms(5) by simp
  then show ?thesis using assms(1-4) by (simp add: accepter_def)
qed

lemma page_A:
  assumes r: "ready_for host ap" "ap = addrTo_uint64 ip port" "std_find (h_s_prepeers host) ap = None" "length r = 472"
  shows "\<exists>sp buf. listen env act now host ip port (page_header CHR ''A'' @ r)
      = Inr (host\<lparr>h_buf := buf, h_s_prepeers := std_insert ap sp (h_s_prepeers host)\<rparr>, [])
    \<and> length buf = 496 \<and> s_keySize sp = 700 \<and> length (s_publicKey sp) = 700 \<and> s_starttime sp = now"
proof -
  define rest where "rest = drop 484 (h_buf host)"
  have l: "length (page_header CHR ''A'' @ r) = 484" "length rest = 12" using r by (simp_all add: rest_def ready_for_def)
  have o: "page_offset (of_char CHR ''A'') = Some 0" by code_simp
  let ?new = "(ALTUS_SPrePeer_new env now)\<lparr>s_keySize := 700\<rparr>" and ?buf = "page_header CHR ''A'' @ r @ rest"
  obtain key where c: "copy_key (s_publicKey ?new) 0 (r @ rest) 472 = Inr key" "length key = 700"
    using l r(4) by (simp add: copy_key_def ALTUS_SPrePeer_new_def)
  define sp where "sp = mark_page 0 (?new\<lparr>s_publicKey := key\<rparr>)"
  have "accept_first env act now (host\<lparr>h_buf := ?buf\<rparr>) ap ?buf 484
      = Inr (1, host\<lparr>h_buf := ?buf, h_s_prepeers := std_insert ap sp (h_s_prepeers host)\<rparr>, [])"
    unfolding accept_first_def page_header_fields o using c(1) by (simp add: Let_def sp_def)
  then have "accepter env act now (host\<lparr>h_buf := ?buf\<rparr>) ap ?buf 484
      = Inr (1, host\<lparr>h_buf := ?buf, h_s_prepeers := std_insert ap sp (h_s_prepeers host)\<rparr>, [])"
    using accepter_unknown [of 484 ?buf "host\<lparr>h_buf := ?buf\<rparr>" ap env act now] page_header_fields(1,2) r(3) by simp
  moreover have "length (s_publicKey sp) = 700" "s_keySize sp = 700" "s_starttime sp = now"
    using c(2) by (simp_all add: sp_def mark_page_def ALTUS_SPrePeer_new_def)
  ultimately show ?thesis
    using listen_accepter [of host ip port "page_header CHR ''A'' @ r" env act now] r(1,2) l
    by (intro exI [of _ sp] exI [of _ ?buf]) (simp flip: rest_def)
qed

lemma page_B:
  assumes r: "ready_for host ap" "ap = addrTo_uint64 ip port" "std_find (h_s_prepeers host) ap = Some sp" "length r = 204"
    and sp: "s_keySize sp = 700" "length (s_publicKey sp) = 700" "s_starttime sp = now"
  shows "\<exists>sp' buf. listen env act now host ip port (page_header CHR ''B'' @ r)
      = Inr (host\<lparr>h_buf := buf, h_s_prepeers := std_update ap sp' (h_s_prepeers host)\<rparr>, [sendAck ap])
    \<and> length buf = 496 \<and> s_IsAckSent sp' \<and> s_starttime sp' = now"
proof -
  define rest where "rest = drop 216 (h_buf host)"
  have l: "length (page_header CHR ''B'' @ r) = 216" "length rest = 280" using r by (simp_all add: rest_def ready_for_def)
  have o: "page_offset (of_char CHR ''B'') = Some 484" "of_char CHR ''B'' \<noteq> (of_char CHR ''Z'' :: u8)" by code_simp+
  let ?buf = "page_header CHR ''B'' @ r @ rest"
  obtain key where c: "copy_key (s_publicKey sp) 484 ?buf 204 = Inr key" using l sp(2) by (simp add: copy_key_def)
  define sp' where "sp' = (mark_page 484 (sp\<lparr>s_publicKey := key\<rparr>))\<lparr>s_IsAckSent := True\<rparr>"
  have a: "key_arrived (mark_page 484 (sp\<lparr>s_publicKey := key\<rparr>))" using sp(1) by (simp add: key_arrived_def mark_page_def)
  have "accept_more env act (host\<lparr>h_buf := ?buf\<rparr>) ap sp ?buf 216
      = Inr (0, host\<lparr>h_buf := ?buf, h_s_prepeers := std_update ap sp' (h_s_prepeers host)\<rparr>, [sendAck ap])"
    unfolding accept_more_def page_header_fields o(1) using c a o(2) by (simp add: Let_def sp'_def)
  then have "accepter env act now (host\<lparr>h_buf := ?buf\<rparr>) ap ?buf 216
      = Inr (0, host\<lparr>h_buf := ?buf, h_s_prepeers := std_update ap sp' (h_s_prepeers host)\<rparr>, [sendAck ap])"
    using accepter_known [of 216 ?buf "host\<lparr>h_buf := ?buf\<rparr>" ap sp now env act] page_header_fields(1,2) r(3) sp(3) by simp
  then show ?thesis
    using listen_accepter [of host ip port "page_header CHR ''B'' @ r" env act now] r(1,2) l sp(3)
    by (intro exI [of _ sp'] exI [of _ ?buf]) (simp add: sp'_def mark_page_def flip: rest_def)
qed

definition done_packet :: "u8 list" where
  "done_packet = bytes_of ''ALTUS/1.0Z'' @ [0, 0]"

lemma done_packet_fields:
  "length done_packet = 12" "take 6 (done_packet @ r) = bytes_of ''ALTUS/''" "take 3 (drop 6 (done_packet @ r)) = bytes_of ''1.0''"
  "(done_packet @ r) ! 9 = of_char CHR ''Z''"
  by (simp_all add: done_packet_def bytes_of_def)

lemma page_Z:
  assumes r: "ready_for host ap" "ap = addrTo_uint64 ip port" "std_find (h_s_prepeers host) ap = Some sp" "s_IsAckSent sp"
      "now - s_starttime sp \<le> 5000"
    and m: "peer_room (h_mem host)" "os_created (he_sys env)" "length (h_peid_peer host) < 4294967296" "std_ok (h_peers host)"
  shows "\<exists>host' peid. listen env NullFunc now host ip port done_packet = Inr (host', [])
    \<and> std_find (h_peers host') ap = Some (h_next host) \<and> h_peid_peer host' = std_insert peid (h_next host) (h_peid_peer host)
    \<and> std_find (h_peid_peer host) peid = None"
proof -
  let ?buf = "done_packet @ drop 12 (h_buf host)"
  let ?h = "host\<lparr>h_buf := ?buf\<rparr>"
  have n: "std_find (h_peers host) ap = None" using r(1) by (simp add: ready_for_def)
  obtain p m' where p: "ALTUSPeer_server (he_sys env) (h_mem host) (s_publicKey sp) (s_keySize sp) (s_sessionKey sp) (ip_of ap) (port_of ap) = Inr (p, m')"
    using ALTUSPeer_server_ok [OF m(1,2)] by blast
  obtain peid host1 where a: "add_peer (?h\<lparr>h_mem := m'\<rparr>) ap p = Inr (peid, host1)" "std_find (h_peers host1) ap = Some (h_next host)"
      "std_find (h_peid_peer host) peid = None" "h_peid_peer host1 = std_insert peid (h_next host) (h_peid_peer host)"
    using add_peer_ok [of "?h\<lparr>h_mem := m'\<rparr>" ap p] m(3,4) n by auto
  have "accept_more env NullFunc ?h ap sp ?buf 12 = Inr (0, host1\<lparr>h_s_prepeers := std_erase ap (h_s_prepeers host1)\<rparr>, [])"
    unfolding accept_more_def done_packet_fields
    using r(3,4) p a(1) n by (simp add: prepeerToPeer_def NullFunc_def)
  then have "accepter env NullFunc now ?h ap ?buf 12 = Inr (0, host1\<lparr>h_s_prepeers := std_erase ap (h_s_prepeers host1)\<rparr>, [])"
    using accepter_known [of 12 ?buf ?h ap sp now env NullFunc] done_packet_fields r(3,5) by simp
  then show ?thesis
    using listen_accepter [of host ip port done_packet env NullFunc now] r(1,2) a(2-4)
    by (intro exI [of _ "host1\<lparr>h_s_prepeers := std_erase ap (h_s_prepeers host1)\<rparr>"] exI [of _ peid]) (simp add: done_packet_fields(1))
qed

section \<open>The client's steps\<close>

lemma ack_packet_fields:
  "sendAck ap = (ip_of ap, port_of ap, bytes_of ''ALTUS/1.0Y'' @ [0, 0] @ replicate 32 0)"
  "length (bytes_of ''ALTUS/1.0Y'' @ [0, 0] @ replicate 32 (0 :: u8)) = 44"
  "take 10 ((bytes_of ''ALTUS/1.0Y'' @ [0, 0] @ replicate 32 0) @ r) = bytes_of ''ALTUS/1.0Y''"
  "((bytes_of ''ALTUS/1.0Y'' @ [0, 0] @ replicate 32 0) @ r) ! 10 = 0"
  by (simp_all add: sendAck_def bytes_of_def)

lemma connect_sends:
  assumes "std_find (h_c_prepeers host) ap = None" "std_ok (h_c_prepeers host)" "ap = addrTo_uint64 ip (htons hport)"
    and "h_myPublicKeySize host = 700" "length (h_myPublicKey host) = 700"
  shows "\<exists>host' cp. connect env now host ip hport key = (0, host',
      [(ip, htons hport, page_header CHR ''A'' @ take 472 (h_myPublicKey host)), (ip, htons hport, page_header CHR ''B'' @ take 204 (h_myPublicKey host))])
    \<and> std_find (h_c_prepeers host') ap = Some (h_next host) \<and> h_cobjs host' (h_next host) = Some cp
    \<and> h_peers host' = h_peers host \<and> h_peid_peer host' = h_peid_peer host \<and> h_mem host' = h_mem host \<and> h_buf host' = h_buf host"
proof -
  have a: "push_bit 32 (ucast ip) OR ucast (htons hport) = ap" using assms(3) by (simp add: addrTo_uint64_def)
  have f: "std_find (std_insert ap q (h_c_prepeers host)) ap = Some q" for q
    using std.fresh_ins [OF assms(2,1)] by simp
  have p: "ip_of ap = ip" "port_of ap = htons hport" using assms(3) by simp_all
  show ?thesis
    unfolding connect_def Let_def a SendHandShake1_def using assms(1,4) f pages_700 [OF assms(5)] by (simp add: p)
qed

lemma client_completes:
  assumes r: "length (h_buf host) = 496" "ap = addrTo_uint64 ip port" "std_find (h_peers host) ap = None"
      "std_find (h_c_prepeers host) ap = Some q" "h_cobjs host q = Some cp"
    and m: "peer_room (h_mem host)" "os_created (he_sys env)" "length (h_peid_peer host) < 4294967296" "std_ok (h_peers host)"
  shows "\<exists>host' x peid. listen env act now host ip port (bytes_of ''ALTUS/1.0Y'' @ [0, 0] @ replicate 32 0) = Inr (host', [(ip, port, done_packet)])
    \<and> std_find (h_peers host') ap = Some x \<and> h_peid_peer host' = std_insert peid x (h_peid_peer host)
    \<and> std_find (h_peid_peer host) peid = None"
proof -
  let ?d = "bytes_of ''ALTUS/1.0Y'' @ [0, 0] @ replicate 32 0"
  define buf where "buf = ?d @ drop 44 (h_buf host)"
  define h1 where "h1 = host\<lparr>h_buf := buf, h_c_prepeers := std_erase ap (h_c_prepeers host)\<rparr>"
  have b: "take 10 buf = bytes_of ''ALTUS/1.0Y''" "buf ! 10 = 0" unfolding buf_def by (rule ack_packet_fields)+
  obtain p m' where p: "ALTUSPeer_client (he_sys env) (h_mem host) (c_publicKey cp) (c_keySize cp) (take 32 (drop 12 buf)) ap = Inr (p, m')"
    using ALTUSPeer_client_ok [OF m(1,2)] by blast
  define h2 where "h2 = h1\<lparr>h_mem := m', h_cobjs := (h_cobjs host)(q := Some (cp\<lparr>c_Expired := True, c_publicKey := [], c_sessionKey := []\<rparr>))\<rparr>"
  obtain peid h3 where a: "add_peer h2 ap p = Inr (peid, h3)" "std_find (h_peers h3) ap = Some (h_next h2)"
      "std_find (h_peid_peer host) peid = None" "h_peid_peer h3 = std_insert peid (h_next h2) (h_peid_peer host)"
    using add_peer_ok [of h2 ap p] m(3,4) r(3) by (auto simp: h2_def h1_def)
  have "addrTo_uint64 (p_addr p) (p_port p) = ap" using ALTUSPeer_client_address p r(2) by (metis address_def)
  then have pa: "p_addr p = ip" "p_port p = port" using r(2) by (metis ip_of_addrTo port_of_addrTo)+
  have "TryCompleteConnection env (host\<lparr>h_buf := buf\<rparr>) ap buf 44 = Inr (0, h3, [(ip, port, done_packet)])"
    using r(3-5) b p a(1) pa by (simp add: TryCompleteConnection_def popCPrePeer_def Let_def h2_def h1_def done_packet_def)
  moreover have "listen env act now host ip port ?d = rbind (TryCompleteConnection env (host\<lparr>h_buf := buf\<rparr>) ap buf 44) (\<lambda>(_, host, out). Inr (host, out))"
    using r ack_packet_fields(2) by (simp add: listen_def Let_def buf_def split_def)
  ultimately show ?thesis using a(2-4) by (intro exI [of _ h3] exI [of _ "h_next h2"] exI [of _ peid]) simp
qed

section \<open>The handshake\<close>

definition handshake ::
  "host_env \<Rightarrow> host_env \<Rightarrow> u32 \<Rightarrow> u32 \<Rightarrow> u32 \<Rightarrow> u32 \<Rightarrow> ALTUSHost \<Rightarrow> u32 \<Rightarrow> u16 \<Rightarrow> ALTUSHost \<Rightarrow> u32 \<Rightarrow> u16 \<Rightarrow> u8 list
     \<Rightarrow> (ALTUSHost \<times> ALTUSHost) cres" where
  "handshake envA envB t1 t2 t3 t4 client ipA portA server ipB hportB key =
     (let portB = htons hportB; (_, client, out) = connect envA t1 client ipB hportB key in
      rbind (deliver envB NullFunc t2 server ipA portA (sent_to ipB portB out)) (\<lambda>(server, out).
      rbind (deliver envA NullFunc t3 client ipB portB (sent_to ipA portA out)) (\<lambda>(client, out).
      rbind (deliver envB NullFunc t4 server ipA portA (sent_to ipB portB out)) (\<lambda>(server, out).
      Inr (client, server)))))"

definition can_connect :: "host_env \<Rightarrow> ALTUSHost \<Rightarrow> u64 \<Rightarrow> bool" where
  "can_connect env host ap \<longleftrightarrow> length (h_buf host) = 496 \<and> std_find (h_peers host) ap = None \<and> std_find (h_c_prepeers host) ap = None
     \<and> std_ok (h_peers host) \<and> std_ok (h_peid_peer host) \<and> std_ok (h_c_prepeers host) \<and> std_ok (h_s_prepeers host) \<and> peer_room (h_mem host)
     \<and> os_created (he_sys env) \<and> length (h_peid_peer host) < 4294967296"

lemma server_acks:
  assumes s: "can_connect env host ap" "h_IsAccepting host" "std_find (h_s_prepeers host) ap = None" "ap = addrTo_uint64 ip port"
    and l: "length r1 = 472" "length r2 = 204"
  shows "\<exists>host' sp. deliver env act now host ip port [page_header CHR ''A'' @ r1, page_header CHR ''B'' @ r2] = Inr (host', [sendAck ap])
    \<and> can_connect env host' ap \<and> h_IsAccepting host' \<and> h_peid_peer host' = h_peid_peer host
    \<and> std_find (h_s_prepeers host') ap = Some sp \<and> s_IsAckSent sp \<and> s_starttime sp = now"
proof -
  note S = s(1) [unfolded can_connect_def]
  obtain sp buf where 1: "listen env act now host ip port (page_header CHR ''A'' @ r1)
      = Inr (host\<lparr>h_buf := buf, h_s_prepeers := std_insert ap sp (h_s_prepeers host)\<rparr>, [])"
    "length buf = 496" "s_keySize sp = 700" "length (s_publicKey sp) = 700" "s_starttime sp = now"
    using page_A [of host ap ip port r1 env act now] s l(1) S by (auto simp: ready_for_def)
  let ?h1 = "host\<lparr>h_buf := buf, h_s_prepeers := std_insert ap sp (h_s_prepeers host)\<rparr>"
  have f: "std_find (std_insert ap sp (h_s_prepeers host)) ap = Some sp" "std_ok (std_insert ap sp (h_s_prepeers host))"
    using std.fresh_ins [of "h_s_prepeers host" ap sp] std_ok_insert S s(3) by auto
  obtain sp' buf' where 2: "listen env act now ?h1 ip port (page_header CHR ''B'' @ r2)
      = Inr (?h1\<lparr>h_buf := buf', h_s_prepeers := std_update ap sp' (h_s_prepeers ?h1)\<rparr>, [sendAck ap])"
    "length buf' = 496" "s_IsAckSent sp'" "s_starttime sp' = now"
    using page_B [of ?h1 ap ip port sp r2 now env act] s l(2) S 1 f by (auto simp: ready_for_def)
  let ?h2 = "?h1\<lparr>h_buf := buf', h_s_prepeers := std_update ap sp' (h_s_prepeers ?h1)\<rparr>"
  have "deliver env act now host ip port [page_header CHR ''A'' @ r1, page_header CHR ''B'' @ r2] = Inr (?h2, [sendAck ap])"
    using 1(1) 2(1) by simp
  moreover have "can_connect env ?h2 ap" using S 2(2) f(2) by (simp add: can_connect_def std_ok_update)
  ultimately show ?thesis using s(2) 2(3,4) f(1) by (intro exI [of _ ?h2] exI [of _ sp']) (simp add: std_find_update)
qed

lemma handshake_succeeds:
  assumes A: "can_connect envA client (addrTo_uint64 ipB (htons hportB))" "h_myPublicKeySize client = 700" "length (h_myPublicKey client) = 700"
    and B: "can_connect envB server (addrTo_uint64 ipA portA)" "h_IsAccepting server" "std_find (h_s_prepeers server) (addrTo_uint64 ipA portA) = None"
    and t: "t4 - t2 \<le> 5000"
  shows "\<exists>client' server' qA qB idA idB. handshake envA envB t1 t2 t3 t4 client ipA portA server ipB hportB key = Inr (client', server')
    \<and> std_find (h_peers client') (addrTo_uint64 ipB (htons hportB)) = Some qA \<and> std_find (h_peid_peer client') idA = Some qA
    \<and> std_find (h_peers server') (addrTo_uint64 ipA portA) = Some qB \<and> std_find (h_peid_peer server') idB = Some qB"
proof -
  let ?apA = "addrTo_uint64 ipA portA" and ?portB = "htons hportB"
  let ?apB = "addrTo_uint64 ipB ?portB"
  note CA = A(1) [unfolded can_connect_def]
  have found: "std_ok m \<Longrightarrow> std_find m i = None \<Longrightarrow> std_find (std_insert i x m) i = Some x" for m :: "(u32, nat) std_map" and i x
    using std.fresh_ins by fastforce
  obtain c1 cp where 1: "connect envA t1 client ipB hportB key = (0, c1, [(ipB, ?portB, page_header CHR ''A'' @ take 472 (h_myPublicKey client)),
        (ipB, ?portB, page_header CHR ''B'' @ take 204 (h_myPublicKey client))])"
      "std_find (h_c_prepeers c1) ?apB = Some (h_next client)" "h_cobjs c1 (h_next client) = Some cp"
      "h_peers c1 = h_peers client" "h_peid_peer c1 = h_peid_peer client" "h_mem c1 = h_mem client" "h_buf c1 = h_buf client"
    using connect_sends [of client ?apB ipB hportB envA t1 key] CA A(2,3) by auto
  obtain s1 sp where 2: "deliver envB NullFunc t2 server ipA portA [page_header CHR ''A'' @ take 472 (h_myPublicKey client), page_header CHR ''B'' @ take 204 (h_myPublicKey client)]
        = Inr (s1, [sendAck ?apA])"
      "can_connect envB s1 ?apA" "h_IsAccepting s1" "std_find (h_s_prepeers s1) ?apA = Some sp" "s_IsAckSent sp" "s_starttime sp = t2"
    using server_acks [OF B refl, of "take 472 (h_myPublicKey client)" "take 204 (h_myPublicKey client)" NullFunc t2] A(3) by auto
  obtain c2 x idA where 3: "listen envA NullFunc t3 c1 ipB ?portB (bytes_of ''ALTUS/1.0Y'' @ [0, 0] @ replicate 32 0) = Inr (c2, [(ipB, ?portB, done_packet)])"
      "std_find (h_peers c2) ?apB = Some x" "h_peid_peer c2 = std_insert idA x (h_peid_peer c1)" "std_find (h_peid_peer c1) idA = None"
    using client_completes [of c1 ?apB ipB ?portB "h_next client" cp envA NullFunc t3] 1 CA by auto
  obtain s2 idB where 4: "listen envB NullFunc t4 s1 ipA portA done_packet = Inr (s2, [])"
      "std_find (h_peers s2) ?apA = Some (h_next s1)" "h_peid_peer s2 = std_insert idB (h_next s1) (h_peid_peer s1)" "std_find (h_peid_peer s1) idB = None"
    using page_Z [of s1 ?apA ipA portA sp t4 envB] 2 t by (auto simp: can_connect_def ready_for_def)
  have "handshake envA envB t1 t2 t3 t4 client ipA portA server ipB hportB key = Inr (c2, s2)"
    unfolding handshake_def Let_def 1(1) prod.case using 2(1) 3(1) 4(1) by (simp add: sent_to_def ack_packet_fields(1))
  moreover have "std_find (h_peid_peer c2) idA = Some x" using found 3(3,4) 1(5) CA by simp
  moreover have "std_find (h_peid_peer s2) idB = Some (h_next s1)" using found 4(3,4) 2(2) by (simp add: can_connect_def)
  ultimately show ?thesis using 3(2) 4(2) by blast
qed

section \<open>Results\<close>

text \<open>
  C5: on a network that loses nothing \<^verbatim>\<open>connect\<close> leads to a connection.  When the two hosts do not know
  each other yet, the server accepts, both have memory for a peer, and the third message arrives within five seconds
  of the first, then after the three messages each of them has a peer under the other's address and an
  identifier for it.
\<close>

theorem handshake_completes:
  assumes A: "can_connect envA client (addrTo_uint64 ipB (htons hportB))" "h_myPublicKeySize client = 700" "length (h_myPublicKey client) = 700"
    and B: "can_connect envB server (addrTo_uint64 ipA portA)" "h_IsAccepting server" "std_find (h_s_prepeers server) (addrTo_uint64 ipA portA) = None"
    and t: "t4 - t2 \<le> 5000"
  shows "\<exists>client' server' qA qB idA idB. handshake envA envB t1 t2 t3 t4 client ipA portA server ipB hportB key = Inr (client', server')
    \<and> std_find (h_peers client') (addrTo_uint64 ipB (htons hportB)) = Some qA \<and> std_find (h_peid_peer client') idA = Some qA
    \<and> std_find (h_peers server') (addrTo_uint64 ipA portA) = Some qB \<and> std_find (h_peid_peer server') idB = Some qB"
  using handshake_succeeds [OF assms] .

definition ex_host :: ALTUSHost where
  "ex_host = projr (ALTUSHost_new True True (empty_heap blank_node 20) ex_nodes (replicate 700 5) (replicate 496 0))"

definition ex_henv :: host_env where
  "ex_henv = \<lparr>he_sys = ex_env, he_junk = (\<lambda>_. 0)\<rparr>"

lemma ex_host_can_connect: "can_connect ex_henv ex_host ap" "can_connect ex_henv (keep_accept ex_host) ap"
  by (simp_all add: can_connect_def ex_host_def ALTUSHost_new_def altusWQNewNodePool_def empty_heap_def malloc_def upd_def Let_def
      std_ok_def peer_room_def room_def NodePool_new_def ex_nodes_def ex_henv_def ex_env_def keep_accept_def)

lemma ex_host_fields:
  "h_myPublicKeySize ex_host = 700" "length (h_myPublicKey ex_host) = 700" "h_s_prepeers ex_host = []"
  by (simp_all add: ex_host_def ALTUSHost_new_def altusWQNewNodePool_def empty_heap_def malloc_def upd_def Let_def)

theorem handshake_completes_witness:
  "\<exists>client' server' qA qB idA idB. handshake ex_henv ex_henv 10 20 30 40 ex_host 1 2 (keep_accept ex_host) 3 4 [9] = Inr (client', server')
    \<and> std_find (h_peers client') (addrTo_uint64 3 (htons 4)) = Some qA \<and> std_find (h_peid_peer client') idA = Some qA
    \<and> std_find (h_peers server') (addrTo_uint64 1 2) = Some qB \<and> std_find (h_peid_peer server') idB = Some qB"
proof -
  have k: "h_IsAccepting (keep_accept ex_host)" "std_find (h_s_prepeers (keep_accept ex_host)) ap = None" for ap
    by (simp_all add: keep_accept_def ex_host_fields)
  show ?thesis
    by (rule handshake_completes [OF ex_host_can_connect(1) ex_host_fields(1,2) ex_host_can_connect(2) k]) simp
qed

text \<open>
  C6: from the construction of a host on, whatever datagrams arrive, from whom and in which order,
  and whatever the user does in between, the tables of peers stay consistent: each address in \<^verbatim>\<open>peers\<close> leads to a living
  peer with that address which has exactly one identifier, each identifier leads to a peer in \<^verbatim>\<open>peers\<close>, and no peer
  object is left over.  The callback for accepted peers is assumed to keep the tables.
\<close>

theorem host_tables_consistent:
  assumes "ALTUSHost_new socket_ok bind_ok h nodes key buf = Inr host" "harmless act" "(host_step env act)\<^sup>*\<^sup>* host host'"
  shows "(\<forall>ap q. std_find (h_peers host') ap = Some q \<longrightarrow>
        (\<exists>p. h_objs host' q = Some p \<and> addrTo_uint64 (p_addr p) (p_port p) = ap) \<and> (\<exists>!i. std_find (h_peid_peer host') i = Some q))
    \<and> (\<forall>i q. std_find (h_peid_peer host') i = Some q \<longrightarrow> (\<exists>ap. std_find (h_peers host') ap = Some q))
    \<and> (\<forall>q p. h_objs host' q = Some p \<longrightarrow> std_find (h_peers host') (addrTo_uint64 (p_addr p) (p_port p)) = Some q)"
proof -
  have "host_inv host'"
    using assms(3) by induction (auto intro: ALTUSHost_new_inv [OF assms(1)] host_step_inv [OF _ assms(2)])
  then have T: "tables_ok (std_find (h_peers host')) (std_find (h_peid_peer host')) (h_objs host') (h_next host')"
    by (simp add: host_inv_def)
  show ?thesis
    using tables_okD [OF T] unfolding address_def ran_def by blast
qed

text \<open>A host that connects, runs and gets the answer.\<close>

lemma ex_host_reaches_peer:
  "\<exists>host' q. (host_step ex_henv NullFunc)\<^sup>*\<^sup>* ex_host host' \<and> std_find (h_peers host') (addrTo_uint64 3 (htons 4)) = Some q"
proof -
  let ?ap = "addrTo_uint64 3 (htons 4)"
  note C = ex_host_can_connect(1) [of ?ap, unfolded can_connect_def]
  obtain c1 cp out where 1: "connect ex_henv 10 ex_host 3 4 [9] = (0, c1, out)" "std_find (h_c_prepeers c1) ?ap = Some (h_next ex_host)"
      "h_cobjs c1 (h_next ex_host) = Some cp" "h_peers c1 = h_peers ex_host" "h_peid_peer c1 = h_peid_peer ex_host"
      "h_mem c1 = h_mem ex_host" "h_buf c1 = h_buf ex_host"
    using connect_sends [of ex_host ?ap 3 4 ex_henv 10 "[9]"] C ex_host_fields by auto
  obtain c2 x out' where 2: "listen ex_henv NullFunc 20 (run c1) 3 (htons 4) (bytes_of ''ALTUS/1.0Y'' @ [0, 0] @ replicate 32 0) = Inr (c2, out')"
      "std_find (h_peers c2) ?ap = Some x"
    using client_completes [of "run c1" ?ap 3 "htons 4" "h_next ex_host" cp ex_henv NullFunc 20] 1 C by (auto simp: run_def)
  have "host_step ex_henv NullFunc ex_host c1" by (rule host_step.connecting [OF 1(1)])
  moreover have "host_step ex_henv NullFunc c1 (run c1)" by (rule host_step.running)
  moreover have "host_step ex_henv NullFunc (run c1) c2" by (rule host_step.datagram [OF _ 2(1)]) (simp add: run_def)
  ultimately have "(host_step ex_henv NullFunc)\<^sup>*\<^sup>* ex_host c2"
    by (meson converse_rtranclp_into_rtranclp r_into_rtranclp)
  with 2(2) show ?thesis by blast
qed

theorem host_tables_consistent_witness:
  "\<exists>host' q i. (host_step ex_henv NullFunc)\<^sup>*\<^sup>* ex_host host' \<and> std_find (h_peers host') (addrTo_uint64 3 (htons 4)) = Some q
    \<and> std_find (h_peid_peer host') i = Some q"
proof -
  have "ALTUSHost_new True True (empty_heap blank_node 20) ex_nodes (replicate 700 5) (replicate 496 0) = Inr ex_host"
    by (simp add: ex_host_def ALTUSHost_new_def altusWQNewNodePool_def empty_heap_def malloc_def upd_def Let_def)
  note T = host_tables_consistent [OF this harmless_NullFunc]
  from ex_host_reaches_peer show ?thesis using T by blast
qed

text \<open>
  C22: exactly when the first page from an address makes the server run into undefined behaviour.  Of a packet with
  the right name and version and a key size of at least 128: page A when the packet holds the whole key (the peer is made
  before its pre-peer is in the table), page B with more than 216 bytes of key, pages C and D always (the buffer for
  the key has 700 bytes), and an unknown page when the key is said to have more than 700 bytes (the destructor of the
  pre-peer clears that many).
\<close>

theorem accepter_faults:
  assumes "length buf = 496" "12 \<le> sz" "sz \<le> 496" "take 6 buf = bytes_of ''ALTUS/''" "take 3 (drop 6 buf) = bytes_of ''1.0''"
    and "std_find (h_s_prepeers host) ap = None" "128 \<le> (ntohs_at buf 10 :: u16)"
  shows "(\<exists>e. accepter env act now host ap buf sz = Inl e) \<longleftrightarrow>
    buf ! 9 = of_char CHR ''A'' \<and> uint (ntohs_at buf 10) = int sz - 12
    \<or> buf ! 9 = of_char CHR ''B'' \<and> 228 < sz \<or> buf ! 9 = of_char CHR ''C'' \<or> buf ! 9 = of_char CHR ''D''
    \<or> buf ! 9 \<notin> of_char ` {CHR ''A'', CHR ''B'', CHR ''C'', CHR ''D''} \<and> 700 < uint (ntohs_at buf 10)"
proof -
  have k: "\<not> ntohs_at buf 10 < (128 :: u16)" using assms(7) by simp
  have p: "prepeerToPeer env act host ap = Inl (Fault UseAfterFree)" using assms(6) by (simp add: prepeerToPeer_def)
  have l: "length (drop 12 buf) = 484" "\<not> 484 < sz - 12" using assms(1,3) by simp_all
  have first: "(\<exists>e. accept_first env act now host ap buf sz = Inl e) \<longleftrightarrow>
      (case page_offset (buf ! 9) of None \<Rightarrow> 700 < uint (ntohs_at buf 10 :: u16)
       | Some off \<Rightarrow> 700 < off + (sz - 12) \<or> off = 0 \<and> uint (ntohs_at buf 10 :: u16) = int sz - 12)"
    using k p l
    by (simp add: accept_first_def Let_def copy_key_def ALTUS_SPrePeer_new_def ALTUS_SPrePeer_delete_def wipe_key_def split: option.split if_split)
  have off: "page_offset b = (if b = 65 then Some 0 else if b = 66 then Some 484 else if b = 67 then Some 968 else if b = 68 then Some 1452 else None)"
    for b unfolding page_offset_def by simp
  show ?thesis
    unfolding accepter_unknown [OF assms(2,4,5,6)] first off using assms(2,3) by (simp add: less_diff_conv split: if_split)
qed

text \<open>A first packet with page C.\<close>

theorem accepter_faults_witness:
  "\<exists>e. accepter ex_henv NullFunc 7 ex_host 5 (page_header CHR ''C'' @ replicate 484 0) 400 = Inl e"
proof -
  let ?buf = "page_header CHR ''C'' @ replicate 484 0"
  have "128 \<le> (ntohs_at ?buf 10 :: u16)" unfolding page_header_fields by simp
  moreover have "std_find (h_s_prepeers ex_host) 5 = None" by (simp add: ex_host_fields)
  ultimately show ?thesis
    using accepter_faults [of ?buf 400 ex_host 5 ex_henv NullFunc 7] page_header_fields(1-3) [of "CHR ''C''"] by simp
qed

end
