(* ===== verification/Send_Stream.thy ===== *)
theory Send_Stream
  imports Peer_Props
begin

text \<open>
  \<^verbatim>\<open>Send\<close> as a whole: the packets it makes of a stream that was put into a sending channel, and what it sends when the stream
  has come to an end before.
\<close>

section \<open>The packets of a channel\<close>







section \<open>All channels of a peer\<close>






section \<open>Past the end\<close>






section \<open>Results\<close>






end
