(* ===== verification/OS_Stack.thy ===== *)
theory OS_Stack
  imports Prelude "HOL-Library.Multiset" "HOL-Library.Monad_Syntax"
begin

text \<open>
  OpenSSL's growable pointer array, \<^verbatim>\<open>crypto/stack/stack.c\<close>, with the binary search of
  \<^verbatim>\<open>crypto/bsearch.c\<close> and the overflow-checked arithmetic of \<^verbatim>\<open>include/internal/safe_math.h\<close> it uses.

  A pointer is a number, 0 is \<^verbatim>\<open>NULL\<close>.  A C \<^verbatim>\<open>int\<close> is an \<open>int\<close> whose range the operations keep to.  The
  comparison function of a stack is a function pointer: a number that \<open>fp\<close>, an argument of the operations
  that call it, maps to what it computes.  An allocation is an argument too: \<open>None\<close> when the allocator
  fails, and otherwise the content of memory it leaves uninitialised.  An access outside the array or
  through a null array is a fault.
\<close>

type_synonym ptr = nat
type_synonym alloc = "ptr option"

abbreviation (input) INT_MAX :: int where "INT_MAX \<equiv> 2147483647"
abbreviation (input) INT_MIN :: int where "INT_MIN \<equiv> -2147483648"

section \<open>Arithmetic with an error flag\<close>

text \<open>C division and remainder round towards zero.\<close>

definition tdiv :: "int \<Rightarrow> int \<Rightarrow> int" where
  "tdiv a b = sgn a * sgn b * (\<bar>a\<bar> div \<bar>b\<bar>)"

definition trem :: "int \<Rightarrow> int \<Rightarrow> int" where
  "trem a b = a - b * tdiv a b"

definition safe_add_int :: "int \<Rightarrow> int \<Rightarrow> int \<times> bool" where
  "safe_add_int a b =
     (if (a < 0) \<noteq> (b < 0) \<or> a > 0 \<and> b \<le> INT_MAX - a \<or> a < 0 \<and> b \<ge> INT_MIN - a \<or> a = 0 then (a + b, False)
      else (if a < 0 then INT_MIN else INT_MAX, True))"

definition safe_mul_int :: "int \<Rightarrow> int \<Rightarrow> int \<times> bool" where
  "safe_mul_int a b =
     (if a = 0 \<or> b = 0 then (0, False)
      else if a = 1 then (b, False)
      else if b = 1 then (a, False)
      else if a \<noteq> INT_MIN \<and> b \<noteq> INT_MIN \<and> \<bar>a\<bar> \<le> tdiv INT_MAX \<bar>b\<bar> then (a * b, False)
      else (if (a < 0) \<noteq> (b < 0) then INT_MIN else INT_MAX, True))"

definition safe_div_int :: "int \<Rightarrow> int \<Rightarrow> int \<times> bool" where
  "safe_div_int a b =
     (if b = 0 then (if a < 0 then INT_MIN else INT_MAX, True)
      else if b = -1 \<and> a = INT_MIN then (INT_MAX, True)
      else (tdiv a b, False))"

definition safe_mod_int :: "int \<Rightarrow> int \<Rightarrow> int \<times> bool" where
  "safe_mod_int a b =
     (if b = 0 then (0, True)
      else if b = -1 \<and> a = INT_MIN then (INT_MAX, True)
      else (trem a b, False))"

definition safe_muldiv_int :: "int \<Rightarrow> int \<Rightarrow> int \<Rightarrow> int \<times> bool" where
  "safe_muldiv_int a b c =
     (if c = 0 then (if a = 0 \<or> b = 0 then 0 else INT_MAX, True)
      else
        let (x, e2) = safe_mul_int a b in
        if \<not> e2 then safe_div_int x c
        else
          let (a, b) = (if b > a then (b, a) else (a, b));
              (q, e3) = safe_div_int a c;
              (r, e4) = safe_mod_int a c;
              (x, e5) = safe_mul_int r b;
              (y, e6) = safe_mul_int q b;
              (q, e7) = safe_div_int x c;
              (z, e8) = safe_add_int y q
          in (z, e3 \<or> e4 \<or> e5 \<or> e6 \<or> e7 \<or> e8))"

lemma tdiv_pos: "0 \<le> a \<Longrightarrow> 0 < b \<Longrightarrow> tdiv a b = a div b"
  by (cases "a = 0") (simp_all add: tdiv_def)

lemma trem_pos: "0 \<le> a \<Longrightarrow> 0 < b \<Longrightarrow> trem a b = a mod b"
  by (simp add: trem_def tdiv_pos minus_mult_div_eq_mod)

lemma le_div_iff_int: "0 < b \<Longrightarrow> a \<le> M div b \<longleftrightarrow> a * b \<le> M" for a b M :: int
proof
  assume "0 < b" "a \<le> M div b"
  then have "a * b \<le> M div b * b" by (simp add: mult_right_mono)
  also have "\<dots> \<le> M" using \<open>0 < b\<close> by (simp add: minus_mod_eq_div_mult [symmetric])
  finally show "a * b \<le> M" .
next
  assume "0 < b" "a * b \<le> M"
  then have "a * b div b \<le> M div b" by (intro zdiv_mono1) auto
  then show "a \<le> M div b" using \<open>0 < b\<close> by simp
qed

lemma safe_mul_int_pos:
  assumes "0 \<le> a" "0 < b" "b \<le> INT_MAX" "a \<le> INT_MAX"
  shows "safe_mul_int a b = (if a * b \<le> INT_MAX then (a * b, False) else (INT_MAX, True))"
  using assms le_div_iff_int [of b a INT_MAX] by (auto simp: safe_mul_int_def tdiv_pos)

lemma mul_then_add:
  assumes "0 \<le> q" "q \<le> INT_MAX" "0 \<le> t" "t \<le> INT_MAX"
  shows "(let (y, e6) = safe_mul_int q 8; (z, e8) = safe_add_int y t in (z, e6 \<or> e8)) =
     (if q * 8 + t \<le> INT_MAX then (q * 8 + t, False) else (INT_MAX, True))"
proof (cases "q * 8 \<le> INT_MAX")
  case True
  then have "safe_mul_int q 8 = (q * 8, False)" using assms by (simp add: safe_mul_int_pos)
  then show ?thesis using assms True by (auto simp: safe_add_int_def)
next
  case False
  then have "safe_mul_int q 8 = (INT_MAX, True)" using assms by (simp add: safe_mul_int_pos)
  then show ?thesis using assms False by (auto simp: safe_add_int_def)
qed

lemma muldiv_8_5:
  assumes "0 \<le> a" "a \<le> INT_MAX"
  shows "safe_muldiv_int a 8 5 = (if a * 8 div 5 \<le> INT_MAX then (a * 8 div 5, False) else (INT_MAX, True))"
proof (cases "a * 8 \<le> INT_MAX")
  case True
  then show ?thesis using assms safe_mul_int_pos [of a 8]
    by (auto simp: safe_muldiv_int_def safe_div_int_def tdiv_pos)
next
  case False
  have "a * 8 = (a mod 5) * 8 + (a div 5 * 8) * 5" using div_mult_mod_eq [of a 5] by linarith
  then have "a * 8 div 5 = ((a mod 5) * 8 + (a div 5 * 8) * 5) div 5" by (rule arg_cong)
  also have "\<dots> = a div 5 * 8 + (a mod 5) * 8 div 5" by (rule div_mult_self1) simp
  finally have e: "a * 8 div 5 = a div 5 * 8 + (a mod 5) * 8 div 5" .
  have b: "0 \<le> a div 5" "a div 5 \<le> INT_MAX" "0 \<le> a mod 5" "a mod 5 < 5" "0 \<le> (a mod 5) * 8 div 5" "(a mod 5) * 8 div 5 \<le> INT_MAX"
    using assms by (auto simp: div_le_mono)
  have "safe_mul_int a 8 = (INT_MAX, True)" using False assms by (simp add: safe_mul_int_pos)
  moreover have "safe_div_int a 5 = (a div 5, False)" "safe_mod_int a 5 = (a mod 5, False)"
    using assms by (simp_all add: safe_div_int_def safe_mod_int_def tdiv_pos trem_pos)
  moreover have "safe_mul_int (a mod 5) 8 = ((a mod 5) * 8, False)" using b by (subst safe_mul_int_pos) auto
  moreover have "safe_div_int ((a mod 5) * 8) 5 = ((a mod 5) * 8 div 5, False)" using b by (simp add: safe_div_int_def tdiv_pos)
  ultimately have "safe_muldiv_int a 8 5 =
      (let (y, e6) = safe_mul_int (a div 5) 8; (z, e8) = safe_add_int y ((a mod 5) * 8 div 5) in (z, e6 \<or> e8))"
    using False by (simp add: safe_muldiv_int_def Let_def split: prod.split)
  also have "\<dots> = (if a * 8 div 5 \<le> INT_MAX then (a * 8 div 5, False) else (INT_MAX, True))"
    unfolding e using b by (intro mul_then_add)
  finally show ?thesis .
qed

section \<open>The array\<close>

record OPENSSL_STACK =
  sk_num :: int
  sk_data :: "ptr list option"
  sk_sorted :: bool
  sk_num_alloc :: int
  sk_comp :: ptr

abbreviation (input) min_nodes :: int where "min_nodes \<equiv> 4"
abbreviation (input) max_nodes :: int where "max_nodes \<equiv> INT_MAX"

definition data_get :: "OPENSSL_STACK \<Rightarrow> int \<Rightarrow> ptr res" where
  "data_get st i =
     (case sk_data st of None \<Rightarrow> Inl NullDeref
      | Some d \<Rightarrow> if 0 \<le> i \<and> nat i < length d then Inr (d ! nat i) else Inl OutOfBounds)"

definition data_set :: "OPENSSL_STACK \<Rightarrow> int \<Rightarrow> ptr \<Rightarrow> OPENSSL_STACK res" where
  "data_set st i v =
     (case sk_data st of None \<Rightarrow> Inl NullDeref
      | Some d \<Rightarrow> if 0 \<le> i \<and> nat i < length d then Inr (st\<lparr>sk_data := Some (d[nat i := v])\<rparr>) else Inl OutOfBounds)"

text \<open>\<^verbatim>\<open>memmove(&data[dst], &data[src], n)\<close>, \<open>n\<close> in elements.\<close>

definition data_move :: "OPENSSL_STACK \<Rightarrow> int \<Rightarrow> int \<Rightarrow> int \<Rightarrow> OPENSSL_STACK res" where
  "data_move st dst src n =
     (case sk_data st of None \<Rightarrow> Inl NullDeref
      | Some d \<Rightarrow>
          if 0 \<le> dst \<and> 0 \<le> src \<and> 0 \<le> n \<and> nat (dst + n) \<le> length d \<and> nat (src + n) \<le> length d
          then Inr (st\<lparr>sk_data := Some (take (nat dst) d @ take (nat n) (drop (nat src) d) @ drop (nat (dst + n)) d)\<rparr>)
          else Inl OutOfBounds)"

section \<open>Growing\<close>

text \<open>The loop need not end for a current size below 2, so its value is optional.\<close>

partial_function (option) compute_growth :: "int \<Rightarrow> int \<Rightarrow> int option" where
  "compute_growth target current =
     (if current < target then
        if current \<ge> max_nodes then Some 0
        else
          let (current, err) = safe_muldiv_int current 8 5 in
          if err then Some 0
          else compute_growth target (if current \<ge> max_nodes then max_nodes else current)
      else Some current)"

definition resize :: "ptr \<Rightarrow> nat \<Rightarrow> ptr list \<Rightarrow> ptr list" where
  "resize junk n d = take n d @ replicate (n - length d) junk"

definition sk_reserve :: "alloc \<Rightarrow> OPENSSL_STACK \<Rightarrow> int \<Rightarrow> bool \<Rightarrow> (bool \<times> OPENSSL_STACK) res" where
  "sk_reserve al st n exact =
     (if n > max_nodes - sk_num st then Inr (False, st)
      else
        let num_alloc = (if sk_num st + n < min_nodes then min_nodes else sk_num st + n) in
        case sk_data st of
          None \<Rightarrow>
            (case al of
               None \<Rightarrow> Inr (False, st)
             | Some _ \<Rightarrow> Inr (True, st\<lparr>sk_data := Some (replicate (nat num_alloc) 0), sk_num_alloc := num_alloc\<rparr>))
        | Some d \<Rightarrow>
            let realloc = (\<lambda>num_alloc.
                  case al of
                    None \<Rightarrow> Inr (False, st)
                  | Some junk \<Rightarrow>
                      Inr (True, st\<lparr>sk_data := Some (resize junk (nat num_alloc) d), sk_num_alloc := num_alloc\<rparr>))
            in if \<not> exact then
                 if num_alloc \<le> sk_num_alloc st then Inr (True, st)
                 else
                   case compute_growth num_alloc (sk_num_alloc st) of
                     None \<Rightarrow> Inl OutOfFuel
                   | Some num_alloc \<Rightarrow> if num_alloc = 0 then Inr (False, st) else realloc num_alloc
               else if num_alloc = sk_num_alloc st then Inr (True, st)
               else realloc num_alloc)"

section \<open>Creation\<close>

definition zero_stack :: OPENSSL_STACK where
  "zero_stack = \<lparr>sk_num = 0, sk_data = None, sk_sorted = False, sk_num_alloc = 0, sk_comp = 0\<rparr>"

definition OPENSSL_sk_new_reserve :: "alloc \<Rightarrow> alloc \<Rightarrow> ptr \<Rightarrow> int \<Rightarrow> OPENSSL_STACK option res" where
  "OPENSSL_sk_new_reserve al1 al2 c n =
     (case al1 of
        None \<Rightarrow> Inr None
      | Some _ \<Rightarrow>
          let st = zero_stack\<lparr>sk_comp := c\<rparr> in
          if n \<le> 0 then Inr (Some st)
          else rbind (sk_reserve al2 st n True) (\<lambda>(ok, st). Inr (if ok then Some st else None)))"

definition OPENSSL_sk_new_null :: "alloc \<Rightarrow> alloc \<Rightarrow> OPENSSL_STACK option res" where
  "OPENSSL_sk_new_null al1 al2 = OPENSSL_sk_new_reserve al1 al2 0 0"

definition OPENSSL_sk_new :: "alloc \<Rightarrow> alloc \<Rightarrow> ptr \<Rightarrow> OPENSSL_STACK option res" where
  "OPENSSL_sk_new al1 al2 c = OPENSSL_sk_new_reserve al1 al2 c 0"

definition OPENSSL_sk_reserve :: "alloc \<Rightarrow> OPENSSL_STACK option \<Rightarrow> int \<Rightarrow> (bool \<times> OPENSSL_STACK option) res" where
  "OPENSSL_sk_reserve al st n =
     (case st of
        None \<Rightarrow> Inr (False, None)
      | Some st \<Rightarrow>
          if n < 0 then Inr (True, Some st)
          else rbind (sk_reserve al st n True) (\<lambda>(ok, st). Inr (ok, Some st)))"

definition OPENSSL_sk_set_cmp_func :: "OPENSSL_STACK \<Rightarrow> ptr \<Rightarrow> ptr \<times> OPENSSL_STACK" where
  "OPENSSL_sk_set_cmp_func sk c =
     (sk_comp sk, sk\<lparr>sk_sorted := (if sk_comp sk \<noteq> c then False else sk_sorted sk), sk_comp := c\<rparr>)"

definition OPENSSL_sk_dup :: "alloc \<Rightarrow> alloc \<Rightarrow> OPENSSL_STACK option \<Rightarrow> OPENSSL_STACK option res" where
  "OPENSSL_sk_dup al1 al2 sk =
     (case al1 of
        None \<Rightarrow> Inr None
      | Some _ \<Rightarrow>
          let ret = (case sk of None \<Rightarrow> zero_stack | Some s \<Rightarrow> s) in
          if sk = None \<or> sk_num ret = 0 then Inr (Some (ret\<lparr>sk_data := None, sk_num_alloc := 0\<rparr>))
          else
            case al2 of
              None \<Rightarrow> Inr None
            | Some junk \<Rightarrow>
                (case sk_data ret of
                   None \<Rightarrow> Inl NullDeref
                 | Some d \<Rightarrow>
                     if nat (sk_num ret) \<le> length d \<and> sk_num ret \<le> sk_num_alloc ret
                     then Inr (Some (ret\<lparr>sk_data := Some (take (nat (sk_num ret)) d @
                            replicate (nat (sk_num_alloc ret - sk_num ret)) junk)\<rparr>))
                     else Inl OutOfBounds))"

text \<open>
  The copying loop of \<^verbatim>\<open>OPENSSL_sk_deep_copy\<close> over the elements left; \<open>acc\<close> holds the copies made, newest first.
  When a copy fails, the earlier ones are freed, newest first.
\<close>

fun deep_copy_loop :: "(ptr \<Rightarrow> ptr) \<Rightarrow> ptr list \<Rightarrow> ptr list \<Rightarrow> ptr list + ptr list" where
  "deep_copy_loop copy_func [] acc = Inr (rev acc)"
| "deep_copy_loop copy_func (x # xs) acc =
     (if x = 0 then deep_copy_loop copy_func xs (0 # acc)
      else if copy_func x = 0 then Inl (filter (\<lambda>y. y \<noteq> 0) acc)
      else deep_copy_loop copy_func xs (copy_func x # acc))"

text \<open>The result is the copy, and the pointers passed to \<open>free_func\<close>.\<close>

definition OPENSSL_sk_deep_copy ::
  "alloc \<Rightarrow> alloc \<Rightarrow> (ptr \<Rightarrow> ptr) \<Rightarrow> OPENSSL_STACK option \<Rightarrow> (OPENSSL_STACK option \<times> ptr list) res" where
  "OPENSSL_sk_deep_copy al1 al2 copy_func sk =
     (case al1 of
        None \<Rightarrow> Inr (None, [])
      | Some _ \<Rightarrow>
          let ret = (case sk of None \<Rightarrow> zero_stack | Some s \<Rightarrow> s) in
          if sk = None \<or> sk_num ret = 0 then Inr (Some (ret\<lparr>sk_data := None, sk_num_alloc := 0\<rparr>), [])
          else
            let num_alloc = (if sk_num ret > min_nodes then sk_num ret else min_nodes) in
            case al2 of
              None \<Rightarrow> Inr (None, [])
            | Some _ \<Rightarrow>
                (case sk_data ret of
                   None \<Rightarrow> Inl NullDeref
                 | Some d \<Rightarrow>
                     if nat (sk_num ret) \<le> length d then
                       (case deep_copy_loop copy_func (take (nat (sk_num ret)) d) [] of
                          Inl freed \<Rightarrow> Inr (None, freed)
                        | Inr xs \<Rightarrow>
                            Inr (Some (ret\<lparr>sk_num_alloc := num_alloc,
                                   sk_data := Some (xs @ replicate (nat (num_alloc - sk_num ret)) 0)\<rparr>), []))
                     else Inl OutOfBounds))"

section \<open>Inserting and deleting\<close>

definition OPENSSL_sk_insert ::
  "alloc \<Rightarrow> OPENSSL_STACK option \<Rightarrow> ptr \<Rightarrow> int \<Rightarrow> (int \<times> OPENSSL_STACK option) res" where
  "OPENSSL_sk_insert al st data loc =
     (case st of
        None \<Rightarrow> Inr (0, None)
      | Some st \<Rightarrow>
          if sk_num st = max_nodes then Inr (0, Some st)
          else
            rbind (sk_reserve al st 1 False) (\<lambda>(ok, st).
            if \<not> ok then Inr (0, Some st)
            else
              rbind (if loc \<ge> sk_num st \<or> loc < 0 then data_set st (sk_num st) data
                     else rbind (data_move st (loc + 1) loc (sk_num st - loc)) (\<lambda>st. data_set st loc data)) (\<lambda>st.
              let st = st\<lparr>sk_num := sk_num st + 1, sk_sorted := False\<rparr> in
              Inr (sk_num st, Some st))))"

definition internal_delete :: "OPENSSL_STACK \<Rightarrow> int \<Rightarrow> (ptr \<times> OPENSSL_STACK) res" where
  "internal_delete st loc =
     rbind (data_get st loc) (\<lambda>ret.
     rbind (if loc \<noteq> sk_num st - 1 then data_move st loc (loc + 1) (sk_num st - loc - 1) else Inr st) (\<lambda>st.
     Inr (ret, st\<lparr>sk_num := sk_num st - 1\<rparr>)))"

function delete_ptr_loop :: "OPENSSL_STACK \<Rightarrow> ptr \<Rightarrow> int \<Rightarrow> (ptr \<times> OPENSSL_STACK) res" where
  "delete_ptr_loop st p i =
     (if i < sk_num st then
        rbind (data_get st i) (\<lambda>x.
        if x = p then internal_delete st i else delete_ptr_loop st p (i + 1))
      else Inr (0, st))"
  by pat_completeness auto
termination
  by (relation "measure (\<lambda>(st, p, i). nat (sk_num st - i))") auto

declare delete_ptr_loop.simps [simp del]

text \<open>Alone among the removals, \<^verbatim>\<open>OPENSSL_sk_delete_ptr\<close> does not test its stack for \<^verbatim>\<open>NULL\<close>.\<close>

definition OPENSSL_sk_delete_ptr :: "OPENSSL_STACK option \<Rightarrow> ptr \<Rightarrow> (ptr \<times> OPENSSL_STACK option) res" where
  "OPENSSL_sk_delete_ptr st p =
     (case st of
        None \<Rightarrow> Inl NullDeref
      | Some st \<Rightarrow> rbind (delete_ptr_loop st p 0) (\<lambda>(r, st). Inr (r, Some st)))"

definition opt_op :: "(OPENSSL_STACK \<Rightarrow> bool) \<Rightarrow> (OPENSSL_STACK \<Rightarrow> (ptr \<times> OPENSSL_STACK) res) \<Rightarrow>
    OPENSSL_STACK option \<Rightarrow> (ptr \<times> OPENSSL_STACK option) res" where
  "opt_op guard f st =
     (case st of
        None \<Rightarrow> Inr (0, None)
      | Some st \<Rightarrow> if guard st then Inr (0, Some st) else rbind (f st) (\<lambda>(r, st). Inr (r, Some st)))"

definition OPENSSL_sk_delete :: "OPENSSL_STACK option \<Rightarrow> int \<Rightarrow> (ptr \<times> OPENSSL_STACK option) res" where
  "OPENSSL_sk_delete st loc = opt_op (\<lambda>st. loc < 0 \<or> loc \<ge> sk_num st) (\<lambda>st. internal_delete st loc) st"

definition OPENSSL_sk_shift :: "OPENSSL_STACK option \<Rightarrow> (ptr \<times> OPENSSL_STACK option) res" where
  "OPENSSL_sk_shift st = opt_op (\<lambda>st. sk_num st = 0) (\<lambda>st. internal_delete st 0) st"

definition OPENSSL_sk_pop :: "OPENSSL_STACK option \<Rightarrow> (ptr \<times> OPENSSL_STACK option) res" where
  "OPENSSL_sk_pop st = opt_op (\<lambda>st. sk_num st = 0) (\<lambda>st. internal_delete st (sk_num st - 1)) st"

definition OPENSSL_sk_push :: "alloc \<Rightarrow> OPENSSL_STACK option \<Rightarrow> ptr \<Rightarrow> (int \<times> OPENSSL_STACK option) res" where
  "OPENSSL_sk_push al st data =
     (case st of None \<Rightarrow> Inr (-1, None) | Some s \<Rightarrow> OPENSSL_sk_insert al st data (sk_num s))"

definition OPENSSL_sk_unshift :: "alloc \<Rightarrow> OPENSSL_STACK option \<Rightarrow> ptr \<Rightarrow> (int \<times> OPENSSL_STACK option) res" where
  "OPENSSL_sk_unshift al st data = OPENSSL_sk_insert al st data 0"

definition OPENSSL_sk_num :: "OPENSSL_STACK option \<Rightarrow> int" where
  "OPENSSL_sk_num st = (case st of None \<Rightarrow> -1 | Some st \<Rightarrow> sk_num st)"

definition OPENSSL_sk_value :: "OPENSSL_STACK option \<Rightarrow> int \<Rightarrow> ptr res" where
  "OPENSSL_sk_value st i =
     (case st of None \<Rightarrow> Inr 0 | Some st \<Rightarrow> if i < 0 \<or> i \<ge> sk_num st then Inr 0 else data_get st i)"

definition OPENSSL_sk_set :: "OPENSSL_STACK option \<Rightarrow> int \<Rightarrow> ptr \<Rightarrow> (ptr \<times> OPENSSL_STACK option) res" where
  "OPENSSL_sk_set st i data =
     opt_op (\<lambda>st. i < 0 \<or> i \<ge> sk_num st)
       (\<lambda>st. rbind (data_set st i data) (\<lambda>st.
             let st = st\<lparr>sk_sorted := False\<rparr> in rbind (data_get st i) (\<lambda>x. Inr (x, st)))) st"

text \<open>\<^verbatim>\<open>memset\<close> to zero of the elements in use.\<close>

definition OPENSSL_sk_zero :: "OPENSSL_STACK option \<Rightarrow> OPENSSL_STACK option res" where
  "OPENSSL_sk_zero st =
     (case st of
        None \<Rightarrow> Inr None
      | Some st \<Rightarrow>
          if sk_num st = 0 then Inr (Some st)
          else
            case sk_data st of
              None \<Rightarrow> Inl NullDeref
            | Some d \<Rightarrow>
                if nat (sk_num st) \<le> length d
                then Inr (Some (st\<lparr>sk_data := Some (replicate (nat (sk_num st)) 0 @ drop (nat (sk_num st)) d), sk_num := 0\<rparr>))
                else Inl OutOfBounds)"

text \<open>Freeing a stack hands its elements, in order, to the caller's function; the result lists them.\<close>

function pop_free_loop :: "OPENSSL_STACK \<Rightarrow> int \<Rightarrow> ptr list res" where
  "pop_free_loop st i =
     (if i < sk_num st then
        rbind (data_get st i) (\<lambda>x.
        rbind (pop_free_loop st (i + 1)) (\<lambda>xs. Inr (if x \<noteq> 0 then x # xs else xs)))
      else Inr [])"
  by pat_completeness auto
termination
  by (relation "measure (\<lambda>(st, i). nat (sk_num st - i))") auto

declare pop_free_loop.simps [simp del]

definition OPENSSL_sk_pop_free :: "OPENSSL_STACK option \<Rightarrow> ptr list res" where
  "OPENSSL_sk_pop_free st = (case st of None \<Rightarrow> Inr [] | Some st \<Rightarrow> pop_free_loop st 0)"

section \<open>Searching\<close>

type_synonym cmpf = "ptr \<Rightarrow> ptr \<Rightarrow> int"

text \<open>
  \<^verbatim>\<open>qsort\<close> of the C library, on the elements in use: here insertion sort.  Nothing below depends on the
  order it gives to equal elements.
\<close>

fun insert_by :: "cmpf \<Rightarrow> ptr \<Rightarrow> ptr list \<Rightarrow> ptr list" where
  "insert_by f x [] = [x]"
| "insert_by f x (y # ys) = (if f x y \<le> 0 then x # y # ys else y # insert_by f x ys)"

definition qsort :: "cmpf \<Rightarrow> ptr list \<Rightarrow> ptr list" where
  "qsort f xs = foldr (insert_by f) xs []"

definition sort_data :: "cmpf \<Rightarrow> OPENSSL_STACK \<Rightarrow> OPENSSL_STACK res" where
  "sort_data f st =
     (case sk_data st of
        None \<Rightarrow> Inl NullDeref
      | Some d \<Rightarrow>
          if nat (sk_num st) \<le> length d
          then Inr (st\<lparr>sk_data := Some (qsort f (take (nat (sk_num st)) d) @ drop (nat (sk_num st)) d)\<rparr>)
          else Inl OutOfBounds)"

definition OPENSSL_sk_sort :: "(ptr \<Rightarrow> cmpf) \<Rightarrow> OPENSSL_STACK option \<Rightarrow> OPENSSL_STACK option res" where
  "OPENSSL_sk_sort fp st =
     (case st of
        None \<Rightarrow> Inr None
      | Some st \<Rightarrow>
          if \<not> sk_sorted st \<and> sk_comp st \<noteq> 0 then
            rbind (if sk_num st > 1 then sort_data (fp (sk_comp st)) st else Inr st) (\<lambda>st.
            Inr (Some (st\<lparr>sk_sorted := True\<rparr>)))
          else Inr (Some st))"

definition OPENSSL_sk_is_sorted :: "OPENSSL_STACK option \<Rightarrow> bool" where
  "OPENSSL_sk_is_sorted st = (case st of None \<Rightarrow> True | Some st \<Rightarrow> sk_sorted st)"

text \<open>
  \<^verbatim>\<open>ossl_bsearch\<close>: the loop gives the last index probed and the last comparison; the search then steps
  back over equal elements when asked to.  \<open>cmp i\<close> is the comparison of the key with the element at index
  \<open>i\<close>, \<open>None\<close> the null result.  The sum \<^verbatim>\<open>l + h\<close> and the byte offset \<^verbatim>\<open>i * size\<close> are computed in \<^verbatim>\<open>int\<close>: a result
  above \<^verbatim>\<open>INT_MAX\<close> is a fault.  A negative \<^verbatim>\<open>num\<close> leaves the loop at once, with no element probed.
\<close>

function bsearch_loop :: "(nat \<Rightarrow> int) \<Rightarrow> int \<Rightarrow> nat \<Rightarrow> nat \<Rightarrow> nat \<Rightarrow> int \<Rightarrow> (nat \<times> int) res" where
  "bsearch_loop cmp sz l h i c =
     (if l < h then
        let i = (l + h) div 2; c = cmp i in
        if INT_MAX < int (l + h) \<or> INT_MAX < int i * sz then Inl IntOverflow
        else if c < 0 then bsearch_loop cmp sz l i i c
        else if c > 0 then bsearch_loop cmp sz (i + 1) h i c
        else Inr (i, c)
      else Inr (i, c))"
  by pat_completeness auto
termination
  by (relation "measure (\<lambda>(cmp, sz, l, h, i, c). h - l)") auto

declare bsearch_loop.simps [simp del]

fun step_back :: "(nat \<Rightarrow> int) \<Rightarrow> nat \<Rightarrow> nat" where
  "step_back cmp 0 = 0"
| "step_back cmp (Suc i) = (if cmp i = 0 then step_back cmp i else Suc i)"

definition ossl_bsearch :: "(nat \<Rightarrow> int) \<Rightarrow> int \<Rightarrow> int \<Rightarrow> bool \<Rightarrow> bool \<Rightarrow> nat option res" where
  "ossl_bsearch cmp num sz value_on_nomatch first_value_on_match =
     (if num = 0 then Inr None
      else
        rbind (bsearch_loop cmp sz 0 (nat num) 0 0) (\<lambda>(i, c).
        let p = (if 0 < num then Some i else None) in
        Inr (if c \<noteq> 0 \<and> \<not> value_on_nomatch then None
             else if c = 0 \<and> first_value_on_match then Some (step_back cmp i)
             else p)))"

function count_eq :: "(nat \<Rightarrow> int) \<Rightarrow> nat \<Rightarrow> nat \<Rightarrow> nat" where
  "count_eq cmp num p = (if p < num \<and> cmp p = 0 then Suc (count_eq cmp num (p + 1)) else 0)"
  by pat_completeness auto
termination
  by (relation "measure (\<lambda>(cmp, num, p). num - p)") auto

declare count_eq.simps [simp del]

fun find_ptr :: "ptr list \<Rightarrow> ptr \<Rightarrow> nat \<Rightarrow> nat option" where
  "find_ptr [] x i = None"
| "find_ptr (y # ys) x i = (if y = x then Some i else find_ptr ys x (Suc i))"

text \<open>
  The result: the index or -1, the count written to \<open>pnum\<close> when one was passed (it may be left unset),
  and the stack, which the search may sort.
\<close>

definition internal_find ::
  "(ptr \<Rightarrow> cmpf) \<Rightarrow> OPENSSL_STACK option \<Rightarrow> ptr \<Rightarrow> bool \<Rightarrow> bool \<Rightarrow> bool \<Rightarrow>
     (int \<times> int option \<times> OPENSSL_STACK option) res" where
  "internal_find fp st data value_on_nomatch first_on_match want_num =
     (case st of
        None \<Rightarrow> Inr (-1, None, None)
      | Some st \<Rightarrow>
          if sk_num st = 0 then Inr (-1, None, Some st)
          else if sk_comp st = 0 then
            (case sk_data st of
               None \<Rightarrow> Inl NullDeref
             | Some d \<Rightarrow>
                 if length d < nat (sk_num st) then Inl OutOfBounds
                 else
                   case find_ptr (take (nat (sk_num st)) d) data 0 of
                     Some i \<Rightarrow> Inr (int i, if want_num then Some 1 else None, Some st)
                   | None \<Rightarrow> Inr (-1, if want_num then Some 0 else None, Some st))
          else
            rbind (if \<not> sk_sorted st then
                     rbind (if sk_num st > 1 then sort_data (fp (sk_comp st)) st else Inr st) (\<lambda>st.
                     Inr (st\<lparr>sk_sorted := True\<rparr>))
                   else Inr st) (\<lambda>st.
            if data = 0 then Inr (-1, None, Some st)
            else
              case sk_data st of
                None \<Rightarrow> Inl NullDeref
              | Some d \<Rightarrow>
                  if length d < nat (sk_num st) then Inl OutOfBounds
                  else
                    let cmp = (\<lambda>i. fp (sk_comp st) data (d ! i)) in
                    rbind (ossl_bsearch cmp (sk_num st) 8 value_on_nomatch (first_on_match \<or> want_num)) (\<lambda>r.
                    let pnum = (if want_num then
                                  Some (case r of None \<Rightarrow> 0 | Some p \<Rightarrow> int (count_eq cmp (nat (sk_num st)) p))
                                else None)
                    in Inr (case r of None \<Rightarrow> -1 | Some i \<Rightarrow> int i, pnum, Some st))))"

definition OPENSSL_sk_find ::
  "(ptr \<Rightarrow> cmpf) \<Rightarrow> OPENSSL_STACK option \<Rightarrow> ptr \<Rightarrow> (int \<times> OPENSSL_STACK option) res" where
  "OPENSSL_sk_find fp st data = rbind (internal_find fp st data False True False) (\<lambda>(r, _, st). Inr (r, st))"

definition OPENSSL_sk_find_ex ::
  "(ptr \<Rightarrow> cmpf) \<Rightarrow> OPENSSL_STACK option \<Rightarrow> ptr \<Rightarrow> (int \<times> OPENSSL_STACK option) res" where
  "OPENSSL_sk_find_ex fp st data = rbind (internal_find fp st data True False False) (\<lambda>(r, _, st). Inr (r, st))"

definition OPENSSL_sk_find_all ::
  "(ptr \<Rightarrow> cmpf) \<Rightarrow> OPENSSL_STACK option \<Rightarrow> ptr \<Rightarrow> (int \<times> int option \<times> OPENSSL_STACK option) res" where
  "OPENSSL_sk_find_all fp st data = internal_find fp st data False True True"

end
