(* ===== verification/OS_Stack_Props.thy ===== *)
theory OS_Stack_Props
  imports OS_Stack
begin

text \<open>
  The pointer array as a list: the invariant every operation of \<^verbatim>\<open>stack.c\<close> keeps, the list each one
  computes, and the searches.
\<close>

section \<open>Growth\<close>

lemma growth_step: "2 \<le> a \<Longrightarrow> a < a * 8 div 5" for a :: int
  by presburger

lemma compute_growth_result:
  assumes "4 \<le> c" "c \<le> INT_MAX" "t \<le> INT_MAX"
  shows "\<exists>r. compute_growth t c = Some r \<and> (r = 0 \<and> 1342177280 < t \<or> t \<le> r \<and> c \<le> r \<and> r \<le> INT_MAX)"
  using assms
proof (induction "nat (t - c)" arbitrary: c rule: less_induct)
  case less
  show ?case
  proof (cases "c < t")
    case False
    then show ?thesis using less.prems by (subst compute_growth.simps) simp
  next
    case True
    let ?n = "c * 8 div 5"
    have g: "c < ?n" using less.prems growth_step [of c] by simp
    have md: "safe_muldiv_int c 8 5 = (if ?n \<le> INT_MAX then (?n, False) else (INT_MAX, True))"
      using less.prems by (intro muldiv_8_5) auto
    show ?thesis
    proof (cases "?n \<le> INT_MAX")
      case False
      then have "1342177280 < t" using True by presburger
      then show ?thesis using True False md less.prems by (subst compute_growth.simps) simp
    next
      case n: True
      then have "compute_growth t c = compute_growth t ?n"
        using True md less.prems by (subst compute_growth.simps) (auto simp: Let_def)
      moreover have "\<exists>r. compute_growth t ?n = Some r \<and> (r = 0 \<and> 1342177280 < t \<or> t \<le> r \<and> ?n \<le> r \<and> r \<le> INT_MAX)"
        using less.prems g n True by (intro less.hyps) auto
      ultimately show ?thesis using g by auto
    qed
  qed
qed

section \<open>The invariant\<close>

definition sk_ok :: "OPENSSL_STACK \<Rightarrow> bool" where
  "sk_ok st \<longleftrightarrow>
     (case sk_data st of
        None \<Rightarrow> sk_num st = 0 \<and> sk_num_alloc st = 0
      | Some d \<Rightarrow> length d = nat (sk_num_alloc st) \<and> 4 \<le> sk_num_alloc st \<and> sk_num_alloc st \<le> max_nodes \<and>
                  0 \<le> sk_num st \<and> sk_num st \<le> sk_num_alloc st)"

definition sk_list :: "OPENSSL_STACK \<Rightarrow> ptr list" where
  "sk_list st = (case sk_data st of None \<Rightarrow> [] | Some d \<Rightarrow> take (nat (sk_num st)) d)"

lemma sk_list_length: "sk_ok st \<Longrightarrow> int (length (sk_list st)) = sk_num st"
  by (auto simp: sk_ok_def sk_list_def split: option.splits)

lemma sk_flags [simp]:
  "sk_ok (st\<lparr>sk_sorted := b\<rparr>) = sk_ok st" "sk_list (st\<lparr>sk_sorted := b\<rparr>) = sk_list st"
  "sk_ok (st\<lparr>sk_comp := c\<rparr>) = sk_ok st" "sk_list (st\<lparr>sk_comp := c\<rparr>) = sk_list st"
  by (simp_all add: sk_ok_def sk_list_def split: option.split)

lemma sk_okD:
  assumes "sk_ok st" "0 < sk_num st"
  obtains d where "sk_data st = Some d" "length d = nat (sk_num_alloc st)" "4 \<le> sk_num_alloc st"
    "sk_num_alloc st \<le> INT_MAX" "sk_num st \<le> sk_num_alloc st" "sk_list st = take (nat (sk_num st)) d"
  using assms by (auto simp: sk_ok_def sk_list_def split: option.splits)

lemma zero_stack_ok [simp]: "sk_ok (zero_stack\<lparr>sk_comp := c\<rparr>)" "sk_list (zero_stack\<lparr>sk_comp := c\<rparr>) = []"
  by (simp_all add: sk_ok_def sk_list_def zero_stack_def)

lemma take_resize: "k \<le> n \<Longrightarrow> k \<le> length d \<Longrightarrow> take k (resize j n d) = take k d"
  by (simp add: resize_def min_def)

lemma length_resize [simp]: "length (resize j n d) = n"
  by (simp add: resize_def)

definition reserve_post :: "OPENSSL_STACK \<Rightarrow> int \<Rightarrow> bool \<Rightarrow> OPENSSL_STACK \<Rightarrow> bool" where
  "reserve_post st n ok st' \<longleftrightarrow>
     (if ok then sk_ok st' \<and> sk_data st' \<noteq> None \<and> sk_num st + n \<le> sk_num_alloc st' \<and> sk_list st' = sk_list st \<and>
                 sk_num st' = sk_num st \<and> sk_sorted st' = sk_sorted st \<and> sk_comp st' = sk_comp st
      else st' = st)"

lemma realloc_post:
  assumes "sk_ok st" "sk_data st = Some d" "sk_num st + n \<le> m" "0 \<le> n" "4 \<le> m" "m \<le> INT_MAX"
  shows "reserve_post st n True (st\<lparr>sk_data := Some (resize j (nat m) d), sk_num_alloc := m\<rparr>)"
proof -
  have "nat (sk_num st) \<le> nat m" "nat (sk_num st) \<le> length d" using assms by (auto simp: sk_ok_def)
  then show ?thesis using assms by (simp add: reserve_post_def sk_ok_def sk_list_def take_resize)
qed

lemma sk_reserve_result:
  assumes ok: "sk_ok st" and n: "0 \<le> n"
  shows "\<exists>b st'. sk_reserve al st n exact = Inr (b, st') \<and> reserve_post st n b st' \<and>
     (sk_num st + n \<le> 1342177280 \<and> al \<noteq> None \<longrightarrow> b)"
proof (cases "n > INT_MAX - sk_num st")
  case True
  then show ?thesis by (auto simp: sk_reserve_def reserve_post_def)
next
  case False
  define m where "m = (if sk_num st + n < 4 then 4 else sk_num st + n)"
  have m: "4 \<le> m" "m \<le> INT_MAX" "sk_num st + n \<le> m" "1342177280 < m \<Longrightarrow> 1342177280 < sk_num st + n"
    using False by (auto simp: m_def split: if_splits)
  note unf = sk_reserve_def [of al st n exact, folded m_def, unfolded Let_def if_not_P [OF False]]
  have no: "reserve_post st n False st" by (simp add: reserve_post_def)
  show ?thesis
  proof (cases "sk_data st")
    case None
    then have "reserve_post st n True (st\<lparr>sk_data := Some (replicate (nat m) 0), sk_num_alloc := m\<rparr>)"
      using ok m n by (auto simp: reserve_post_def sk_ok_def sk_list_def)
    then show ?thesis using None no unfolding unf by (cases al) auto
  next
    case (Some d)
    have a: "4 \<le> sk_num_alloc st" "sk_num_alloc st \<le> INT_MAX" using ok Some by (auto simp: sk_ok_def)
    obtain r where r: "compute_growth m (sk_num_alloc st) = Some r"
      "r = 0 \<and> 1342177280 < m \<or> m \<le> r \<and> sk_num_alloc st \<le> r \<and> r \<le> INT_MAX"
      using compute_growth_result [OF a m(2)] by auto
    have same: "reserve_post st n True st" if "m \<le> sk_num_alloc st"
      using that ok Some m(3) by (auto simp: reserve_post_def)
    have re: "reserve_post st n True (st\<lparr>sk_data := Some (resize j (nat r) d), sk_num_alloc := r\<rparr>)"
      if "m \<le> r" "r \<le> INT_MAX" for r j
      using that realloc_post [OF ok Some, of n r j] m n by linarith
    show ?thesis
    proof (cases exact)
      case True
      then show ?thesis
        using Some same re [of m] no m unfolding unf by (cases "m = sk_num_alloc st"; cases al) auto
    next
      case F: False
      then show ?thesis
        using Some same re [of r] no m r a unfolding unf
        by (cases "m \<le> sk_num_alloc st"; cases al; cases "r = 0") auto
    qed
  qed
qed

section \<open>Lists behind the operations\<close>

definition ins_at :: "'a list \<Rightarrow> 'a \<Rightarrow> int \<Rightarrow> 'a list" where
  "ins_at xs x loc =
     (if loc < 0 \<or> int (length xs) \<le> loc then xs @ [x] else take (nat loc) xs @ x # drop (nat loc) xs)"

definition del_at :: "'a list \<Rightarrow> nat \<Rightarrow> 'a list" where
  "del_at xs i = take i xs @ drop (Suc i) xs"

lemma length_move_up:
  "l < n \<Longrightarrow> n < length d \<Longrightarrow> length (take (Suc l) d @ take (n - l) (drop l d) @ drop (Suc n) d) = length d"
  by auto

lemma length_move_down:
  "l < n \<Longrightarrow> n \<le> length d \<Longrightarrow> length (take l d @ take (n - Suc l) (drop (Suc l) d) @ drop (n - 1) d) = length d"
  by auto

lemma take_move_up:
  assumes "l < n" "n < length d"
  shows "take (Suc n) ((take (Suc l) d @ take (n - l) (drop l d) @ drop (Suc n) d)[l := x]) =
         take l (take n d) @ x # drop l (take n d)"
  using assms by (simp add: list_update_append take_Suc_conv_app_nth drop_take Suc_diff_le)

lemma sk_with_data:
  assumes "sk_ok st" "sk_data st = Some d" "length D = length d" "0 \<le> m" "m \<le> sk_num_alloc st"
  shows "sk_ok (st\<lparr>sk_data := Some D, sk_num := m, sk_sorted := s\<rparr>)"
    "sk_list (st\<lparr>sk_data := Some D, sk_num := m, sk_sorted := s\<rparr>) = take (nat m) D"
  using assms by (simp_all add: sk_ok_def sk_list_def)

lemma take_move_down:
  assumes "l < n" "n \<le> length d"
  shows "take (n - 1) (take l d @ take (n - Suc l) (drop (Suc l) d) @ drop (n - 1) d) = del_at (take n d) l"
  using assms by (simp add: del_at_def drop_take)

lemma data_set_Some:
  "0 \<le> i \<Longrightarrow> nat i < length e \<Longrightarrow> data_set (st\<lparr>sk_data := Some e\<rparr>) i v = Inr (st\<lparr>sk_data := Some (e[nat i := v])\<rparr>)"
  by (simp add: data_set_def)

lemma data_set_end:
  assumes "sk_ok st" "sk_data st \<noteq> None" "sk_num st + 1 \<le> sk_num_alloc st"
  shows "\<exists>st'. data_set st (sk_num st) x = Inr st' \<and> sk_ok (st'\<lparr>sk_num := sk_num st + 1, sk_sorted := s\<rparr>) \<and>
     sk_list (st'\<lparr>sk_num := sk_num st + 1, sk_sorted := s\<rparr>) = sk_list st @ [x] \<and> sk_num st' = sk_num st \<and>
     sk_comp st' = sk_comp st"
  using assms
  by (auto simp: data_set_def sk_ok_def sk_list_def nat_add_distrib take_Suc_conv_app_nth)

lemma data_move_up:
  assumes "sk_ok st" "sk_data st \<noteq> None" "sk_num st + 1 \<le> sk_num_alloc st" "0 \<le> loc" "loc < sk_num st"
  shows "\<exists>st'. rbind (data_move st (loc + 1) loc (sk_num st - loc)) (\<lambda>st. data_set st loc x) = Inr st' \<and>
     sk_ok (st'\<lparr>sk_num := sk_num st + 1, sk_sorted := s\<rparr>) \<and>
     sk_list (st'\<lparr>sk_num := sk_num st + 1, sk_sorted := s\<rparr>) = take (nat loc) (sk_list st) @ x # drop (nat loc) (sk_list st) \<and>
     sk_num st' = sk_num st \<and> sk_comp st' = sk_comp st"
proof -
  obtain d where d: "sk_data st = Some d" using assms(2) by auto
  let ?l = "nat loc" and ?n = "nat (sk_num st)"
  have L: "length d = nat (sk_num_alloc st)" "?n < length d" "?l < ?n" "4 \<le> sk_num_alloc st" "sk_num_alloc st \<le> INT_MAX"
    using assms d by (auto simp: sk_ok_def)
  have c: "nat (loc + 1) = Suc ?l" "nat (sk_num st - loc) = ?n - ?l" "nat (loc + 1 + (sk_num st - loc)) = Suc ?n"
    "nat (loc + (sk_num st - loc)) = ?n" "nat (sk_num st + 1) = Suc ?n"
    using assms by auto
  let ?d1 = "take (Suc ?l) d @ take (?n - ?l) (drop ?l d) @ drop (Suc ?n) d"
  have mv: "data_move st (loc + 1) loc (sk_num st - loc) = Inr (st\<lparr>sk_data := Some ?d1\<rparr>)"
    using assms L unfolding data_move_def d option.case c by auto
  define D where "D = ?d1[?l := x]"
  have D: "length D = length d" "take (Suc ?n) D = take ?l (take ?n d) @ x # drop ?l (take ?n d)"
    unfolding D_def length_list_update by (rule length_move_up [OF L(3,2)], rule take_move_up [OF L(3,2)])
  have "data_set (st\<lparr>sk_data := Some ?d1\<rparr>) loc x = Inr (st\<lparr>sk_data := Some D\<rparr>)"
    unfolding D_def by (rule data_set_Some [OF assms(4)], unfold length_move_up [OF L(3,2)]) (rule less_trans [OF L(3,2)])
  moreover have "sk_list st = take ?n d" using d by (simp add: sk_list_def)
  moreover note sk_with_data [OF assms(1) d D(1), of "sk_num st + 1" s, unfolded c(5)]
  ultimately show ?thesis
    unfolding mv rbind_simps using assms(3,4,5) D(2) by (intro exI [of _ "st\<lparr>sk_data := Some D\<rparr>"]) simp
qed

lemma OPENSSL_sk_insert_result:
  assumes ok: "sk_ok st"
  shows "\<exists>r st'. OPENSSL_sk_insert al (Some st) x loc = Inr (r, Some st') \<and> sk_ok st' \<and> sk_comp st' = sk_comp st \<and>
     (if r = 0 then st' = st \<and> (al = None \<or> 1342177280 \<le> sk_num st)
      else r = sk_num st + 1 \<and> sk_list st' = ins_at (sk_list st) x loc \<and> \<not> sk_sorted st')"
proof (cases "sk_num st = INT_MAX")
  case True
  then show ?thesis using ok by (simp add: OPENSSL_sk_insert_def)
next
  case False
  obtain b st1 where R: "sk_reserve al st 1 False = Inr (b, st1)" "reserve_post st 1 b st1"
      "sk_num st + 1 \<le> 1342177280 \<and> al \<noteq> None \<longrightarrow> b"
    using sk_reserve_result [OF ok, of 1 al False] by auto
  have n0: "0 \<le> sk_num st" using ok by (auto simp: sk_ok_def split: option.splits)
  show ?thesis
  proof (cases b)
    case F: False
    then show ?thesis using R False ok by (auto simp: OPENSSL_sk_insert_def reserve_post_def)
  next
    case True
    then have P: "sk_ok st1" "sk_data st1 \<noteq> None" "sk_num st1 + 1 \<le> sk_num_alloc st1" "sk_list st1 = sk_list st"
      "sk_num st1 = sk_num st" "sk_comp st1 = sk_comp st"
      using R(2) by (auto simp: reserve_post_def)
    have len: "int (length (sk_list st)) = sk_num st" using sk_list_length [OF ok] .
    obtain st2 where S: "(if loc \<ge> sk_num st1 \<or> loc < 0 then data_set st1 (sk_num st1) x
                     else rbind (data_move st1 (loc + 1) loc (sk_num st1 - loc)) (\<lambda>st. data_set st loc x)) = Inr st2"
      "sk_ok (st2\<lparr>sk_num := sk_num st1 + 1, sk_sorted := False\<rparr>)"
      "sk_list (st2\<lparr>sk_num := sk_num st1 + 1, sk_sorted := False\<rparr>) = ins_at (sk_list st1) x loc" "sk_num st2 = sk_num st1"
      "sk_comp st2 = sk_comp st1"
      using data_set_end [OF P(1-3), of x False] data_move_up [OF P(1-3), of loc x False] len P(4,5)
      by (cases "loc \<ge> sk_num st1 \<or> loc < 0") (auto simp: ins_at_def not_le)
    then show ?thesis
      using R(1) True False P n0 by (simp add: OPENSSL_sk_insert_def Let_def S(1) split del: if_split)
  qed
qed

lemma internal_delete_result:
  assumes ok: "sk_ok st" and loc: "0 \<le> loc" "loc < sk_num st"
  shows "\<exists>st'. internal_delete st loc = Inr (sk_list st ! nat loc, st') \<and> sk_ok st' \<and>
     sk_list st' = del_at (sk_list st) (nat loc) \<and> sk_num st' = sk_num st - 1 \<and> sk_comp st' = sk_comp st \<and>
     sk_sorted st' = sk_sorted st"
proof -
  obtain d where d: "sk_data st = Some d" "length d = nat (sk_num_alloc st)" "4 \<le> sk_num_alloc st"
    "sk_num_alloc st \<le> INT_MAX" "sk_num st \<le> sk_num_alloc st" "sk_list st = take (nat (sk_num st)) d"
    using sk_okD [OF ok] loc by force
  let ?l = "nat loc" and ?n = "nat (sk_num st)"
  have L: "?l < ?n" "?n \<le> length d" using loc d by auto
  have c: "nat (loc + 1) = Suc ?l" "nat (sk_num st - loc - 1) = ?n - Suc ?l" "nat (loc + (sk_num st - loc - 1)) = ?n - 1"
    "nat (loc + 1 + (sk_num st - loc - 1)) = ?n" "nat (sk_num st - 1) = ?n - 1"
    using loc by auto
  have g: "data_get st loc = Inr (sk_list st ! ?l)" using L loc d by (simp add: data_get_def)
  show ?thesis
  proof (cases "loc = sk_num st - 1")
    case True
    then have "del_at (sk_list st) ?l = take (nat (sk_num st - 1)) d" unfolding d(6) c(5) using L c(5) by (simp add: del_at_def)
    moreover have "internal_delete st loc = Inr (sk_list st ! ?l, st\<lparr>sk_num := sk_num st - 1\<rparr>)"
      using True g by (simp add: internal_delete_def)
    moreover have "st\<lparr>sk_data := Some d, sk_num := sk_num st - 1\<rparr> = st\<lparr>sk_num := sk_num st - 1\<rparr>"
      by (rule OPENSSL_STACK.equality) (simp_all add: d(1))
    ultimately show ?thesis using sk_with_data [OF ok d(1), of d "sk_num st - 1" "sk_sorted st"] d(5) loc by simp
  next
    case False
    let ?d1 = "take ?l d @ take (?n - Suc ?l) (drop (Suc ?l) d) @ drop (?n - 1) d"
    define D where "D = ?d1"
    have mv: "data_move st loc (loc + 1) (sk_num st - loc - 1) = Inr (st\<lparr>sk_data := Some D\<rparr>)"
      using loc L unfolding data_move_def d(1) option.case c D_def by auto
    have D: "length D = length d" "take (?n - 1) D = del_at (sk_list st) ?l"
      unfolding D_def d(6) by (rule length_move_down [OF L], rule take_move_down [OF L])
    have "internal_delete st loc = Inr (sk_list st ! ?l, st\<lparr>sk_data := Some D, sk_num := sk_num st - 1\<rparr>)"
      using False g mv by (simp add: internal_delete_def)
    then show ?thesis
      using sk_with_data [OF ok d(1) D(1), of "sk_num st - 1" "sk_sorted st", unfolded c(5)] D(2) d(5) loc by simp
  qed
qed

lemma data_get_result:
  assumes "sk_ok st" "0 \<le> i" "i < sk_num st"
  shows "data_get st i = Inr (sk_list st ! nat i)"
proof -
  have "0 < sk_num st" using assms(2,3) by simp
  then obtain d where d: "sk_data st = Some d" "length d = nat (sk_num_alloc st)" "sk_num st \<le> sk_num_alloc st" "sk_list st = take (nat (sk_num st)) d"
    using sk_okD [OF assms(1)] by metis
  then have "nat i < nat (sk_num st)" "nat i < length d" using assms(2,3) by auto
  then show ?thesis using d assms by (simp add: data_get_def)
qed

lemma delete_ptr_loop_result:
  assumes "sk_ok st" "0 \<le> i"
  shows "\<exists>x st'. delete_ptr_loop st p i = Inr (x, st') \<and> sk_ok st' \<and>
     (if p \<in> set (drop (nat i) (sk_list st)) then x = p \<and> sk_list st' = take (nat i) (sk_list st) @ remove1 p (drop (nat i) (sk_list st))
      else x = 0 \<and> st' = st)"
  using assms
proof (induction st p i rule: delete_ptr_loop.induct)
  case (1 st p i)
  note len = sk_list_length [OF "1.prems"(1)]
  show ?case
  proof (cases "i < sk_num st")
    case False
    then have "drop (nat i) (sk_list st) = []" using len by simp
    then show ?thesis using False "1.prems" by (subst delete_ptr_loop.simps) simp
  next
    case True
    define k where "k = nat i"
    have k: "k < length (sk_list st)" "nat (i + 1) = Suc k" using True len "1.prems"(2) by (auto simp: k_def)
    note D = Cons_nth_drop_Suc [OF k(1), symmetric]
    note g = data_get_result [OF "1.prems" True, folded k_def]
    show ?thesis
    proof (cases "sk_list st ! k = p")
      case eq: True
      obtain st' where "internal_delete st i = Inr (p, st')" "sk_ok st'" "sk_list st' = del_at (sk_list st) k"
        using internal_delete_result [OF "1.prems" True] eq by (auto simp: k_def)
      then show ?thesis using True g eq unfolding k_def [symmetric] D
        by (subst delete_ptr_loop.simps) (simp add: del_at_def)
    next
      case ne: False
      have "delete_ptr_loop st p i = delete_ptr_loop st p (i + 1)" using True g ne by (subst delete_ptr_loop.simps) simp
      moreover have "take (Suc k) (sk_list st) = take k (sk_list st) @ [sk_list st ! k]" using k(1) by (rule take_Suc_conv_app_nth)
      moreover have "p \<in> set (drop k (sk_list st)) \<longleftrightarrow> p \<in> set (drop (Suc k) (sk_list st))"
        "remove1 p (drop k (sk_list st)) = sk_list st ! k # remove1 p (drop (Suc k) (sk_list st))"
        using ne by (simp_all add: D)
      moreover obtain x st' where "delete_ptr_loop st p (i + 1) = Inr (x, st')" "sk_ok st'"
          "if p \<in> set (drop (Suc k) (sk_list st)) then x = p \<and> sk_list st' = take (Suc k) (sk_list st) @ remove1 p (drop (Suc k) (sk_list st))
           else x = 0 \<and> st' = st"
        using "1.IH" [OF True g _ "1.prems"(1), unfolded k(2)] ne "1.prems"(2) by auto
      ultimately show ?thesis unfolding k_def [symmetric] by (intro exI [of _ x] exI [of _ st'] conjI) simp_all
    qed
  qed
qed

section \<open>Binary search\<close>

text \<open>The comparisons of a key with a sorted array: positive, then zero, then negative.\<close>

definition falling :: "(nat \<Rightarrow> int) \<Rightarrow> nat \<Rightarrow> bool" where
  "falling cmp num \<longleftrightarrow> (\<forall>i j. i < j \<and> j < num \<longrightarrow> (cmp j > 0 \<longrightarrow> cmp i > 0) \<and> (cmp j = 0 \<longrightarrow> cmp i \<ge> 0))"

lemma bsearch_loop_result:
  assumes "falling cmp num" "l \<le> h" "h \<le> num"
    and "\<forall>j < l. cmp j > 0" "\<forall>j. h \<le> j \<and> j < num \<longrightarrow> cmp j < 0"
    and "l < h \<or> i < num \<and> c = cmp i \<and> c \<noteq> 0" and "num \<le> 268435456"
  shows "\<exists>i' c'. bsearch_loop cmp 8 l h i c = Inr (i', c') \<and>
     i' < num \<and> c' = cmp i' \<and> (c' \<noteq> 0 \<longrightarrow> (\<forall>j < num. cmp j \<noteq> 0))"
  using assms
proof (induction cmp "8 :: int" l h i c rule: bsearch_loop.induct)
  case (1 cmp l h i c)
  let ?m = "(l + h) div 2"
  show ?case
  proof (cases "l < h")
    case False
    then have "cmp j \<noteq> 0" if "j < num" for j
      using "1.prems"(2,4,5) that False by (metis less_irrefl not_less order_trans)
    then show ?thesis using False "1.prems"(6) by (subst bsearch_loop.simps) simp
  next
    case True
    then have m: "l \<le> ?m" "?m < h" "?m < num" using "1.prems"(3) by auto
    have small: "\<not> (INT_MAX < int (l + h) \<or> INT_MAX < int ?m * 8)" using True m(3) "1.prems"(3,7) by auto
    have up: "cmp j < 0" if "cmp ?m < 0" "?m \<le> j" "j < num" for j
      using "1.prems"(1) that unfolding falling_def by (metis le_less less_irrefl linorder_neqE_linordered_idom not_le order_less_trans)
    have dn: "cmp j > 0" if "cmp ?m > 0" "j \<le> ?m" for j
      using "1.prems"(1) that m(3) unfolding falling_def by (metis le_less)
    consider "cmp ?m < 0" | "cmp ?m > 0" | "cmp ?m = 0" by linarith
    then show ?thesis
    proof cases
      case 1
      have "\<exists>i' c'. bsearch_loop cmp 8 l ?m ?m (cmp ?m) = Inr (i', c') \<and>
          i' < num \<and> c' = cmp i' \<and> (c' \<noteq> 0 \<longrightarrow> (\<forall>j < num. cmp j \<noteq> 0))"
      proof (rule "1.hyps"(1) [OF True refl refl small 1 "1.prems"(1) m(1) _ "1.prems"(4) _ _ "1.prems"(7)])
        show "?m \<le> num" "\<forall>j. ?m \<le> j \<and> j < num \<longrightarrow> cmp j < 0" using m up [OF 1] by auto
        show "l < ?m \<or> ?m < num \<and> cmp ?m = cmp ?m \<and> cmp ?m \<noteq> 0" using 1 m(3) by simp
      qed
      then show ?thesis using True 1 small by (subst bsearch_loop.simps) (simp add: Let_def)
    next
      case 2
      have "\<exists>i' c'. bsearch_loop cmp 8 (?m + 1) h ?m (cmp ?m) = Inr (i', c') \<and>
          i' < num \<and> c' = cmp i' \<and> (c' \<noteq> 0 \<longrightarrow> (\<forall>j < num. cmp j \<noteq> 0))"
      proof (rule "1.hyps"(2) [OF True refl refl small _ 2 "1.prems"(1) _ "1.prems"(3) _ "1.prems"(5) _ "1.prems"(7)])
        show "\<not> cmp ?m < 0" using 2 by simp
        show "?m + 1 \<le> h" "\<forall>j < ?m + 1. cmp j > 0" using m dn [OF 2] by auto
        show "?m + 1 < h \<or> ?m < num \<and> cmp ?m = cmp ?m \<and> cmp ?m \<noteq> 0" using 2 m(3) by simp
      qed
      then show ?thesis using True 2 small by (subst bsearch_loop.simps) (simp add: Let_def)
    next
      case 3
      then show ?thesis using True m small by (subst bsearch_loop.simps) (simp add: Let_def)
    qed
  qed
qed

lemma step_back_first:
  assumes "falling cmp num" "i < num" "cmp i = 0"
  shows "step_back cmp i = (LEAST j. cmp j = 0) \<and> step_back cmp i \<le> i \<and> cmp (step_back cmp i) = 0"
  using assms(2,3)
proof (induction i)
  case 0
  then show ?case by (simp add: Least_eq_0)
next
  case (Suc i)
  show ?case
  proof (cases "cmp i = 0")
    case True
    then show ?thesis using Suc by auto
  next
    case False
    have "cmp j \<noteq> 0" if "j \<le> i" for j
    proof
      assume j: "cmp j = 0"
      then have "j < i" using False that by (cases "j = i") auto
      then have "cmp i \<le> 0" "cmp i \<ge> 0"
        using assms(1) Suc.prems j unfolding falling_def by (metis Suc_lessD lessI less_irrefl not_le, metis lessI)
      then show False using False by simp
    qed
    then have "(LEAST j. cmp j = 0) = Suc i"
      using Suc.prems by (intro Least_equality) (auto simp: not_less_eq_eq [symmetric])
    then show ?thesis using False Suc.prems by simp
  qed
qed

lemma ossl_bsearch_result:
  assumes f: "falling cmp (nat num)" and n: "0 \<le> num" "num \<le> 268435456"
  shows "ossl_bsearch cmp num 8 False True = Inr (if \<exists>j < nat num. cmp j = 0 then Some (LEAST j. cmp j = 0) else None)"
proof (cases "num = 0")
  case True
  then show ?thesis by (simp add: ossl_bsearch_def)
next
  case False
  have "nat num \<le> 268435456" using n(2) by (simp add: nat_le_iff)
  then obtain i c where "bsearch_loop cmp 8 0 (nat num) 0 0 = Inr (i, c)" "i < nat num" "c = cmp i" "c \<noteq> 0 \<Longrightarrow> \<forall>j < nat num. cmp j \<noteq> 0"
    using bsearch_loop_result [OF f, of 0 "nat num" 0 0] False n by auto
  then show ?thesis using step_back_first [OF f, of i] False by (auto simp: ossl_bsearch_def Let_def)
qed

text \<open>From half a billion elements on, the byte offset of the very first probe is out of range.\<close>

lemma ossl_bsearch_overflow:
  assumes "536870912 \<le> num"
  shows "ossl_bsearch cmp num 8 a b = Inl IntOverflow"
proof -
  define n where "n = nat num"
  have "536870912 \<le> n" using assms by (simp add: n_def)
  then have "268435456 \<le> n div 2" "0 < n" using div_le_mono [of 536870912 n 2] by simp_all
  then have n: "0 < n" "INT_MAX < int (n div 2) * 8" "num \<noteq> 0" using assms by linarith+
  then have "bsearch_loop cmp 8 0 n 0 0 = Inl IntOverflow" by (subst bsearch_loop.simps) (simp add: Let_def)
  then show ?thesis using n(3) by (simp add: ossl_bsearch_def n_def)
qed

text \<open>Counting from the first equal element on counts them all.\<close>

lemma count_eq_range:
  "count_eq cmp num p = n \<Longrightarrow> (\<forall>j. p \<le> j \<and> j < p + n \<longrightarrow> j < num \<and> cmp j = 0) \<and> (p + n < num \<longrightarrow> cmp (p + n) \<noteq> 0)"
proof (induction cmp num p arbitrary: n rule: count_eq.induct)
  case (1 cmp num p)
  show ?case
  proof (cases "p < num \<and> cmp p = 0")
    case True
    then obtain k where k: "n = Suc k" "count_eq cmp num (p + 1) = k" using "1.prems" by (subst (asm) count_eq.simps) simp
    have "j = p \<or> p + 1 \<le> j" if "p \<le> j" for j using that by auto
    then show ?thesis using "1.IH" [OF True k(2)] True k(1) by (metis add.assoc add.commute plus_1_eq_Suc)
  next
    case False
    then show ?thesis using "1.prems" by (subst (asm) count_eq.simps) auto
  qed
qed

lemma count_eq_all:
  assumes f: "falling cmp num" and p: "p < num" "cmp p = 0" "\<forall>j < p. cmp j \<noteq> 0"
  shows "count_eq cmp num p = card {j. j < num \<and> cmp j = 0}"
proof -
  define n where "n = count_eq cmp num p"
  note R = count_eq_range [OF n_def [symmetric]]
  have "j < p + n" if j: "j < num" "cmp j = 0" for j
  proof (rule ccontr)
    assume "\<not> j < p + n"
    then have le: "p + n \<le> j" "p \<le> p + n" by simp_all
    then have q: "p + n < num" "cmp (p + n) \<noteq> 0" using R j(1) by auto
    have "p + n \<noteq> p" "p + n \<noteq> j" using q p(2) j(2) by metis+
    then have "\<not> cmp (p + n) > 0" "cmp (p + n) \<ge> 0" using f q(1) j le p(2) unfolding falling_def by (metis le_neq_implies_less less_irrefl)+
    then show False using q(2) by simp
  qed
  moreover have "p \<le> j" if "cmp j = 0" for j using p(3) that by (metis not_less)
  ultimately have "{j. j < num \<and> cmp j = 0} = {p..<p + n}"
    using R unfolding set_eq_iff mem_Collect_eq atLeastLessThan_iff by blast
  then show ?thesis by (simp add: n_def)
qed

section \<open>Sorted stacks\<close>

definition total_cmp :: "cmpf \<Rightarrow> bool" where
  "total_cmp f \<longleftrightarrow> (\<forall>x y. f x y < 0 \<longleftrightarrow> 0 < f y x) \<and> (\<forall>x y z. f x y \<le> 0 \<and> f y z \<le> 0 \<longrightarrow> f x z \<le> 0)"

definition sorted_by :: "cmpf \<Rightarrow> ptr list \<Rightarrow> bool" where
  "sorted_by f = sorted_wrt (\<lambda>x y. f x y \<le> 0)"

lemma mset_insert_by [simp]: "mset (insert_by f x xs) = add_mset x (mset xs)"
  by (induction xs) auto

lemma set_insert_by [simp]: "set (insert_by f x xs) = insert x (set xs)"
  by (simp flip: set_mset_mset)

lemma mset_qsort [simp]: "mset (qsort f xs) = mset xs"
  by (induction xs) (auto simp: qsort_def)

lemma length_qsort [simp]: "length (qsort f xs) = length xs"
  by (metis mset_qsort size_mset)

lemma total_cmpD: "total_cmp f \<Longrightarrow> \<not> f x y \<le> 0 \<Longrightarrow> f y x \<le> 0"
  unfolding total_cmp_def by (metis not_le less_imp_le)

lemma sorted_insert_by: "total_cmp f \<Longrightarrow> sorted_by f xs \<Longrightarrow> sorted_by f (insert_by f x xs)"
proof (induction xs)
  case (Cons y ys)
  have t: "f x z \<le> 0" if "f x y \<le> 0" "z \<in> set ys" for z
    using Cons.prems that unfolding total_cmp_def sorted_by_def sorted_wrt.simps by blast
  show ?case using Cons t total_cmpD [OF Cons.prems(1), of x y] by (auto simp: sorted_by_def)
qed (simp add: sorted_by_def)

lemma sorted_qsort: "total_cmp f \<Longrightarrow> sorted_by f (qsort f xs)"
  by (induction xs) (auto simp: qsort_def sorted_insert_by sorted_by_def [of f, THEN fun_cong, of "[]"])

lemma falling_sorted:
  assumes "total_cmp f" "sorted_by f xs"
  shows "falling (\<lambda>i. f x (xs ! i)) (length xs)"
  unfolding falling_def
proof (intro allI impI, elim conjE)
  fix i j assume ij: "i < j" "j < length xs"
  have le: "f (xs ! i) (xs ! j) \<le> 0" using assms(2) ij by (simp add: sorted_by_def sorted_wrt_iff_nth_less)
  have "f x (xs ! j) \<le> 0" if "f x (xs ! i) \<le> 0"
    using assms(1) le that unfolding total_cmp_def by blast
  moreover have "f x (xs ! j) < 0" if "f x (xs ! i) < 0"
  proof (rule ccontr)
    assume "\<not> f x (xs ! j) < 0"
    then have "f (xs ! j) x \<le> 0" using assms(1) unfolding total_cmp_def by (metis not_le)
    then have "f (xs ! i) x \<le> 0" using assms(1) le unfolding total_cmp_def by blast
    then show False using assms(1) that unfolding total_cmp_def by (metis not_le)
  qed
  ultimately show "(f x (xs ! j) > 0 \<longrightarrow> f x (xs ! i) > 0) \<and> (f x (xs ! j) = 0 \<longrightarrow> f x (xs ! i) \<ge> 0)" by force
qed

text \<open>The sorted flag is kept honest by every operation.\<close>

definition sk_inv :: "(ptr \<Rightarrow> cmpf) \<Rightarrow> OPENSSL_STACK \<Rightarrow> bool" where
  "sk_inv fp st \<longleftrightarrow> sk_ok st \<and> (sk_sorted st \<longrightarrow> sk_comp st \<noteq> 0 \<and> sorted_by (fp (sk_comp st)) (sk_list st))"

lemma sort_stack:
  assumes inv: "sk_inv fp st" and c: "sk_comp st \<noteq> 0" and t: "total_cmp (fp (sk_comp st))"
  shows "\<exists>st'. (if \<not> sk_sorted st then
                rbind (if sk_num st > 1 then sort_data (fp (sk_comp st)) st else Inr st) (\<lambda>st. Inr (st\<lparr>sk_sorted := True\<rparr>))
              else Inr st) = Inr st' \<and> sk_inv fp st' \<and> sk_sorted st' \<and> mset (sk_list st') = mset (sk_list st) \<and>
     sk_num st' = sk_num st \<and> sk_comp st' = sk_comp st"
proof -
  have ok: "sk_ok st" using inv by (simp add: sk_inv_def)
  consider (already) "sk_sorted st" | (small) "\<not> sk_sorted st" "sk_num st \<le> 1" | (sort) "\<not> sk_sorted st" "1 < sk_num st" by linarith
  then show ?thesis
  proof cases
    case already
    then show ?thesis using inv by simp
  next
    case small
    then have "length (sk_list st) \<le> 1" using sk_list_length [OF ok] by simp
    then have "sorted_by (fp (sk_comp st)) (sk_list st)"
      by (cases "sk_list st") (auto simp: sorted_by_def)
    then show ?thesis using small ok c by (simp add: sk_inv_def)
  next
    case sort
    then obtain d where d: "sk_data st = Some d" "length d = nat (sk_num_alloc st)" "sk_num st \<le> sk_num_alloc st"
        "sk_list st = take (nat (sk_num st)) d"
      using sk_okD [OF ok] by force
    let ?xs = "qsort (fp (sk_comp st)) (sk_list st)"
    define D where "D = ?xs @ drop (nat (sk_num st)) d"
    have n: "nat (sk_num st) \<le> length d" using d by simp
    then have D: "length D = length d" "take (nat (sk_num st)) D = ?xs" by (simp_all add: D_def d(4))
    have r: "sort_data (fp (sk_comp st)) st = Inr (st\<lparr>sk_data := Some D\<rparr>)"
      using n by (simp add: sort_data_def d(1) D_def d(4))
    have "st\<lparr>sk_data := Some D, sk_num := sk_num st, sk_sorted := True\<rparr> = st\<lparr>sk_data := Some D, sk_sorted := True\<rparr>" by simp
    then have "sk_inv fp (st\<lparr>sk_data := Some D, sk_sorted := True\<rparr>)" "sk_list (st\<lparr>sk_data := Some D, sk_sorted := True\<rparr>) = ?xs"
      using sk_with_data [OF ok d(1) D(1), of "sk_num st" True] D(2) d(3) sort(2) c sorted_qsort [OF t]
      by (simp_all add: sk_inv_def)
    then show ?thesis using sort r by (intro exI [of _ "st\<lparr>sk_data := Some D, sk_sorted := True\<rparr>"]) simp
  qed
qed

text \<open>Both searches sort the stack and hand its array to \<^verbatim>\<open>ossl_bsearch\<close>.\<close>

lemma internal_find_steps:
  assumes inv: "sk_inv fp st" and c: "sk_comp st \<noteq> 0" and t: "total_cmp (fp (sk_comp st))" and x: "x \<noteq> 0" and n: "sk_num st \<noteq> 0"
  obtains st' where "sk_inv fp st'" "mset (sk_list st') = mset (sk_list st)" "length (sk_list st') = nat (sk_num st)"
    "falling (\<lambda>i. fp (sk_comp st) x (the (sk_data st') ! i)) (nat (sk_num st))"
    "\<And>j. j < nat (sk_num st) \<Longrightarrow> the (sk_data st') ! j = sk_list st' ! j"
    "\<And>a b w. internal_find fp (Some st) x a b w = rbind (ossl_bsearch (\<lambda>i. fp (sk_comp st) x (the (sk_data st') ! i)) (sk_num st) 8 a (b \<or> w)) (\<lambda>r.
       Inr (case r of None \<Rightarrow> -1 | Some i \<Rightarrow> int i,
            if w then Some (case r of None \<Rightarrow> 0 | Some p \<Rightarrow> int (count_eq (\<lambda>i. fp (sk_comp st) x (the (sk_data st') ! i)) (nat (sk_num st)) p)) else None,
            Some st'))"
proof -
  obtain st1 where S: "(if \<not> sk_sorted st then
                rbind (if sk_num st > 1 then sort_data (fp (sk_comp st)) st else Inr st) (\<lambda>st. Inr (st\<lparr>sk_sorted := True\<rparr>))
              else Inr st) = Inr st1" "sk_inv fp st1" "sk_sorted st1" "mset (sk_list st1) = mset (sk_list st)"
     "sk_num st1 = sk_num st" "sk_comp st1 = sk_comp st"
    using sort_stack [OF inv c t] by auto
  have ok: "sk_ok st1" and p: "0 < sk_num st1" using S inv n by (auto simp: sk_inv_def sk_ok_def split: option.splits)
  obtain d where d: "sk_data st1 = Some d" "sk_list st1 = take (nat (sk_num st)) d" "nat (sk_num st) \<le> length d"
    using sk_okD [OF ok p] S(5) by (metis nat_mono)
  let ?f = "fp (sk_comp st) x" and ?n = "nat (sk_num st)" and ?xs = "sk_list st1"
  have l: "length ?xs = ?n" using d by simp
  have e: "d ! j = ?xs ! j" if "j < ?n" for j unfolding d(2) using that by simp
  have "falling (\<lambda>i. ?f (?xs ! i)) ?n" using falling_sorted [OF t, of ?xs x] S(2,3,6) l by (simp add: sk_inv_def)
  then have fall: "falling (\<lambda>i. ?f (d ! i)) ?n" unfolding falling_def using d(2) by auto
  have r: "internal_find fp (Some st) x a b w = rbind (ossl_bsearch (\<lambda>i. ?f (d ! i)) (sk_num st) 8 a (b \<or> w)) (\<lambda>r.
       Inr (case r of None \<Rightarrow> -1 | Some i \<Rightarrow> int i,
            if w then Some (case r of None \<Rightarrow> 0 | Some p \<Rightarrow> int (count_eq (\<lambda>i. ?f (d ! i)) ?n p)) else None, Some st1))" for a b w
    using n c x d S(1,5,6) by (simp add: internal_find_def Let_def cong: if_cong option.case_cong split del: if_split)
  have D: "the (sk_data st1) = d" using d(1) by simp
  show ?thesis by (rule that [of st1], unfold D) (fact S l fall e r)+
qed

lemma OPENSSL_sk_find_result:
  assumes inv: "sk_inv fp st" and c: "sk_comp st \<noteq> 0" and t: "total_cmp (fp (sk_comp st))" and x: "x \<noteq> 0"
    and small: "sk_num st \<le> 268435456"
  shows "\<exists>r n st'. OPENSSL_sk_find fp (Some st) x = Inr (r, Some st') \<and> OPENSSL_sk_find_all fp (Some st) x = Inr (r, n, Some st') \<and>
     sk_inv fp st' \<and> mset (sk_list st') = mset (sk_list st) \<and>
     n = (if sk_list st = [] then None else Some (int (length (filter (\<lambda>y. fp (sk_comp st) x y = 0) (sk_list st))))) \<and>
     (if \<exists>y \<in> set (sk_list st). fp (sk_comp st) x y = 0
      then 0 \<le> r \<and> r < sk_num st \<and> fp (sk_comp st) x (sk_list st' ! nat r) = 0 \<and>
           (\<forall>j < nat r. fp (sk_comp st) x (sk_list st' ! j) \<noteq> 0)
      else r = -1)"
proof (cases "sk_num st = 0")
  case True
  then have "sk_list st = []" using inv sk_list_length [of st] by (simp add: sk_inv_def)
  then show ?thesis using True inv by (simp add: OPENSSL_sk_find_def OPENSSL_sk_find_all_def internal_find_def)
next
  case False
  obtain st1 where S: "sk_inv fp st1" "mset (sk_list st1) = mset (sk_list st)" "length (sk_list st1) = nat (sk_num st)"
    and fall: "falling (\<lambda>i. fp (sk_comp st) x (the (sk_data st1) ! i)) (nat (sk_num st))"
    and e: "\<And>j. j < nat (sk_num st) \<Longrightarrow> the (sk_data st1) ! j = sk_list st1 ! j"
    and r: "\<And>a b w. internal_find fp (Some st) x a b w = rbind (ossl_bsearch (\<lambda>i. fp (sk_comp st) x (the (sk_data st1) ! i)) (sk_num st) 8 a (b \<or> w)) (\<lambda>r.
       Inr (case r of None \<Rightarrow> -1 | Some i \<Rightarrow> int i,
            if w then Some (case r of None \<Rightarrow> 0 | Some p \<Rightarrow> int (count_eq (\<lambda>i. fp (sk_comp st) x (the (sk_data st1) ! i)) (nat (sk_num st)) p)) else None,
            Some st1))"
    by (rule internal_find_steps [OF inv c t x False]) (rule that)
  define f where "f = fp (sk_comp st) x"
  define g where "g = (\<lambda>i. f (the (sk_data st1) ! i))"
  define m where "m = nat (sk_num st)"
  have num: "0 \<le> sk_num st" "0 < m" "int m = sk_num st" using inv False by (auto simp: m_def sk_inv_def sk_ok_def split: option.splits)
  have fg: "falling g m" using fall by (simp add: g_def f_def m_def)
  note R = ossl_bsearch_result [OF fg [unfolded m_def] num(1) small, folded m_def]
  have F: "internal_find fp (Some st) x a b w = rbind (ossl_bsearch g (sk_num st) 8 a (b \<or> w)) (\<lambda>r.
       Inr (case r of None \<Rightarrow> -1 | Some i \<Rightarrow> int i,
            if w then Some (case r of None \<Rightarrow> 0 | Some p \<Rightarrow> int (count_eq g m p)) else None, Some st1))" for a b w
    unfolding r g_def f_def m_def ..
  have gx: "g j = f (sk_list st1 ! j)" if "j < m" for j using e that by (simp add: g_def m_def)
  have set_eq: "set (sk_list st) = set (sk_list st1)" using S(2) by (metis set_mset_mset)
  have ex: "(\<exists>j < m. g j = 0) \<longleftrightarrow> (\<exists>y \<in> set (sk_list st). f y = 0)"
    unfolding set_eq in_set_conv_nth Bex_def using gx S(3) by (auto simp: m_def)
  have "filter_mset (\<lambda>y. f y = 0) (mset (sk_list st)) = filter_mset (\<lambda>y. f y = 0) (mset (sk_list st1))" by (simp add: S(2))
  then have "length (filter (\<lambda>y. f y = 0) (sk_list st)) = length (filter (\<lambda>y. f y = 0) (sk_list st1))"
    by (metis mset_filter size_mset)
  also have "\<dots> = card {j. j < m \<and> g j = 0}"
    unfolding length_filter_conv_card S(3) m_def [symmetric] using gx by (metis (mono_tags, lifting))
  finally have cnt: "length (filter (\<lambda>y. f y = 0) (sk_list st)) = card {j. j < m \<and> g j = 0}" .
  have ne: "sk_list st \<noteq> []" using S(2,3) num by (auto simp: m_def)
  show ?thesis
  proof (cases "\<exists>j < m. g j = 0")
    case True
    define k where "k = (LEAST j. g j = 0)"
    have k: "g k = 0" "k < m" "\<forall>j < k. g j \<noteq> 0"
      using True unfolding k_def by (metis (mono_tags, lifting) LeastI, metis (mono_tags, lifting) Least_le order_le_less_trans, metis not_less_Least)
    have "ossl_bsearch g (sk_num st) 8 False True = Inr (Some k)" using R True by (simp add: k_def)
    then have "OPENSSL_sk_find fp (Some st) x = Inr (int k, Some st1)"
      "OPENSSL_sk_find_all fp (Some st) x = Inr (int k, Some (int (card {j. j < m \<and> g j = 0})), Some st1)"
      using count_eq_all [OF fg k(2,1,3)] by (simp_all add: OPENSSL_sk_find_def OPENSSL_sk_find_all_def F)
    moreover have "f (sk_list st1 ! k) = 0" "\<forall>j < k. f (sk_list st1 ! j) \<noteq> 0" using k gx by (metis, metis less_trans)
    ultimately show ?thesis
      unfolding f_def [symmetric] if_P [OF ex [THEN iffD1, OF True]] cnt using S(1,2) ne k(2) num(3)
      by (intro exI [of _ "int k"] exI [of _ st1] exI) auto
  next
    case no: False
    then have "{j. j < m \<and> g j = 0} = {}" by auto
    then have "card {j. j < m \<and> g j = 0} = 0" by simp
    moreover have "ossl_bsearch g (sk_num st) 8 False True = Inr None" using R no by simp
    then have "OPENSSL_sk_find fp (Some st) x = Inr (-1, Some st1)" "OPENSSL_sk_find_all fp (Some st) x = Inr (-1, Some 0, Some st1)"
      by (simp_all add: OPENSSL_sk_find_def OPENSSL_sk_find_all_def F)
    moreover have "\<not> (\<exists>y \<in> set (sk_list st). f y = 0)" using no ex by simp
    ultimately show ?thesis unfolding f_def [symmetric] cnt using S(1,2) ne by simp
  qed
qed

lemma OPENSSL_sk_find_overflow:
  assumes "sk_inv fp st" "sk_comp st \<noteq> 0" "total_cmp (fp (sk_comp st))" "x \<noteq> 0" "536870912 \<le> sk_num st"
  shows "OPENSSL_sk_find fp (Some st) x = Inl IntOverflow \<and> OPENSSL_sk_find_all fp (Some st) x = Inl IntOverflow"
proof -
  have "sk_num st \<noteq> 0" using assms(5) by simp
  then show ?thesis
    by (rule internal_find_steps [OF assms(1-4)])
      (simp add: OPENSSL_sk_find_def OPENSSL_sk_find_all_def ossl_bsearch_overflow [OF assms(5)])
qed

section \<open>The contract of a list container\<close>

text \<open>
  What a caller relies on: elements can be put in at an index and taken out at one, an insertion may be
  refused, and the content is the list these operations describe.
\<close>

locale list_container =
  fixes inv :: "'s \<Rightarrow> bool" and contents :: "'s \<Rightarrow> ptr list"
    and put :: "'s \<Rightarrow> ptr \<Rightarrow> int \<Rightarrow> 's option" and del :: "'s \<Rightarrow> nat \<Rightarrow> ptr \<times> 's"
  assumes put_law: "inv s \<Longrightarrow> put s x i = Some s' \<Longrightarrow> inv s' \<and> contents s' = ins_at (contents s) x i"
    and del_law: "inv s \<Longrightarrow> j < length (contents s) \<Longrightarrow>
      fst (del s j) = contents s ! j \<and> inv (snd (del s j)) \<and> contents (snd (del s j)) = del_at (contents s) j"
begin

fun push_all :: "'s \<Rightarrow> ptr list \<Rightarrow> 's option" where
  "push_all s [] = Some s"
| "push_all s (x # xs) = (case put s x (-1) of None \<Rightarrow> None | Some s' \<Rightarrow> push_all s' xs)"

fun shift_all :: "'s \<Rightarrow> nat \<Rightarrow> ptr list" where
  "shift_all s 0 = []"
| "shift_all s (Suc n) = fst (del s 0) # shift_all (snd (del s 0)) n"

fun pop_all :: "'s \<Rightarrow> nat \<Rightarrow> ptr list" where
  "pop_all s 0 = []"
| "pop_all s (Suc n) = fst (del s n) # pop_all (snd (del s n)) n"

lemma push_all_contents: "inv s \<Longrightarrow> push_all s xs = Some s' \<Longrightarrow> inv s' \<and> contents s' = contents s @ xs"
proof (induction xs arbitrary: s)
  case (Cons x xs)
  then obtain s1 where s1: "put s x (-1) = Some s1" "push_all s1 xs = Some s'" by (auto split: option.splits)
  then show ?case using Cons.IH [of s1] put_law [OF Cons.prems(1) s1(1)] by (simp add: ins_at_def)
qed simp

lemma shift_all_contents: "inv s \<Longrightarrow> length (contents s) = n \<Longrightarrow> shift_all s n = contents s"
proof (induction n arbitrary: s)
  case (Suc n)
  then have d: "fst (del s 0) = contents s ! 0" "inv (snd (del s 0))" "contents (snd (del s 0)) = tl (contents s)"
    using del_law [of s 0] by (auto simp: del_at_def drop_Suc)
  then show ?case using Suc by (cases "contents s") auto
qed simp

lemma pop_all_contents: "inv s \<Longrightarrow> length (contents s) = n \<Longrightarrow> pop_all s n = rev (contents s)"
proof (induction n arbitrary: s)
  case (Suc n)
  then have ne: "contents s \<noteq> []" "n = length (contents s) - 1" by auto
  then have "fst (del s n) = last (contents s)" "inv (snd (del s n))" "contents (snd (del s n)) = butlast (contents s)"
    using del_law [of s n] Suc.prems by (auto simp: del_at_def last_conv_nth butlast_conv_take)
  then show ?case using Suc ne by (metis Suc_inject append_butlast_last_id length_append_singleton pop_all.simps(2) rev_eq_Cons_iff rev_rev_ident)
qed simp

theorem fifo: "inv s \<Longrightarrow> contents s = [] \<Longrightarrow> push_all s xs = Some s' \<Longrightarrow> shift_all s' (length xs) = xs"
  using push_all_contents [of s xs s'] shift_all_contents [of s' "length xs"] by simp

theorem lifo: "inv s \<Longrightarrow> contents s = [] \<Longrightarrow> push_all s xs = Some s' \<Longrightarrow> pop_all s' (length xs) = rev xs"
  using push_all_contents [of s xs s'] pop_all_contents [of s' "length xs"] by simp

end

text \<open>The functions of \<^verbatim>\<open>stack.c\<close> as such a container; an insertion is refused when it returns 0.\<close>

definition sk_put :: "alloc \<Rightarrow> OPENSSL_STACK \<Rightarrow> ptr \<Rightarrow> int \<Rightarrow> OPENSSL_STACK option" where
  "sk_put al st x i =
     (case OPENSSL_sk_insert al (Some st) x i of Inr (r, Some st') \<Rightarrow> if r = 0 then None else Some st' | _ \<Rightarrow> None)"

definition sk_del :: "OPENSSL_STACK \<Rightarrow> nat \<Rightarrow> ptr \<times> OPENSSL_STACK" where
  "sk_del st i = (case OPENSSL_sk_delete (Some st) (int i) of Inr (x, Some st') \<Rightarrow> (x, st') | _ \<Rightarrow> (0, st))"

interpretation sk: list_container sk_ok sk_list "sk_put al" sk_del for al
proof
  fix s x i s'
  assume "sk_ok s" "sk_put al s x i = Some s'"
  then show "sk_ok s' \<and> sk_list s' = ins_at (sk_list s) x i"
    using OPENSSL_sk_insert_result [of s al x i] by (auto simp: sk_put_def split: if_splits)
next
  fix s i
  assume a: "sk_ok s" "i < length (sk_list s)"
  then have "int i < sk_num s" using sk_list_length [of s] by simp
  then obtain s' where "internal_delete s (int i) = Inr (sk_list s ! i, s')" "sk_ok s'" "sk_list s' = del_at (sk_list s) i"
    using internal_delete_result [OF a(1), of "int i"] by auto
  then show "fst (sk_del s i) = sk_list s ! i \<and> sk_ok (snd (sk_del s i)) \<and> sk_list (snd (sk_del s i)) = del_at (sk_list s) i"
    using \<open>int i < sk_num s\<close> by (simp add: sk_del_def OPENSSL_sk_delete_def opt_op_def)
qed

section \<open>Properties\<close>

text \<open>
  C23.  On a well-formed stack an insertion never leaves the array.  It returns 0 and
  changes nothing only when memory runs out or the stack is within a growth step of the hard limit;
  otherwise it returns the new length, the content is the old list with the element at the index (at the
  end for an index outside it), the stack stays well-formed and is no longer marked sorted.
\<close>

theorem OPENSSL_sk_insert_correct:
  assumes "sk_ok st"
  shows "\<exists>r st'. OPENSSL_sk_insert al (Some st) x loc = Inr (r, Some st') \<and> sk_ok st' \<and> sk_comp st' = sk_comp st \<and>
     (if r = 0 then st' = st \<and> (al = None \<or> 1342177280 \<le> sk_num st)
      else r = sk_num st + 1 \<and> sk_list st' = ins_at (sk_list st) x loc \<and> \<not> sk_sorted st')"
  using assms by (rule OPENSSL_sk_insert_result)

definition ex_stack :: OPENSSL_STACK where
  "ex_stack = \<lparr>sk_num = 3, sk_data = Some [30, 10, 20, 0], sk_sorted = False, sk_num_alloc = 4, sk_comp = 1\<rparr>"

lemma ex_stack_ok: "sk_ok ex_stack" "sk_list ex_stack = [30, 10, 20]"
  by (simp_all add: sk_ok_def sk_list_def ex_stack_def)

definition big_stack :: OPENSSL_STACK where
  "big_stack = \<lparr>sk_num = 536870912, sk_data = Some (replicate 536870912 0), sk_sorted = False, sk_num_alloc = 536870912, sk_comp = 1\<rparr>"

theorem OPENSSL_sk_insert_correct_witness:
  "\<exists>st'. OPENSSL_sk_insert (Some 7) (Some ex_stack) 99 1 = Inr (4, Some st') \<and> sk_list st' = [30, 99, 10, 20]"
proof -
  have "sk_num ex_stack = 3" by (simp add: ex_stack_def)
  then show ?thesis
    using OPENSSL_sk_insert_correct [OF ex_stack_ok(1), of "Some 7" 99 1] ex_stack_ok(2)
    by (auto simp: ins_at_def split: if_splits)
qed

text \<open>
  C24.  Deleting at an index, popping and shifting return exactly the element at that
  place of a well-formed stack and remove it from the list; outside the list, and on an absent stack, they
  return \<^verbatim>\<open>NULL\<close> and change nothing.  Deleting a pointer returns it and removes its first occurrence, or
  returns \<^verbatim>\<open>NULL\<close> and changes nothing when the list does not have it; it must not be called with an absent stack.
\<close>

theorem OPENSSL_sk_remove_correct:
  assumes "sk_ok st"
  shows "(\<exists>x st'. OPENSSL_sk_delete (Some st) loc = Inr (x, Some st') \<and> sk_ok st' \<and>
       (if 0 \<le> loc \<and> loc < sk_num st then x = sk_list st ! nat loc \<and> sk_list st' = del_at (sk_list st) (nat loc)
        else x = 0 \<and> st' = st)) \<and>
     (\<exists>x st'. OPENSSL_sk_pop (Some st) = Inr (x, Some st') \<and> sk_ok st' \<and>
       (if sk_list st \<noteq> [] then x = last (sk_list st) \<and> sk_list st' = butlast (sk_list st) else x = 0 \<and> st' = st)) \<and>
     (\<exists>x st'. OPENSSL_sk_shift (Some st) = Inr (x, Some st') \<and> sk_ok st' \<and>
       (if sk_list st \<noteq> [] then x = hd (sk_list st) \<and> sk_list st' = tl (sk_list st) else x = 0 \<and> st' = st)) \<and>
     (\<exists>x st'. OPENSSL_sk_delete_ptr (Some st) p = Inr (x, Some st') \<and> sk_ok st' \<and>
       (if p \<in> set (sk_list st) then x = p \<and> sk_list st' = remove1 p (sk_list st) else x = 0 \<and> st' = st)) \<and>
     OPENSSL_sk_delete None loc = Inr (0, None) \<and> OPENSSL_sk_pop None = Inr (0, None) \<and> OPENSSL_sk_shift None = Inr (0, None) \<and>
     OPENSSL_sk_delete_ptr None p = Inl NullDeref"
proof (intro conjI)
  note len = sk_list_length [OF assms]
  show "\<exists>x st'. OPENSSL_sk_delete (Some st) loc = Inr (x, Some st') \<and> sk_ok st' \<and>
       (if 0 \<le> loc \<and> loc < sk_num st then x = sk_list st ! nat loc \<and> sk_list st' = del_at (sk_list st) (nat loc)
        else x = 0 \<and> st' = st)"
    using internal_delete_result [OF assms, of loc] assms by (force simp: OPENSSL_sk_delete_def opt_op_def)
  show "\<exists>x st'. OPENSSL_sk_pop (Some st) = Inr (x, Some st') \<and> sk_ok st' \<and>
       (if sk_list st \<noteq> [] then x = last (sk_list st) \<and> sk_list st' = butlast (sk_list st) else x = 0 \<and> st' = st)"
  proof (cases "sk_list st = []")
    case True
    then show ?thesis using assms len by (simp add: OPENSSL_sk_pop_def opt_op_def)
  next
    case False
    then have n: "0 \<le> sk_num st - 1" "sk_num st - 1 < sk_num st" "nat (sk_num st - 1) = length (sk_list st) - 1"
      using len by (cases "sk_list st", auto)+
    have "sk_num st \<noteq> 0" using n by simp
    then show ?thesis
      using internal_delete_result [OF assms n(1,2)] False n(3)
      by (auto simp: OPENSSL_sk_pop_def opt_op_def del_at_def last_conv_nth butlast_conv_take)
  qed
  show "\<exists>x st'. OPENSSL_sk_shift (Some st) = Inr (x, Some st') \<and> sk_ok st' \<and>
       (if sk_list st \<noteq> [] then x = hd (sk_list st) \<and> sk_list st' = tl (sk_list st) else x = 0 \<and> st' = st)"
  proof (cases "sk_list st = []")
    case True
    then show ?thesis using assms len by (simp add: OPENSSL_sk_shift_def opt_op_def)
  next
    case False
    then have "0 < sk_num st" using len by (cases "sk_list st") auto
    then show ?thesis
      using internal_delete_result [OF assms, of 0] False
      by (auto simp: OPENSSL_sk_shift_def opt_op_def del_at_def hd_conv_nth drop_Suc)
  qed
  obtain x st' where "delete_ptr_loop st p 0 = Inr (x, st')" "sk_ok st'"
      "if p \<in> set (sk_list st) then x = p \<and> sk_list st' = remove1 p (sk_list st) else x = 0 \<and> st' = st"
    using delete_ptr_loop_result [OF assms, of 0 p] by auto
  then show "\<exists>x st'. OPENSSL_sk_delete_ptr (Some st) p = Inr (x, Some st') \<and> sk_ok st' \<and>
       (if p \<in> set (sk_list st) then x = p \<and> sk_list st' = remove1 p (sk_list st) else x = 0 \<and> st' = st)"
    by (auto simp: OPENSSL_sk_delete_ptr_def)
qed (simp_all add: OPENSSL_sk_delete_def OPENSSL_sk_pop_def OPENSSL_sk_shift_def OPENSSL_sk_delete_ptr_def opt_op_def)

theorem OPENSSL_sk_remove_correct_witness:
  "(\<exists>st'. OPENSSL_sk_pop (Some ex_stack) = Inr (20, Some st') \<and> sk_list st' = [30, 10]) \<and>
   (\<exists>st'. OPENSSL_sk_delete_ptr (Some ex_stack) 10 = Inr (10, Some st') \<and> sk_list st' = [30, 20])"
  using OPENSSL_sk_remove_correct [OF ex_stack_ok(1), of 0 10] ex_stack_ok(2) by auto

text \<open>
  C25.  For a comparison function that is a total preorder and a stack of at most \<open>2 ^ 28\<close>
  elements, searching sorts the stack if need be, keeps its elements, and returns the first index whose
  element compares equal to the key, or -1 exactly when there is none; \<^verbatim>\<open>OPENSSL_sk_find_all\<close> also gives the
  number of such elements, except for an empty stack, where it leaves the number unset.  From \<open>2 ^ 29\<close> elements
  on, the offset of the first probe of the binary search overflows \<^verbatim>\<open>int\<close>.
\<close>

theorem OPENSSL_sk_find_correct:
  assumes "sk_inv fp st" "sk_comp st \<noteq> 0" "total_cmp (fp (sk_comp st))" "x \<noteq> 0"
  shows "(sk_num st \<le> 268435456 \<longrightarrow> (\<exists>r n st'. OPENSSL_sk_find fp (Some st) x = Inr (r, Some st') \<and> OPENSSL_sk_find_all fp (Some st) x = Inr (r, n, Some st') \<and>
     sk_inv fp st' \<and> mset (sk_list st') = mset (sk_list st) \<and>
     n = (if sk_list st = [] then None else Some (int (length (filter (\<lambda>y. fp (sk_comp st) x y = 0) (sk_list st))))) \<and>
     (if \<exists>y \<in> set (sk_list st). fp (sk_comp st) x y = 0
      then 0 \<le> r \<and> r < sk_num st \<and> fp (sk_comp st) x (sk_list st' ! nat r) = 0 \<and>
           (\<forall>j < nat r. fp (sk_comp st) x (sk_list st' ! j) \<noteq> 0)
      else r = -1))) \<and>
     (536870912 \<le> sk_num st \<longrightarrow>
        OPENSSL_sk_find fp (Some st) x = Inl IntOverflow \<and> OPENSSL_sk_find_all fp (Some st) x = Inl IntOverflow)"
  using OPENSSL_sk_find_result [OF assms] OPENSSL_sk_find_overflow [OF assms] by blast

theorem OPENSSL_sk_find_correct_witness:
  "(\<exists>r n st'. OPENSSL_sk_find (\<lambda>_ x y. int x - int y) (Some ex_stack) 20 = Inr (r, Some st') \<and> sk_list st' ! nat r = 20 \<and>
      OPENSSL_sk_find_all (\<lambda>_ x y. int x - int y) (Some ex_stack) 20 = Inr (r, Some 1, Some st')) \<and>
   OPENSSL_sk_find (\<lambda>_ x y. int x - int y) (Some big_stack) 20 = Inl IntOverflow"
proof -
  have i: "sk_inv (\<lambda>_ x y. int x - int y) ex_stack" "sk_comp ex_stack \<noteq> 0" "sk_num ex_stack = 3"
    using ex_stack_ok by (simp_all add: sk_inv_def ex_stack_def)
  have b: "sk_inv (\<lambda>_ x y. int x - int y) big_stack" "sk_comp big_stack \<noteq> 0" "sk_num big_stack = 536870912"
    by (simp_all add: sk_inv_def sk_ok_def big_stack_def)
  have t: "total_cmp (\<lambda>x y. int x - int y)" by (auto simp: total_cmp_def)
  show ?thesis
    using OPENSSL_sk_find_correct [OF i(1,2) t, of 20] OPENSSL_sk_find_correct [OF b(1,2) t, of 20] i(3) b(3) ex_stack_ok(2) by auto
qed

text \<open>
  Pushed onto an empty stack and taken off again, elements come out of the front in the
  order they went in, and off the end in the opposite order.
\<close>

theorem sk_queue_and_stack:
  assumes "sk_ok st" "sk_list st = []" "list_container.push_all (sk_put al) st xs = Some st'"
  shows "list_container.shift_all sk_del st' (length xs) = xs \<and> list_container.pop_all sk_del st' (length xs) = rev xs"
  using sk.fifo [OF assms] sk.lifo [OF assms] by simp

theorem sk_queue_and_stack_witness:
  "\<exists>st'. list_container.push_all (sk_put (Some 0)) zero_stack [5, 6, 7, 8, 9] = Some st' \<and>
     list_container.shift_all sk_del st' 5 = [5, 6, 7, 8, 9]"
proof -
  have z: "sk_ok zero_stack" "sk_list zero_stack = []" by (simp_all add: sk_ok_def sk_list_def zero_stack_def)
  have p: "\<exists>s'. sk_put (Some 0) s x i = Some s'" if "sk_ok s" "length (sk_list s) < 10" for s x i
    using OPENSSL_sk_insert_result [OF that(1), of "Some 0" x i] that(2) sk_list_length [OF that(1)]
    by (auto simp: sk_put_def split: if_splits)
  have "\<exists>s'. sk.push_all (Some 0) s xs = Some s'" if "sk_ok s" "length (sk_list s) + length xs \<le> 10" for s xs
    using that
  proof (induction xs arbitrary: s)
    case (Cons x xs)
    then obtain s1 where s1: "sk_put (Some 0) s x (-1) = Some s1" using p [of s x "-1"] by auto
    then show ?case using Cons.IH [of s1] Cons.prems sk.put_law [OF Cons.prems(1) s1] by (auto simp: ins_at_def)
  qed simp
  from this [of zero_stack "[5, 6, 7, 8, 9]"] z
  obtain st' where r: "sk.push_all (Some 0) zero_stack [5, 6, 7, 8, 9] = Some st'" by auto
  have "length [5, 6, 7, 8, 9 :: ptr] = 5" by simp
  then have "sk.shift_all st' 5 = [5, 6, 7, 8, 9]" using sk_queue_and_stack [OF z r] by metis
  with r show ?thesis by blast
qed

text \<open>
  From any capacity the library uses, the growth loop ends; its result is 0 only for a
  target above 1342177280, and otherwise a capacity that reaches the target without passing the limit.
\<close>

theorem compute_growth_correct:
  assumes "4 \<le> c" "c \<le> max_nodes" "t \<le> max_nodes"
  shows "\<exists>r. compute_growth t c = Some r \<and> (r = 0 \<and> 1342177280 < t \<or> t \<le> r \<and> c \<le> r \<and> r \<le> max_nodes)"
  using assms by (rule compute_growth_result)

theorem compute_growth_correct_witness: "\<exists>r. compute_growth 100 4 = Some r \<and> 100 \<le> r"
  using compute_growth_correct [of 4 100] by auto

end
