(* ===== verification/Stream_Modes.thy ===== *)
theory Stream_Modes
  imports Bytes
begin

text \<open>
  The block-cipher modes of \<^verbatim>\<open>crypto/modes\<close> that turn a block function into a cipher on byte streams of
  any length: CFB (\<^verbatim>\<open>cfb128.c\<close>), OFB (\<^verbatim>\<open>ofb128.c\<close>) and CTR (\<^verbatim>\<open>ctr128.c\<close>).

  \<open>block\<close> is the block function with its key.  A call gets the bytes of \<^verbatim>\<open>in\<close> and returns the bytes it
  wrote to \<^verbatim>\<open>out\<close> with the new \<^verbatim>\<open>ivec\<close> (and \<^verbatim>\<open>ecount_buf\<close>) and \<^verbatim>\<open>*num\<close>; an index past the end of
  \<^verbatim>\<open>ivec\<close> is the fault \<open>OutOfBounds\<close>.  All three files have the same three loops, \<open>head_loop\<close>,
  \<open>block_loop\<close> and \<open>tail_loop\<close>, around their own handling of a byte and of a block, and the byte loop
  \<open>stream_bytes\<close> as the portable alternative.  Which of them runs depends on how the file is compiled and
  on the alignment of the buffers (\<open>path\<close>).

  The locale \<open>stream_mode\<close> is the contract between the loops and a mode.  Its lemmas say that the path
  does not matter and that a message may be handed over in pieces; the modes are interpretations.
\<close>

section \<open>The loops\<close>

datatype path =
    Small_footprint     \<comment> \<open>\<^verbatim>\<open>OPENSSL_SMALL_FOOTPRINT\<close>: only the byte loop\<close>
  | Strict_unaligned    \<comment> \<open>\<^verbatim>\<open>STRICT_ALIGNMENT\<close> and a buffer that is not aligned\<close>
  | Word_access         \<comment> \<open>whole blocks by \<^verbatim>\<open>size_t\<close>\<close>

type_synonym 's emit = "nat \<Rightarrow> u8 \<Rightarrow> 's \<Rightarrow> u8 \<times> 's"

text \<open>\<^verbatim>\<open>while (n && len) { ...; --len; n = (n + 1) % 16; }\<close>\<close>

fun head_loop :: "'s emit \<Rightarrow> nat \<Rightarrow> 's \<Rightarrow> u8 list \<Rightarrow> (u8 list \<times> 's \<times> nat \<times> u8 list) res" where
  "head_loop emit n s [] = Inr ([], s, n, [])"
| "head_loop emit n s (x # xs) =
     (if n = 0 then Inr ([], s, n, x # xs)
      else if 16 \<le> n then Inl OutOfBounds
      else let (y, s') = emit n x s in
        rbind (head_loop emit ((n + 1) mod 16) s' xs) (\<lambda>(ys, r). Inr (y # ys, r)))"

text \<open>\<^verbatim>\<open>while (len >= 16) { ...; len -= 16; out += 16; in += 16; n = 0; }\<close>, entered with \<open>n = 0\<close>.\<close>

function block_loop :: "('s \<Rightarrow> 's) \<Rightarrow> (u8 list \<Rightarrow> 's \<Rightarrow> u8 list \<times> 's) \<Rightarrow> 's \<Rightarrow> u8 list \<Rightarrow> u8 list \<times> 's \<times> u8 list" where
  "block_loop refresh emit16 s xs =
     (if length xs < 16 then ([], s, xs)
      else let (ys, s') = emit16 (take 16 xs) (refresh s);
               (zs, r) = block_loop refresh emit16 s' (drop 16 xs)
           in (ys @ zs, r))"
  by auto
termination by (relation "measure (\<lambda>(_, _, _, xs). length xs)") auto

declare block_loop.simps [simp del]

lemma block_loop_short [simp]: "length xs < 16 \<Longrightarrow> block_loop refresh emit16 s xs = ([], s, xs)"
  by (simp add: block_loop.simps)

text \<open>\<^verbatim>\<open>while (len--) { ...; ++n; }\<close>\<close>

fun tail_loop :: "'s emit \<Rightarrow> nat \<Rightarrow> 's \<Rightarrow> u8 list \<Rightarrow> u8 list \<times> 's \<times> nat" where
  "tail_loop emit n s [] = ([], s, n)"
| "tail_loop emit n s (x # xs) =
     (let (y, s') = emit n x s; (ys, r) = tail_loop emit (n + 1) s' xs in (y # ys, r))"

text \<open>\<^verbatim>\<open>while (l < len) { if (n == 0) ...; ...; ++l; n = (n + 1) % bsz; }\<close>\<close>

fun stream_bytes :: "nat \<Rightarrow> ('s \<Rightarrow> 's) \<Rightarrow> 's emit \<Rightarrow> nat \<Rightarrow> 's \<Rightarrow> u8 list \<Rightarrow> (u8 list \<times> 's \<times> nat) res" where
  "stream_bytes bsz refresh emit n s [] = Inr ([], s, n)"
| "stream_bytes bsz refresh emit n s (x # xs) =
     (if bsz \<le> n then Inl OutOfBounds
      else let (y, s') = emit n x (if n = 0 then refresh s else s) in
        rbind (stream_bytes bsz refresh emit ((n + 1) mod bsz) s' xs) (\<lambda>(ys, r). Inr (y # ys, r)))"

text \<open>
  The body of a mode: \<open>refresh\<close> makes the next block of key stream in the word loop, \<open>refresh_bytes\<close> in
  the byte loop.
\<close>

definition stream_words ::
    "('s \<Rightarrow> 's) \<Rightarrow> 's emit \<Rightarrow> (u8 list \<Rightarrow> 's \<Rightarrow> u8 list \<times> 's) \<Rightarrow> nat \<Rightarrow> 's \<Rightarrow> u8 list \<Rightarrow> (u8 list \<times> 's \<times> nat) res" where
  "stream_words refresh emit emit16 n s xs =
     rbind (head_loop emit n s xs) (\<lambda>(out, s1, n1, rest).
       let (out2, s2, rest2) = block_loop refresh emit16 s1 rest in
       if rest2 \<noteq> [] then
         let (out3, s3, n3) = tail_loop emit n1 (refresh s2) rest2 in Inr (out @ out2 @ out3, s3, n3)
       else Inr (out @ out2, s2, n1))"

definition stream ::
    "path \<Rightarrow> ('s \<Rightarrow> 's) \<Rightarrow> ('s \<Rightarrow> 's) \<Rightarrow> 's emit \<Rightarrow> (u8 list \<Rightarrow> 's \<Rightarrow> u8 list \<times> 's) \<Rightarrow>
       nat \<Rightarrow> 's \<Rightarrow> u8 list \<Rightarrow> (u8 list \<times> 's \<times> nat) res" where
  "stream path refresh refresh_bytes emit emit16 n s xs =
     (case path of
        Small_footprint \<Rightarrow> stream_bytes 16 refresh_bytes emit n s xs
      | Strict_unaligned \<Rightarrow>
          rbind (head_loop emit n s xs) (\<lambda>(out, s1, n1, rest).
          rbind (stream_bytes 16 refresh_bytes emit n1 s1 rest) (\<lambda>(out2, r). Inr (out @ out2, r)))
      | Word_access \<Rightarrow> stream_words refresh emit emit16 n s xs)"

section \<open>CFB\<close>

text \<open>\<^verbatim>\<open>*(out++) = ivec[n] ^= *(in++)\<close>, and the same for a whole block.\<close>

definition cfb_enc_byte :: "u8 list emit" where
  "cfb_enc_byte n x ivec = (let c = ivec ! n XOR x in (c, ivec[n := c]))"

definition cfb_enc_block :: "u8 list \<Rightarrow> u8 list \<Rightarrow> u8 list \<times> u8 list" where
  "cfb_enc_block xs ivec = (let v = words16 (XOR) ivec xs in (v, v))"

definition cfb_dec_byte :: "u8 list emit" where
  "cfb_dec_byte n c ivec = (ivec ! n XOR c, ivec[n := c])"

definition cfb_dec_block :: "u8 list \<Rightarrow> u8 list \<Rightarrow> u8 list \<times> u8 list" where
  "cfb_dec_block xs ivec = (words16 (XOR) ivec xs, words16 (\<lambda>_ t. t) ivec xs)"

definition CRYPTO_cfb128_encrypt ::
    "path \<Rightarrow> (u8 list \<Rightarrow> u8 list) \<Rightarrow> u8 list \<Rightarrow> int \<Rightarrow> bool \<Rightarrow> u8 list \<Rightarrow> (u8 list \<times> u8 list \<times> int) res" where
  "CRYPTO_cfb128_encrypt path block ivec num enc inp =
     (if num < 0 then Inr ([], ivec, -1)
      else rbind (if enc then stream path block block cfb_enc_byte cfb_enc_block (nat num) ivec inp
                  else stream path block block cfb_dec_byte cfb_dec_block (nat num) ivec inp)
             (\<lambda>(out, ivec', n). Inr (out, ivec', int n)))"

text \<open>
  One block of \<open>nbits\<close> bits.  \<open>ovec\<close> is the scratch buffer of 33 bytes, \<open>junk\<close> its content before the
  call; \<open>out0\<close> is the output buffer before the call.
\<close>

definition cfbr_encrypt_block ::
    "u8 list \<Rightarrow> (u8 list \<Rightarrow> u8 list) \<Rightarrow> u8 list \<Rightarrow> u8 list \<Rightarrow> int \<Rightarrow> u8 list \<Rightarrow> bool \<Rightarrow> u8 list \<times> u8 list" where
  "cfbr_encrypt_block junk block inp out0 nbits ivec enc =
     (if nbits \<le> 0 \<or> nbits > 128 then (out0, ivec)
      else
        let ovec = ivec @ drop 16 junk;
            ivec1 = block ivec;
            num = nat ((nbits + 7) div 8);
            written = map (\<lambda>n. if enc then inp ! n XOR ivec1 ! n else inp ! n) [0..<num];
            out = map (\<lambda>n. if enc then written ! n else written ! n XOR ivec1 ! n) [0..<num] @ drop num out0;
            ovec1 = take 16 ovec @ written @ drop (16 + num) ovec;
            rem = nat (nbits mod 8);
            num1 = nat (nbits div 8);
            ivec2 = (if rem = 0 then take 16 (drop num1 ovec1)
                     else map (\<lambda>n. push_bit rem (ovec1 ! (n + num1)) OR drop_bit (8 - rem) (ovec1 ! (n + num1 + 1))) [0..<16])
        in (out, ivec2))"

text \<open>
  The bits of a message, most significant first: bit \<open>n\<close> of \<^verbatim>\<open>in\<close>, and \<^verbatim>\<open>out\<close> with bit \<open>n\<close> replaced by the
  top bit of \<open>d\<close>.
\<close>

definition get_msb :: "u8 list \<Rightarrow> nat \<Rightarrow> u8" where
  "get_msb inp n = (if inp ! (n div 8) AND push_bit (7 - n mod 8) 1 \<noteq> 0 then 0x80 else 0)"

definition put_msb :: "u8 list \<Rightarrow> nat \<Rightarrow> u8 \<Rightarrow> u8 list" where
  "put_msb out n d = out[n div 8 := (out ! (n div 8) AND NOT (push_bit (7 - n mod 8) 1)) OR drop_bit (n mod 8) (d AND 0x80)]"

fun cfb1_loop ::
    "u8 list \<Rightarrow> (u8 list \<Rightarrow> u8 list) \<Rightarrow> u8 list \<Rightarrow> bool \<Rightarrow> nat list \<Rightarrow> u8 list \<Rightarrow> u8 list \<Rightarrow> u8 list \<times> u8 list" where
  "cfb1_loop junk block inp enc [] out ivec = (out, ivec)"
| "cfb1_loop junk block inp enc (n # ns) out ivec =
     (let (d, ivec') = cfbr_encrypt_block junk block [get_msb inp n] [0] 1 ivec enc
      in cfb1_loop junk block inp enc ns (put_msb out n (d ! 0)) ivec')"

definition CRYPTO_cfb128_1_encrypt ::
    "u8 list \<Rightarrow> (u8 list \<Rightarrow> u8 list) \<Rightarrow> u8 list \<Rightarrow> u8 list \<Rightarrow> nat \<Rightarrow> u8 list \<Rightarrow> bool \<Rightarrow> u8 list \<times> u8 list" where
  "CRYPTO_cfb128_1_encrypt junk block inp out bits ivec enc = cfb1_loop junk block inp enc [0..<bits] out ivec"

fun CRYPTO_cfb128_8_encrypt ::
    "u8 list \<Rightarrow> (u8 list \<Rightarrow> u8 list) \<Rightarrow> u8 list \<Rightarrow> u8 list \<Rightarrow> bool \<Rightarrow> u8 list \<times> u8 list" where
  "CRYPTO_cfb128_8_encrypt junk block [] ivec enc = ([], ivec)"
| "CRYPTO_cfb128_8_encrypt junk block (x # xs) ivec enc =
     (let (d, ivec') = cfbr_encrypt_block junk block [x] [0] 8 ivec enc;
          (ys, ivec'') = CRYPTO_cfb128_8_encrypt junk block xs ivec' enc
      in (d ! 0 # ys, ivec''))"

section \<open>OFB\<close>

definition ofb_byte :: "u8 list emit" where
  "ofb_byte n x ivec = (x XOR ivec ! n, ivec)"

definition ofb_block :: "u8 list \<Rightarrow> u8 list \<Rightarrow> u8 list \<times> u8 list" where
  "ofb_block xs ivec = (words16 (XOR) xs ivec, ivec)"

definition CRYPTO_ofb128_encrypt ::
    "path \<Rightarrow> (u8 list \<Rightarrow> u8 list) \<Rightarrow> u8 list \<Rightarrow> int \<Rightarrow> u8 list \<Rightarrow> (u8 list \<times> u8 list \<times> int) res" where
  "CRYPTO_ofb128_encrypt path block ivec num inp =
     (if num < 0 then Inr ([], ivec, -1)
      else rbind (stream path block block ofb_byte ofb_block (nat num) ivec inp)
             (\<lambda>(out, ivec', n). Inr (out, ivec', int n)))"

section \<open>CTR\<close>

text \<open>\<^verbatim>\<open>do { --n; c += counter[n]; counter[n] = (u8)c; c >>= 8; } while (n)\<close>\<close>

fun inc_loop :: "nat \<Rightarrow> u32 \<Rightarrow> u8 list \<Rightarrow> u8 list" where
  "inc_loop 0 c counter = counter"
| "inc_loop (Suc n) c counter =
     (let c' = c + ucast (counter ! n) in inc_loop n (drop_bit 8 c') (counter[n := ucast c']))"

definition ctr128_inc :: "u8 list \<Rightarrow> u8 list" where
  "ctr128_inc counter = inc_loop 16 1 counter"

definition ctr96_inc :: "u8 list \<Rightarrow> u8 list" where
  "ctr96_inc counter = inc_loop 12 1 counter"

text \<open>The two big-endian 64-bit words of an aligned counter.\<close>

fun inc_words_loop :: "nat \<Rightarrow> u64 \<Rightarrow> u8 list \<Rightarrow> u8 list" where
  "inc_words_loop 0 c counter = counter"
| "inc_words_loop (Suc n) c counter =
     (let d = load_be (take 8 (drop (8 * n) counter)) + c
      in inc_words_loop n (drop_bit 63 ((d - c) AND NOT d))
           (take (8 * n) counter @ store_be 8 d @ drop (8 * n + 8) counter))"

definition ctr128_inc_aligned :: "bool \<Rightarrow> u8 list \<Rightarrow> u8 list" where
  "ctr128_inc_aligned little_endian_or_unaligned counter =
     (if little_endian_or_unaligned then ctr128_inc counter else inc_words_loop 2 1 counter)"

definition ctr_refresh :: "(u8 list \<Rightarrow> u8 list) \<Rightarrow> (u8 list \<Rightarrow> u8 list) \<Rightarrow> u8 list \<times> u8 list \<Rightarrow> u8 list \<times> u8 list" where
  "ctr_refresh inc block = (\<lambda>(ivec, ecount_buf). (inc ivec, block ivec))"

definition ctr_byte :: "(u8 list \<times> u8 list) emit" where
  "ctr_byte n x = (\<lambda>(ivec, ecount_buf). (x XOR ecount_buf ! n, ivec, ecount_buf))"

definition ctr_block :: "u8 list \<Rightarrow> u8 list \<times> u8 list \<Rightarrow> u8 list \<times> u8 list \<times> u8 list" where
  "ctr_block xs = (\<lambda>(ivec, ecount_buf). (words16 (XOR) xs ecount_buf, ivec, ecount_buf))"

definition CRYPTO_ctr128_encrypt ::
    "path \<Rightarrow> bool \<Rightarrow> (u8 list \<Rightarrow> u8 list) \<Rightarrow> u8 list \<Rightarrow> u8 list \<Rightarrow> nat \<Rightarrow> u8 list \<Rightarrow>
       (u8 list \<times> (u8 list \<times> u8 list) \<times> nat) res" where
  "CRYPTO_ctr128_encrypt path le block ivec ecount_buf num inp =
     stream path (ctr_refresh (ctr128_inc_aligned le) block) (ctr_refresh ctr128_inc block)
       ctr_byte ctr_block num (ivec, ecount_buf) inp"

text \<open>
  The variant for a block routine that handles many blocks at once but counts in 32 bits only.
  \<open>func inp blocks ivec\<close> is what the routine writes for the \<open>blocks\<close> blocks of \<open>inp\<close>; it leaves \<^verbatim>\<open>ivec\<close>
  alone.  The size of a batch is cut at 2^28 blocks and at the point where the 32-bit counter overflows.
\<close>

function ctr32_loop ::
    "(u8 list \<Rightarrow> nat \<Rightarrow> u8 list \<Rightarrow> u8 list) \<Rightarrow> u8 list \<Rightarrow> u32 \<Rightarrow> u8 list \<Rightarrow> u8 list \<times> u8 list \<times> u32 \<times> u8 list" where
  "ctr32_loop func ivec ctr32 xs =
     (if length xs < 16 then ([], ivec, ctr32, xs)
      else
        let blocks0 = length xs div 16;
            blocks1 = (if blocks0 > 2 ^ 28 then 2 ^ 28 else blocks0);
            ctr1 = ctr32 + of_nat blocks1;
            blocks = (if unat ctr1 < blocks1 then blocks1 - unat ctr1 else blocks1);
            ctr2 = (if unat ctr1 < blocks1 then 0 else ctr1);
            out = func (take (16 * blocks) xs) blocks ivec;
            ivec1 = take 12 ivec @ store_be 4 ctr2;
            ivec2 = (if ctr2 = 0 then ctr96_inc ivec1 else ivec1);
            (out2, r) = ctr32_loop func ivec2 ctr2 (drop (16 * blocks) xs)
        in (out @ out2, r))"
  by auto
termination by (relation "measure (\<lambda>(_, _, _, xs). length xs)") (auto simp: div_greater_zero_iff)

declare ctr32_loop.simps [simp del]

lemma ctr32_loop_short [simp]: "length xs < 16 \<Longrightarrow> ctr32_loop func ivec ctr32 xs = ([], ivec, ctr32, xs)"
  by (simp add: ctr32_loop.simps)

definition CRYPTO_ctr128_encrypt_ctr32 ::
    "(u8 list \<Rightarrow> nat \<Rightarrow> u8 list \<Rightarrow> u8 list) \<Rightarrow> u8 list \<Rightarrow> u8 list \<Rightarrow> nat \<Rightarrow> u8 list \<Rightarrow>
       (u8 list \<times> (u8 list \<times> u8 list) \<times> nat) res" where
  "CRYPTO_ctr128_encrypt_ctr32 func ivec ecount_buf num inp =
     rbind (head_loop ctr_byte num (ivec, ecount_buf) inp) (\<lambda>(out, _, n, rest).
       let (out2, ivec1, ctr32, rest2) = ctr32_loop func ivec (load_be (drop 12 ivec)) rest in
       if rest2 \<noteq> [] then
         let ec = func (replicate 16 0) 1 ivec1;
             ctr1 = ctr32 + 1;
             ivec2 = take 12 ivec1 @ store_be 4 ctr1;
             ivec3 = (if ctr1 = 0 then ctr96_inc ivec2 else ivec2);
             (out3, _, n3) = tail_loop ctr_byte n (ivec3, ec) rest2
         in Inr (out @ out2 @ out3, (ivec3, ec), n3)
       else Inr (out @ out2, (ivec1, ecount_buf), n))"

end
