(* ===== verification/Stream_Props.thy ===== *)
theory Stream_Props
  imports Stream_Modes
begin

text \<open>
  The laws of the stream modes.  Inside \<open>stream_mode\<close>: the loops over words and the loop over bytes agree
  (\<open>path_independent\<close>), and one call on a message is two calls on its parts (\<open>split\<close>).
\<close>

section \<open>The byte loop\<close>

lemma stream_bytes_append:
  "stream_bytes bsz refresh emit n s (a @ b) =
     rbind (stream_bytes bsz refresh emit n s a) (\<lambda>(out, s', n').
     rbind (stream_bytes bsz refresh emit n' s' b) (\<lambda>(out2, r). Inr (out @ out2, r)))"
proof (induction a arbitrary: n s)
  case Nil
  show ?case by (cases "stream_bytes bsz refresh emit n s b") auto
next
  case (Cons x xs)
  obtain y s' where e: "emit n x (if n = 0 then refresh s else s) = (y, s')" by fastforce
  show ?case
    using Cons.IH [of "(n + 1) mod bsz" s'] e
    by (cases "stream_bytes bsz refresh emit ((n + 1) mod bsz) s' xs")
       (auto split: sum.splits simp: rbind_def)
qed

lemma stream_bytes_length:
  "stream_bytes bsz refresh emit n s xs = Inr (out, s', n') \<Longrightarrow> length out = length xs"
  by (induction xs arbitrary: n s out) (auto simp: rbind_Inr_iff Let_def split: prod.splits if_splits)

lemma stream_bytes_index:
  "stream_bytes bsz refresh emit n s xs = Inr (out, s', n') \<Longrightarrow> n < bsz \<Longrightarrow> n' = (n + length xs) mod bsz"
proof (induction xs arbitrary: n s out)
  case (Cons x xs)
  obtain y t where "emit n x (if n = 0 then refresh s else s) = (y, t)" by fastforce
  with Cons.prems Cons.IH [of "(n + 1) mod bsz" t] show ?case
    by (auto simp: rbind_Inr_iff Let_def mod_simps split: prod.splits if_splits)
qed simp

lemma stream_bytes_total:
  "n < bsz \<Longrightarrow> \<exists>r. stream_bytes bsz refresh emit n s xs = Inr r"
proof (induction xs arbitrary: n s)
  case (Cons x xs)
  obtain y t where e: "emit n x (if n = 0 then refresh s else s) = (y, t)" by fastforce
  from Cons.prems obtain r where "stream_bytes bsz refresh emit ((n + 1) mod bsz) t xs = Inr r"
    using Cons.IH [of "(n + 1) mod bsz" t] by auto
  with e Cons.prems show ?case by (cases r) simp
qed simp

lemma stream_bytes_roundtrip:
  assumes "\<And>n x s. n < bsz \<Longrightarrow> dec n (fst (emit n x s)) s = (x, snd (emit n x s))"
    and "stream_bytes bsz refresh emit n s xs = Inr (out, s', n')"
  shows "stream_bytes bsz refresh dec n s out = Inr (xs, s', n')"
  using assms(2)
proof (induction xs arbitrary: n s out)
  case (Cons x xs)
  obtain y t where e: "emit n x (if n = 0 then refresh s else s) = (y, t)" by fastforce
  with Cons.prems obtain ys where n: "n < bsz" and o: "out = y # ys"
    and r: "stream_bytes bsz refresh emit ((n + 1) mod bsz) t xs = Inr (ys, s', n')"
    by (auto simp: rbind_Inr_iff split: if_splits)
  have "dec n y (if n = 0 then refresh s else s) = (x, t)"
    using assms(1) [OF n, of x "if n = 0 then refresh s else s"] e by simp
  with n o Cons.IH [OF r] show ?case by simp
qed simp

text \<open>Before the index wraps, the byte loop is the tail loop.\<close>

lemma stream_bytes_tail:
  assumes "0 < n" "n + length xs \<le> bsz"
  shows "stream_bytes bsz refresh emit n s xs =
           (let (out, s', n') = tail_loop emit n s xs in Inr (out, s', if xs = [] then n else n' mod bsz))"
  using assms
proof (induction xs arbitrary: n s)
  case (Cons x xs)
  obtain y s' where e: "emit n x s = (y, s')" by fastforce
  show ?case
  proof (cases xs)
    case Nil
    with e Cons.prems show ?thesis by simp
  next
    case (Cons x' xs')
    with Cons.prems have "(n + 1) mod bsz = n + 1" by simp
    with Cons.IH [of "n + 1" s'] Cons.prems e Cons show ?thesis
      by (simp add: Let_def split: prod.splits)
  qed
qed simp

lemma tail_loop_index: "snd (snd (tail_loop emit n s xs)) = n + length xs"
proof (induction xs arbitrary: n s)
  case (Cons x xs)
  obtain y t where e: "emit n x s = (y, t)" by fastforce
  from Cons.IH [of "n + 1" t] e show ?case by (auto split: prod.splits)
qed simp

lemma stream_bytes_block:
  assumes "length xs \<le> bsz" "xs \<noteq> []"
  shows "stream_bytes bsz refresh emit 0 s xs =
           (let (out, s', n') = tail_loop emit 0 (refresh s) xs in Inr (out, s', n' mod bsz))"
proof -
  obtain x xs' where xs: "xs = x # xs'" using assms by (cases xs) auto
  obtain y s' where e: "emit 0 x (refresh s) = (y, s')" by fastforce
  show ?thesis
  proof (cases xs')
    case Nil
    with xs e assms show ?thesis by simp
  next
    case (Cons x' xs'')
    with xs assms have "1 mod bsz = 1" "0 < bsz" by auto
    then show ?thesis
      using stream_bytes_tail [of 1 xs' bsz refresh emit s'] xs e assms Cons
      by (simp add: Let_def split: prod.splits)
  qed
qed

section \<open>The contract of a mode\<close>

locale stream_mode =
  fixes refresh refresh_bytes :: "'s \<Rightarrow> 's"
    and emit :: "'s emit"
    and emit16 :: "u8 list \<Rightarrow> 's \<Rightarrow> u8 list \<times> 's"
    and ok :: "'s \<Rightarrow> bool"
  assumes refresh_ok: "ok s \<Longrightarrow> ok (refresh s)"
    and refresh_same: "ok s \<Longrightarrow> refresh_bytes s = refresh s"
    and emit_ok: "ok s \<Longrightarrow> n < 16 \<Longrightarrow> ok (snd (emit n x s))"
    and emit16_tail: "ok s \<Longrightarrow> length xs = 16 \<Longrightarrow>
      (let (out, s', n') = tail_loop emit 0 s xs in emit16 xs s = (out, s'))"
begin

lemma tail_loop_ok: "ok s \<Longrightarrow> n + length xs \<le> 16 \<Longrightarrow> tail_loop emit n s xs = (out, s', n') \<Longrightarrow> ok s'"
proof (induction xs arbitrary: n s out)
  case (Cons x xs)
  obtain y t where e: "emit n x s = (y, t)" by fastforce
  obtain ys r where t: "tail_loop emit (n + 1) t xs = (ys, r)" by (metis surj_pair)
  have "ok t" using emit_ok [of s n x] Cons.prems e by simp
  then show ?case using Cons.IH [of t "n + 1" ys] Cons.prems e t by auto
qed simp

lemma head_then_bytes:
  assumes "ok s"
  shows "rbind (head_loop emit n s xs) (\<lambda>(out, s1, n1, rest).
           rbind (stream_bytes 16 refresh_bytes emit n1 s1 rest) (\<lambda>(out2, r). Inr (out @ out2, r)))
         = stream_bytes 16 refresh_bytes emit n s xs"
  using assms
proof (induction xs arbitrary: n s)
  case (Cons x xs)
  obtain y t where e: "emit n x s = (y, t)" by fastforce
  show ?case
  proof (cases "n = 0")
    case True
    then show ?thesis by (cases "stream_bytes 16 refresh_bytes emit n s (x # xs)") auto
  next
    case False
    show ?thesis
    proof (cases "n < 16")
      case True
      then have "ok t" using emit_ok [of s n x] Cons.prems e by simp
      with Cons.IH [of t "(n + 1) mod 16"] False True e show ?thesis
        by (cases "head_loop emit ((n + 1) mod 16) t xs")
           (auto split: sum.splits prod.splits simp: rbind_def)
    qed (use False in simp)
  qed
qed simp

lemma head_loop_rest:
  assumes "ok s" "head_loop emit n s xs = Inr (out, s', n', rest)"
  shows "ok s' \<and> (rest \<noteq> [] \<longrightarrow> n' = 0)"
  using assms
proof (induction xs arbitrary: n s out)
  case (Cons x xs)
  obtain y t where e: "emit n x s = (y, t)" by fastforce
  from Cons e emit_ok [of s n x] show ?case
    by (auto simp: rbind_Inr_iff split: if_splits)
qed simp

lemma block_loop_bytes:
  assumes "ok s" "block_loop refresh emit16 s xs = (out, s', rest)"
  shows "ok s' \<and> length rest < 16 \<and>
         stream_bytes 16 refresh_bytes emit 0 s xs =
           rbind (stream_bytes 16 refresh_bytes emit 0 s' rest) (\<lambda>(out2, r). Inr (out @ out2, r))"
  using assms
proof (induction xs arbitrary: s out rule: length_induct)
  case (1 xs)
  show ?case
  proof (cases "length xs < 16")
    case True
    with 1 show ?thesis
      by (cases "stream_bytes 16 refresh_bytes emit 0 s xs") (auto simp: block_loop.simps [of refresh emit16 s xs])
  next
    case False
    let ?a = "take 16 xs" and ?b = "drop 16 xs"
    have a: "length ?a = 16" "?a \<noteq> []" and b: "length ?b < length xs" using False by auto
    obtain oa t na where t: "tail_loop emit 0 (refresh s) ?a = (oa, t, na)" by (metis surj_pair)
    obtain ob r where l: "block_loop refresh emit16 t ?b = (ob, r)" by (metis surj_pair)
    have "emit16 ?a (refresh s) = (oa, t)"
      using emit16_tail [OF refresh_ok a(1), of s] t 1(2) by simp
    with False l 1(3) have o: "out = oa @ ob" "r = (s', rest)"
      by (auto simp: block_loop.simps [of refresh emit16 s xs])
    have "ok t" using tail_loop_ok [OF refresh_ok _ t] a 1(2) by simp
    moreover have "na mod 16 = 0" using tail_loop_index [of emit 0 "refresh s" ?a] t a by simp
    ultimately have IH: "ok s' \<and> length rest < 16 \<and>
         stream_bytes 16 refresh_bytes emit 0 t ?b =
           rbind (stream_bytes 16 refresh_bytes emit 0 s' rest) (\<lambda>(out2, r). Inr (ob @ out2, r))"
      using 1(1) b l o by blast
    have "stream_bytes 16 refresh_bytes emit 0 s ?a = Inr (oa, t, 0)"
      using stream_bytes_block [of ?a 16 refresh_bytes emit s] a t \<open>na mod 16 = 0\<close> refresh_same [OF 1(2)] by simp
    then have "stream_bytes 16 refresh_bytes emit 0 s (?a @ ?b) =
        rbind (stream_bytes 16 refresh_bytes emit 0 t ?b) (\<lambda>(out2, r). Inr (oa @ out2, r))"
      by (simp only: stream_bytes_append rbind_simps split)
    with IH o show ?thesis
      by (cases "stream_bytes 16 refresh_bytes emit 0 s' rest") auto
  qed
qed

lemma words_bytes:
  assumes "ok s"
  shows "stream_words refresh emit emit16 n s xs = stream_bytes 16 refresh_bytes emit n s xs"
proof (cases "head_loop emit n s xs")
  case (Inl e)
  then show ?thesis using head_then_bytes [OF assms, of n xs] by (simp add: stream_words_def)
next
  case (Inr q)
  then obtain out s1 n1 rest where h: "head_loop emit n s xs = Inr (out, s1, n1, rest)" by (metis surj_pair)
  note ok1 = head_loop_rest [OF assms h]
  obtain out2 s2 rest2 where b: "block_loop refresh emit16 s1 rest = (out2, s2, rest2)" by (metis surj_pair)
  have l: "stream_bytes 16 refresh_bytes emit n s xs =
      rbind (stream_bytes 16 refresh_bytes emit n1 s1 rest) (\<lambda>(o2, r). Inr (out @ o2, r))"
    using head_then_bytes [OF assms, of n xs] h by simp
  show ?thesis
  proof (cases "rest = []")
    case True
    with h b l show ?thesis by (simp add: stream_words_def)
  next
    case False
    with ok1 have n1: "n1 = 0" "ok s1" by auto
    note bb = block_loop_bytes [OF n1(2) b]
    show ?thesis
    proof (cases "rest2 = []")
      case True
      with h b l bb n1 show ?thesis by (simp add: stream_words_def)
    next
      case False
      obtain out3 s3 n3 where t: "tail_loop emit 0 (refresh s2) rest2 = (out3, s3, n3)" by (metis surj_pair)
      then have "n3 < 16" using tail_loop_index [of emit 0 "refresh s2" rest2] bb by simp
      with t bb False have "stream_bytes 16 refresh_bytes emit 0 s2 rest2 = Inr (out3, s3, n3)"
        using stream_bytes_block [of rest2 16 refresh_bytes emit s2] refresh_same [of s2] by simp
      with h b l bb n1 t False show ?thesis by (simp add: stream_words_def)
    qed
  qed
qed

lemma path_independent:
  assumes "ok s"
  shows "stream path refresh refresh_bytes emit emit16 n s xs = stream_bytes 16 refresh_bytes emit n s xs"
  using words_bytes [OF assms] head_then_bytes [OF assms]
  by (cases path) (simp_all add: stream_def)

lemma bytes_ok:
  assumes "ok s" "stream_bytes 16 refresh_bytes emit n s xs = Inr (out, s', n')"
  shows "ok s'"
  using assms
proof (induction xs arbitrary: n s out)
  case (Cons x xs)
  obtain y t where e: "emit n x (if n = 0 then refresh_bytes s else s) = (y, t)" by fastforce
  have "ok (if n = 0 then refresh_bytes s else s)"
    using Cons.prems refresh_ok refresh_same by simp
  then have "n < 16 \<Longrightarrow> ok t" using emit_ok e by (metis snd_conv)
  with Cons e show ?case by (auto simp: rbind_Inr_iff split: if_splits)
qed simp

lemma split:
  assumes "ok s"
  shows "stream path refresh refresh_bytes emit emit16 n s (a @ b) =
     rbind (stream path refresh refresh_bytes emit emit16 n s a) (\<lambda>(out, s', n').
     rbind (stream path' refresh refresh_bytes emit emit16 n' s' b) (\<lambda>(out2, r). Inr (out @ out2, r)))"
proof (cases "stream_bytes 16 refresh_bytes emit n s a")
  case (Inl e)
  with assms show ?thesis by (simp add: path_independent stream_bytes_append)
next
  case (Inr q)
  then obtain out s' n' where q: "stream_bytes 16 refresh_bytes emit n s a = Inr (out, s', n')" by (metis surj_pair)
  from bytes_ok [OF assms q] q assms show ?thesis by (simp add: path_independent stream_bytes_append)
qed

end

section \<open>The counter\<close>

lemma length_inc_loop [simp]: "length (inc_loop n c counter) = length counter"
  by (induction n arbitrary: c counter) (simp_all add: Let_def)

lemma inc_loop_correct:
  assumes "n \<le> length counter" "unat c < 256"
  shows "be_nat (take n (inc_loop n c counter)) = (be_nat (take n counter) + unat c) mod 256 ^ n
    \<and> drop n (inc_loop n c counter) = drop n counter"
  using assms
proof (induction n arbitrary: c counter)
  case (Suc n)
  let ?x = "unat c + unat (counter ! n)" and ?c' = "c + ucast (counter ! n)"
  let ?t = "counter[n := ucast ?c']"
  let ?r = "inc_loop n (drop_bit 8 ?c') ?t"
  have b: "unat (counter ! n) < 256" by (rule unat_u8_lt)
  then have x: "?x < 512" using Suc.prems(2) by linarith
  have "unat (ucast (counter ! n) :: u32) = unat (counter ! n)"
    using take_bit_nat_eq_self [OF order_less_le_trans [OF b, of "2 ^ 32"]] by (simp add: unsigned_ucast_eq)
  then have "unat ?c' = ?x mod 2 ^ 32" by (simp add: unat_word_ariths)
  with x have x: "unat ?c' = ?x" "?x < 512" by simp_all
  then have "unat (drop_bit 8 ?c') = ?x div 256" by (simp only: unsigned_drop_bit_eq) (simp add: drop_bit_eq_div take_bit_nat_eq_self)
  then have IH: "be_nat (take n ?r) = (be_nat (take n ?t) + ?x div 256) mod 256 ^ n" "drop n ?r = drop n ?t"
    using Suc.IH [of ?t "drop_bit 8 ?c'"] Suc.prems x by auto
  have n: "n < length counter" using Suc.prems by simp
  have "?r ! n = drop n ?r ! 0" using n by simp
  also have "\<dots> = ucast ?c'" using n by (simp add: IH(2))
  finally have "unat (?r ! n) = ?x mod 256" using x by (simp add: unsigned_ucast_eq take_bit_eq_mod)
  then have "be_nat (take (Suc n) ?r) = 256 * ((be_nat (take n counter) + ?x div 256) mod 256 ^ n) + ?x mod 256"
    using IH(1) n by (simp add: take_Suc_conv_app_nth be_nat_snoc)
  also have "\<dots> = (256 * be_nat (take n counter) + ?x) mod (256 * 256 ^ n)"
    by (simp add: mod_mult2_eq)
  also have "256 * be_nat (take n counter) + ?x = be_nat (take (Suc n) counter) + unat c"
    using n by (simp add: take_Suc_conv_app_nth be_nat_snoc)
  finally have v: "be_nat (take (Suc n) ?r) = (be_nat (take (Suc n) counter) + unat c) mod 256 ^ Suc n" by simp
  have "drop (Suc n) ?r = tl (drop n ?r)" by (simp add: drop_Suc tl_drop)
  also have "\<dots> = drop (Suc n) counter" using n by (simp add: IH(2) tl_drop drop_Suc [symmetric])
  finally show ?case using v by (simp add: Let_def)
qed simp

lemma length_ctr128_inc [simp]: "length (ctr128_inc counter) = length counter"
  by (simp add: ctr128_inc_def)

lemma be_nat_ctr128_inc:
  "length counter = 16 \<Longrightarrow> be_nat (ctr128_inc counter) = (be_nat counter + 1) mod 2 ^ 128"
  using inc_loop_correct [of 16 counter 1] by (simp add: ctr128_inc_def)

lemma length_ctr96_inc [simp]: "length (ctr96_inc counter) = length counter"
  by (simp add: ctr96_inc_def)

lemma be_nat_ctr96_inc:
  assumes "length counter = 16"
  shows "be_nat (take 12 (ctr96_inc counter)) = (be_nat (take 12 counter) + 1) mod 2 ^ 96"
    and "drop 12 (ctr96_inc counter) = drop 12 counter"
  using inc_loop_correct [of 12 counter 1] assms by (simp_all add: ctr96_inc_def)

text \<open>The carry out of an addition of 0 or 1, read off the top bits.\<close>

lemma unat_u64_lt [simp]: "unat (w :: u64) < 2 ^ 64"
  using unsigned_less [of w] by simp

lemma top_bit_u64: "bit (w :: u64) 63 \<longleftrightarrow> 2 ^ 63 \<le> unat w"
proof -
  have "bit w 63 \<longleftrightarrow> odd (unat w div 2 ^ 63)" using bit_unsigned_iff [where 'a = nat, of w 63] by (simp add: bit_iff_odd [of "unat w"])
  moreover have "unat w div 2 ^ 63 = (if 2 ^ 63 \<le> unat w then 1 else 0)"
    using unat_u64_lt [of w] by (auto simp: div_nat_eqI)
  ultimately show ?thesis by simp
qed

lemma carry_u64:
  assumes "unat c \<le> 1"
  shows "unat (drop_bit 63 (w AND NOT (w + c)) :: u64) = (unat w + unat c) div 2 ^ 64"
    and "unat (w + c) = (unat w + unat c) mod 2 ^ 64"
proof -
  show s: "unat (w + c) = (unat w + unat c) mod 2 ^ 64" by (simp add: unat_word_ariths)
  have "unat (drop_bit 63 (w AND NOT v)) = (if bit w 63 \<and> \<not> bit v 63 then 1 else 0)" for v
  proof -
    have "drop_bit 63 (w AND NOT v) = (if bit w 63 \<and> \<not> bit v 63 then 1 else 0)"
    proof (rule bit_word_eqI)
      fix n assume "n < LENGTH(64)"
      then show "bit (drop_bit 63 (w AND NOT v)) n \<longleftrightarrow> bit (if bit w 63 \<and> \<not> bit v 63 then 1 else 0 :: u64) n"
        by (cases "n = 0") (auto simp: bit_simps dest: bit_imp_le_length)
    qed
    then show ?thesis by simp
  qed
  moreover have "unat (w + c) = (if unat w + unat c < 2 ^ 64 then unat w + unat c else 0)"
    using s assms unat_u64_lt [of w] by (simp add: mod_once)
  ultimately show "unat (drop_bit 63 (w AND NOT (w + c)) :: u64) = (unat w + unat c) div 2 ^ 64"
    using assms unat_u64_lt [of w] by (auto simp: top_bit_u64)
qed

lemma inc_words_loop_correct:
  assumes "8 * n \<le> length counter" "unat c \<le> 1"
  shows "length (inc_words_loop n c counter) = length counter
    \<and> be_nat (take (8 * n) (inc_words_loop n c counter)) = (be_nat (take (8 * n) counter) + unat c) mod (2 ^ 64) ^ n
    \<and> drop (8 * n) (inc_words_loop n c counter) = drop (8 * n) counter"
  using assms
proof (induction n arbitrary: c counter)
  case (Suc n)
  let ?w = "load_be (take 8 (drop (8 * n) counter)) :: u64"
  let ?t = "take (8 * n) counter @ store_be 8 (?w + c) @ drop (8 * n + 8) counter"
  let ?c' = "drop_bit 63 (?w AND NOT (?w + c))"
  let ?r = "inc_words_loop n ?c' ?t"
  have e: "8 * Suc n = 8 * n + 8" by simp
  note carry = carry_u64 [OF Suc.prems(2), of ?w]
  have "(unat ?w + unat c) div 2 ^ 64 \<le> 1"
    using less_mult_imp_div_less [of "unat ?w + unat c" 2 "2 ^ 64"] Suc.prems(2) unat_u64_lt [of ?w] by simp
  then have IH: "length ?r = length counter" "drop (8 * n) ?r = drop (8 * n) ?t"
      "be_nat (take (8 * n) ?r) = (be_nat (take (8 * n) counter) + unat ?c') mod (2 ^ 64) ^ n"
    using Suc.IH [of ?t ?c'] Suc.prems carry by auto
  have w: "unat ?w = be_nat (take 8 (drop (8 * n) counter))"
    using Suc.prems by (subst unat_load_be) auto
  have "take (8 * Suc n) ?r = take (8 * n) ?r @ take 8 (drop (8 * n) ?r)"
    by (simp only: e take_add)
  also have "take 8 (drop (8 * n) ?r) = store_be 8 (?w + c)"
    using Suc.prems unfolding IH(2) by simp
  finally have "be_nat (take (8 * Suc n) ?r) =
      ((be_nat (take (8 * n) counter) + (unat ?w + unat c) div 2 ^ 64) mod (2 ^ 64) ^ n) * 2 ^ 64 + (unat ?w + unat c) mod 2 ^ 64"
    using IH(3) carry by (simp add: be_nat_append be_nat_store_be)
  also have "\<dots> = (2 ^ 64 * be_nat (take (8 * n) counter) + (unat ?w + unat c)) mod (2 ^ 64 * (2 ^ 64) ^ n)"
    by (simp add: mod_mult2_eq)
  also have "2 ^ 64 * be_nat (take (8 * n) counter) + (unat ?w + unat c) = be_nat (take (8 * Suc n) counter) + unat c"
  proof -
    have "take (8 * Suc n) counter = take (8 * n) counter @ take 8 (drop (8 * n) counter)"
      by (simp only: e take_add)
    then show ?thesis using Suc.prems w by (simp add: be_nat_append)
  qed
  finally have v: "be_nat (take (8 * Suc n) ?r) = (be_nat (take (8 * Suc n) counter) + unat c) mod (2 ^ 64) ^ Suc n"
    by simp
  have "drop (8 * Suc n) ?r = drop 8 (drop (8 * n) ?r)" by (simp add: add.commute)
  also have "\<dots> = drop (8 * Suc n) counter" using Suc.prems unfolding IH(2) by (simp add: add.commute)
  finally show ?case using v IH(1) by (simp add: Let_def)
qed simp

lemma ctr128_inc_aligned_eq:
  assumes "length counter = 16"
  shows "ctr128_inc_aligned le counter = ctr128_inc counter"
proof (cases le)
  case False
  have "be_nat (inc_words_loop 2 1 counter) = be_nat (ctr128_inc counter)"
    using inc_words_loop_correct [of 2 counter 1] assms be_nat_ctr128_inc [OF assms] by auto
  moreover have "length (inc_words_loop 2 1 counter) = length (ctr128_inc counter)"
    using inc_words_loop_correct [of 2 counter 1] assms by simp
  ultimately show ?thesis using False be_nat_inject by (auto simp: ctr128_inc_aligned_def)
qed (simp add: ctr128_inc_aligned_def)

section \<open>The modes keep the contract\<close>

text \<open>What a run of the byte step over part of a block does.\<close>

lemma tail_cfb_enc:
  "n + length xs \<le> length ivec \<Longrightarrow> tail_loop cfb_enc_byte n ivec xs =
     (xorl (take (length xs) (drop n ivec)) xs,
      take n ivec @ xorl (take (length xs) (drop n ivec)) xs @ drop (n + length xs) ivec, n + length xs)"
proof (induction xs arbitrary: n ivec)
  case (Cons x xs)
  then have "n < length ivec" by simp
  with Cons show ?case
    by (simp add: cfb_enc_byte_def Let_def Cons_nth_drop_Suc [symmetric] take_Suc_conv_app_nth)
qed simp

lemma tail_cfb_dec:
  "n + length xs \<le> length ivec \<Longrightarrow> tail_loop cfb_dec_byte n ivec xs =
     (xorl (take (length xs) (drop n ivec)) xs, take n ivec @ xs @ drop (n + length xs) ivec, n + length xs)"
proof (induction xs arbitrary: n ivec)
  case (Cons x xs)
  then have "n < length ivec" by simp
  with Cons show ?case
    by (simp add: cfb_dec_byte_def Let_def Cons_nth_drop_Suc [symmetric] take_Suc_conv_app_nth)
qed simp

lemma tail_ofb:
  "n + length xs \<le> length ivec \<Longrightarrow> tail_loop ofb_byte n ivec xs =
     (xorl xs (take (length xs) (drop n ivec)), ivec, n + length xs)"
proof (induction xs arbitrary: n ivec)
  case (Cons x xs)
  then have "n < length ivec" by simp
  with Cons show ?case
    by (simp add: ofb_byte_def Cons_nth_drop_Suc [symmetric])
qed simp

lemma tail_ctr:
  "n + length xs \<le> length ec \<Longrightarrow> tail_loop ctr_byte n (ivec, ec) xs =
     (xorl xs (take (length xs) (drop n ec)), (ivec, ec), n + length xs)"
proof (induction xs arbitrary: n ec)
  case (Cons x xs)
  then have "n < length ec" by simp
  with Cons show ?case
    by (simp add: ctr_byte_def Cons_nth_drop_Suc [symmetric])
qed simp

locale block128 =
  fixes block :: "u8 list \<Rightarrow> u8 list"
  assumes length_block: "length b = 16 \<Longrightarrow> length (block b) = 16"

sublocale block128 \<subseteq> cfb_enc: stream_mode block block cfb_enc_byte cfb_enc_block "\<lambda>ivec. length ivec = 16"
  by unfold_locales
     (simp_all add: length_block tail_cfb_enc cfb_enc_block_def cfb_enc_byte_def byte_simps Let_def)

sublocale block128 \<subseteq> cfb_dec: stream_mode block block cfb_dec_byte cfb_dec_block "\<lambda>ivec. length ivec = 16"
  by unfold_locales
     (simp_all add: length_block tail_cfb_dec cfb_dec_block_def cfb_dec_byte_def byte_simps)

sublocale block128 \<subseteq> ofb: stream_mode block block ofb_byte ofb_block "\<lambda>ivec. length ivec = 16"
  by unfold_locales
     (simp_all add: length_block tail_ofb ofb_block_def ofb_byte_def byte_simps)

sublocale block128 \<subseteq> ctr: stream_mode "ctr_refresh (ctr128_inc_aligned le) block" "ctr_refresh ctr128_inc block"
    ctr_byte ctr_block "\<lambda>(ivec, ec). length ivec = 16 \<and> length ec = 16" for le
  by unfold_locales
     (auto simp: length_block tail_ctr ctr_block_def ctr_byte_def ctr_refresh_def byte_simps ctr128_inc_aligned_eq)

lemma block128I: "\<forall>b. length b = 16 \<longrightarrow> length (block b) = 16 \<Longrightarrow> block128 block"
  by unfold_locales simp

end
