(* ===== verification/Counter_Mode.thy ===== *)
theory Counter_Mode
  imports Stream_Props
begin

text \<open>
  Counter mode against its definition: the output is the input combined with the encryptions of consecutive
  128-bit numbers (\<open>ctr_keystream\<close>), and the variant with the 32-bit counter computes the same, the carry into
  the upper 96 bits included.
\<close>

section \<open>Counter mode as a key stream\<close>

lemma length_funpow_inc [simp]: "length ((ctr128_inc ^^ i) iv) = length iv"
  by (induction i) simp_all

lemma be_nat_funpow_inc:
  "length iv = 16 \<Longrightarrow> be_nat ((ctr128_inc ^^ i) iv) = (be_nat iv + i) mod 2 ^ 128"
proof (induction i)
  case 0
  then show ?case using be_nat_lt [of iv] by simp
next
  case (Suc i)
  then show ?case by (simp add: be_nat_ctr128_inc mod_simps)
qed

text \<open>Block \<open>i\<close> after the counter \<open>iv\<close>, as a 128-bit number.\<close>

definition ctr_at :: "u8 list \<Rightarrow> nat \<Rightarrow> u8 list" where
  "ctr_at iv i = store_be 16 (of_nat (be_nat iv + i) :: 128 word)"

definition ctr_keystream :: "(u8 list \<Rightarrow> u8 list) \<Rightarrow> u8 list \<Rightarrow> nat \<Rightarrow> u8 list" where
  "ctr_keystream block iv k = concat (map (\<lambda>i. block (ctr_at iv i)) [0..<k])"

lemma length_ctr_at [simp]: "length (ctr_at iv i) = 16"
  by (simp add: ctr_at_def)

lemma be_nat_ctr_at: "be_nat (ctr_at iv i) = (be_nat iv + i) mod 2 ^ 128"
  by (simp add: ctr_at_def be_nat_store_be unsigned_of_nat take_bit_eq_mod del: of_nat_add)

lemma funpow_inc: "length iv = 16 \<Longrightarrow> (ctr128_inc ^^ i) iv = ctr_at iv i"
  using be_nat_inject [of "(ctr128_inc ^^ i) iv" "ctr_at iv i"] by (simp add: be_nat_funpow_inc be_nat_ctr_at)

lemma ctr_at_0 [simp]: "length iv = 16 \<Longrightarrow> ctr_at iv 0 = iv"
  using funpow_inc [of iv 0] by simp

lemma ctr_at_add [simp]: "length iv = 16 \<Longrightarrow> ctr_at (ctr_at iv i) j = ctr_at iv (i + j)"
  using be_nat_inject [of "ctr_at (ctr_at iv i) j" "ctr_at iv (i + j)"]
  by (simp add: be_nat_ctr_at mod_simps add.assoc)

lemma ctr128_inc_at: "length iv = 16 \<Longrightarrow> ctr128_inc iv = ctr_at iv 1"
  using funpow_inc [of iv 1] by simp

lemma ctr_keystream_Suc:
  "length iv = 16 \<Longrightarrow> ctr_keystream block iv (Suc k) = block iv @ ctr_keystream block (ctr_at iv 1) k"
proof -
  assume "length iv = 16"
  then have "map (\<lambda>i. block (ctr_at iv i)) [0..<Suc k] = block iv # map (\<lambda>i. block (ctr_at (ctr_at iv 1) i)) [0..<k]"
    by (simp add: upt_conv_Cons map_Suc_upt [symmetric] del: upt_Suc)
  then show ?thesis by (simp add: ctr_keystream_def)
qed

context block128 begin

lemma length_keystream: "length iv = 16 \<Longrightarrow> length (ctr_keystream block iv k) = 16 * k"
  by (induction k arbitrary: iv) (simp_all add: ctr_keystream_Suc length_block, simp add: ctr_keystream_def)

lemma ctr_bytes_keystream:
  assumes "length iv = 16"
  shows "\<exists>ec'. stream_bytes 16 (ctr_refresh ctr128_inc block) ctr_byte 0 (iv, ec) xs =
     Inr (xorl xs (ctr_keystream block iv ((length xs + 15) div 16)),
          (ctr_at iv ((length xs + 15) div 16), ec'), length xs mod 16)
     \<and> (xs \<noteq> [] \<longrightarrow> ec' = block (ctr_at iv ((length xs - 1) div 16)))"
  using assms
proof (induction xs arbitrary: iv ec rule: length_induct)
  case (1 xs)
  let ?a = "take 16 xs" and ?b = "drop 16 xs"
  show ?case
  proof (cases "xs = []")
    case True
    with 1(2) show ?thesis by simp
  next
    case False
    have "tail_loop ctr_byte 0 (ctr128_inc iv, block iv) ?a = (xorl ?a (block iv), (ctr128_inc iv, block iv), length ?a)"
      using tail_ctr [of 0 ?a "block iv"] 1(2) length_block [of iv] by (simp add: xorl_take)
    then have a: "stream_bytes 16 (ctr_refresh ctr128_inc block) ctr_byte 0 (iv, ec) ?a =
        Inr (xorl ?a (block iv), (ctr_at iv 1, block iv), length ?a mod 16)"
      using stream_bytes_block [of ?a 16 "ctr_refresh ctr128_inc block" ctr_byte "(iv, ec)"] False 1(2)
      by (simp add: ctr_refresh_def ctr128_inc_at)
    show ?thesis
    proof (cases "?b = []")
      case True
      then have "?a = xs" by (metis append_Nil2 append_take_drop_id)
      moreover have "(length xs + 15) div 16 = 1" "(length xs - 1) div 16 = 0"
        using True False by (auto simp: div_nat_eqI Suc_le_eq)
      ultimately show ?thesis using a 1(2) by (simp add: ctr_keystream_def)
    next
      case nb: False
      define q where "q = (length ?b + 15) div 16"
      have l: "(length xs + 15) div 16 = Suc q" "length xs mod 16 = length ?b mod 16"
          "(length xs - 1) div 16 = Suc ((length ?b - 1) div 16)"
        using nb by (simp_all add: q_def le_div_geq le_mod_geq)
      obtain ec' where b: "stream_bytes 16 (ctr_refresh ctr128_inc block) ctr_byte 0 (ctr_at iv 1, block iv) ?b =
         Inr (xorl ?b (ctr_keystream block (ctr_at iv 1) q), (ctr_at (ctr_at iv 1) q, ec'), length ?b mod 16)"
         "ec' = block (ctr_at (ctr_at iv 1) ((length ?b - 1) div 16))"
        using 1(1)[rule_format, of ?b "ctr_at iv 1" "block iv"] nb unfolding q_def by auto
      have "xorl xs (ctr_keystream block iv (Suc q)) = xorl (?a @ ?b) (block iv @ ctr_keystream block (ctr_at iv 1) q)"
        using 1(2) by (simp add: ctr_keystream_Suc)
      also have "\<dots> = xorl ?a (block iv) @ xorl ?b (ctr_keystream block (ctr_at iv 1) q)"
        using nb 1(2) length_block [of iv] by (simp del: append_take_drop_id)
      finally have k: "xorl xs (ctr_keystream block iv (Suc q)) = \<dots>" .
      have "stream_bytes 16 (ctr_refresh ctr128_inc block) ctr_byte 0 (iv, ec) (?a @ ?b) =
         Inr (xorl xs (ctr_keystream block iv (Suc q)), (ctr_at iv (Suc q), ec'), length ?b mod 16)"
        using a b(1) k nb 1(2) by (simp only: stream_bytes_append) simp
      then show ?thesis using l b(2) 1(2) by simp
    qed
  qed
qed

end

lemma ctr_keystream_add:
  "length iv = 16 \<Longrightarrow> ctr_keystream block iv (a + b) = ctr_keystream block iv a @ ctr_keystream block (ctr_at iv a) b"
proof -
  assume "length iv = 16"
  then have "map (\<lambda>i. block (ctr_at iv i)) [a..<a + b] = map (\<lambda>i. block (ctr_at (ctr_at iv a) i)) [0..<b]"
    by (auto intro!: nth_equalityI)
  then show ?thesis by (simp add: ctr_keystream_def upt_add_eq_append [of 0 a b, simplified])
qed

section \<open>The 32-bit counter\<close>

text \<open>The law of the routine for many blocks.\<close>

definition ctr32_law :: "(u8 list \<Rightarrow> u8 list) \<Rightarrow> (u8 list \<Rightarrow> nat \<Rightarrow> u8 list \<Rightarrow> u8 list) \<Rightarrow> bool" where
  "ctr32_law block func \<longleftrightarrow> (\<forall>xs blocks iv. length iv = 16 \<longrightarrow> length xs = 16 * blocks \<longrightarrow>
     func xs blocks iv =
       xorl xs (concat (map (\<lambda>i. block (take 12 iv @ store_be 4 (load_be (drop 12 iv) + of_nat i :: u32))) [0..<blocks])))"

lemma be_nat_split12: "length iv = 16 \<Longrightarrow> be_nat iv = be_nat (take 12 iv) * 2 ^ 32 + be_nat (drop 12 iv)"
  using be_nat_append [of "take 12 iv" "drop 12 iv"] by simp

lemma unat_low32: "length iv = 16 \<Longrightarrow> unat (load_be (drop 12 iv) :: u32) = be_nat (drop 12 iv)"
  by (simp add: unat_load_be)

lemma low32_no_wrap:
  assumes "length iv = 16" "be_nat (drop 12 iv) + i < 2 ^ 32"
  shows "take 12 iv @ store_be 4 (load_be (drop 12 iv) + of_nat i :: u32) = ctr_at iv i"
proof -
  let ?w = "load_be (drop 12 iv) + of_nat i :: u32"
  have "unat ?w = be_nat (drop 12 iv) + i"
    using assms by (simp add: unat_word_ariths unat_low32 unsigned_of_nat take_bit_eq_mod mod_simps)
  then have v: "be_nat (take 12 iv @ store_be 4 ?w) = be_nat iv + i"
    using assms(1) by (simp add: be_nat_append be_nat_store_be be_nat_split12 [of iv])
  moreover have "be_nat iv + i < 2 ^ 128"
    using v be_nat_lt [of "take 12 iv @ store_be 4 ?w"] assms(1) by simp
  ultimately show ?thesis
    using be_nat_inject [of "take 12 iv @ store_be 4 ?w" "ctr_at iv i"] assms(1) by (simp add: be_nat_ctr_at)
qed

lemma low32_wrap:
  assumes "length iv = 16" "be_nat (drop 12 iv) + i = 2 ^ 32"
  shows "ctr96_inc (take 12 iv @ store_be 4 (0 :: u32)) = ctr_at iv i"
proof -
  let ?v = "take 12 iv @ store_be 4 (0 :: u32)"
  have l: "length ?v = 16" using assms by simp
  have d: "be_nat (take 12 (ctr96_inc ?v)) = (be_nat (take 12 iv) + 1) mod 2 ^ 96" "drop 12 (ctr96_inc ?v) = store_be 4 (0 :: u32)"
    using be_nat_ctr96_inc [OF l] assms by simp_all
  have "be_nat (ctr96_inc ?v) = (be_nat (take 12 iv) + 1) mod 2 ^ 96 * 2 ^ 32"
    using be_nat_split12 [of "ctr96_inc ?v"] l d by (simp add: be_nat_store_be)
  also have "\<dots> = ((be_nat (take 12 iv) + 1) * 2 ^ 32) mod (2 ^ 96 * 2 ^ 32)"
    by (simp only: mult_mod_left)
  also have "(be_nat (take 12 iv) + 1) * 2 ^ 32 = be_nat iv + i"
    using assms be_nat_split12 [of iv] by simp
  finally show ?thesis
    using be_nat_inject [of "ctr96_inc ?v" "ctr_at iv i"] l by (simp add: be_nat_ctr_at)
qed

text \<open>One batch: where it is cut, the counter never passes the overflow inside it.\<close>

lemma ctr32_batch:
  fixes iv :: "u8 list" and b :: nat
  defines "c \<equiv> load_be (drop 12 iv) :: u32"
  defines "ctr1 \<equiv> c + of_nat b"
  defines "n \<equiv> (if unat ctr1 < b then b - unat ctr1 else b)"
  defines "ctr2 \<equiv> (if unat ctr1 < b then 0 else ctr1)"
  assumes "length iv = 16" "0 < b" "b \<le> 2 ^ 28"
  shows "0 < n" "n \<le> b" "be_nat (drop 12 iv) + n \<le> 2 ^ 32"
    and "(if ctr2 = 0 then ctr96_inc (take 12 iv @ store_be 4 ctr2) else take 12 iv @ store_be 4 ctr2) = ctr_at iv n"
proof -
  define m where "m = be_nat (drop 12 iv)"
  have m: "unat c = m" "m < 2 ^ 32"
    using assms be_nat_lt [of "drop 12 iv"] by (simp_all add: m_def unat_low32)
  have "unat (of_nat b :: u32) = b"
    using assms by (simp add: unsigned_of_nat take_bit_nat_eq_self)
  then have u: "unat ctr1 = (if m + b < 2 ^ 32 then m + b else m + b - 2 ^ 32)"
    using m unfolding ctr1_def by (simp add: unat_plus_cases)
  have "0 < n \<and> n \<le> b \<and> m + n \<le> 2 ^ 32 \<and>
     (if ctr2 = 0 then ctr96_inc (take 12 iv @ store_be 4 ctr2) else take 12 iv @ store_be 4 ctr2) = ctr_at iv n"
  proof (cases "m + b < 2 ^ 32")
    case True
    with u assms have s: "n = b" "ctr2 = ctr1" "unat ctr2 \<noteq> 0" by (simp_all add: n_def ctr2_def)
    from s(3) have "ctr2 \<noteq> 0" by auto
    with s True low32_no_wrap [of iv n] assms show ?thesis by (simp add: m_def)
  next
    case False
    then have f: "unat ctr1 = m + b - 2 ^ 32" "unat ctr1 < b" using u m(2) assms(6) by simp_all
    then have s: "n = 2 ^ 32 - m" "ctr2 = 0" "n \<le> b" using False m(2) by (simp_all add: n_def ctr2_def)
    moreover have "m + n = 2 ^ 32" using s(1) m(2) by simp
    ultimately show ?thesis using low32_wrap [of iv n] assms(5) m(2) by (simp add: m_def [symmetric])
  qed
  then show "0 < n" "n \<le> b" "be_nat (drop 12 iv) + n \<le> 2 ^ 32"
    and "(if ctr2 = 0 then ctr96_inc (take 12 iv @ store_be 4 ctr2) else take 12 iv @ store_be 4 ctr2) = ctr_at iv n"
    by (simp_all add: m_def)
qed

context block128 begin

lemma ctr32_loop_keystream:
  assumes "ctr32_law block func" "length iv = 16"
  shows "ctr32_loop func iv (load_be (drop 12 iv)) xs =
     (let k = length xs div 16 in
      (xorl (take (16 * k) xs) (ctr_keystream block iv k), ctr_at iv k, load_be (drop 12 (ctr_at iv k)), drop (16 * k) xs))"
  using assms(2)
proof (induction xs arbitrary: iv rule: length_induct)
  case (1 xs)
  show ?case
  proof (cases "length xs < 16")
    case True
    with 1(2) show ?thesis by (simp add: ctr_keystream_def)
  next
    case False
    define b where "b = (if length xs div 16 > 2 ^ 28 then 2 ^ 28 else length xs div 16)"
    define c where "c = (load_be (drop 12 iv) :: u32)"
    define ctr1 where "ctr1 = c + of_nat b"
    define n where "n = (if unat ctr1 < b then b - unat ctr1 else b)"
    define ctr2 where "ctr2 = (if unat ctr1 < b then 0 else ctr1)"
    define v where "v = (if ctr2 = 0 then ctr96_inc (take 12 iv @ store_be 4 ctr2) else take 12 iv @ store_be 4 ctr2)"
    have b: "0 < b" "b \<le> 2 ^ 28" "b \<le> length xs div 16" using False by (auto simp: b_def div_greater_zero_iff)
    note batch = ctr32_batch [OF 1(2) b(1,2), folded c_def, folded ctr1_def, folded n_def ctr2_def, folded v_def]
    obtain k where k: "length xs div 16 = n + k" using batch(2) b(3) le_Suc_ex order_trans by blast
    have ln: "16 * n \<le> length xs" using k by linarith
    obtain r where r: "length xs = 16 * n + r" using ln le_Suc_ex by blast
    have ls: "length (drop (16 * n) xs) < length xs" "length (drop (16 * n) xs) div 16 = k"
      using k batch(1) r by simp_all
    have "ctr2 = load_be (drop 12 v)"
      using 1(2) be_nat_ctr96_inc(2) [of "take 12 iv @ store_be 4 ctr2"] by (auto simp: v_def load_store_be)
    then have IH: "ctr32_loop func v ctr2 (drop (16 * n) xs) =
        (xorl (take (16 * k) (drop (16 * n) xs)) (ctr_keystream block v k), ctr_at v k,
         load_be (drop 12 (ctr_at v k)), drop (16 * k) (drop (16 * n) xs))"
      using 1(1)[rule_format, OF ls(1), of v] ls(2) batch(4) by (simp add: Let_def)
    have "block (take 12 iv @ store_be 4 (c + of_nat i)) = block (ctr_at iv i)" if "i < n" for i
      using low32_no_wrap [of iv i] 1(2) batch(3) that by (simp add: c_def)
    then have e: "map (\<lambda>i. block (take 12 iv @ store_be 4 (c + of_nat i))) [0..<n] = map (\<lambda>i. block (ctr_at iv i)) [0..<n]"
      by simp
    have "func (take (16 * n) xs) n iv =
        xorl (take (16 * n) xs) (concat (map (\<lambda>i. block (take 12 iv @ store_be 4 (c + of_nat i))) [0..<n]))"
      using assms(1) 1(2) ln unfolding ctr32_law_def c_def by simp
    then have f: "func (take (16 * n) xs) n iv = xorl (take (16 * n) xs) (ctr_keystream block iv n)"
      by (simp only: e ctr_keystream_def)
    have "ctr32_loop func iv c xs = (let (out2, r) = ctr32_loop func v ctr2 (drop (16 * n) xs) in (func (take (16 * n) xs) n iv @ out2, r))"
      using False unfolding ctr32_loop.simps [of func iv c xs] b_def [symmetric] Let_def ctr1_def [symmetric]
        n_def [symmetric] ctr2_def [symmetric] v_def [symmetric]
      by simp
    also have "\<dots> = (xorl (take (16 * n) xs) (ctr_keystream block iv n) @ xorl (take (16 * k) (drop (16 * n) xs)) (ctr_keystream block v k),
        ctr_at iv (n + k), load_be (drop 12 (ctr_at iv (n + k))), drop (16 * (n + k)) xs)"
      using IH f batch(4) 1(2) by (simp add: algebra_simps)
    also have "xorl (take (16 * n) xs) (ctr_keystream block iv n) @ xorl (take (16 * k) (drop (16 * n) xs)) (ctr_keystream block v k)
        = xorl (take (16 * n) xs @ take (16 * k) (drop (16 * n) xs)) (ctr_keystream block iv n @ ctr_keystream block v k)"
      using 1(2) ln length_keystream [of iv n] by simp
    also have "\<dots> = xorl (take (16 * (n + k)) xs) (ctr_keystream block iv (n + k))"
      using 1(2) batch(4) by (simp add: ctr_keystream_add take_add add_mult_distrib2)
    finally show ?thesis by (simp add: k c_def Let_def)
  qed
qed

lemma ctr32_tail_counter:
  fixes iv :: "u8 list"
  defines "ctr1 \<equiv> load_be (drop 12 iv) + 1 :: u32"
  assumes "length iv = 16"
  shows "(if ctr1 = 0 then ctr96_inc (take 12 iv @ store_be 4 ctr1) else take 12 iv @ store_be 4 ctr1) = ctr_at iv 1"
proof -
  have m: "unat (load_be (drop 12 iv) :: u32) = be_nat (drop 12 iv)" "be_nat (drop 12 iv) < 2 ^ 32"
    using assms(2) be_nat_lt [of "drop 12 iv"] by (simp_all add: unat_low32)
  then have u: "unat ctr1 = (be_nat (drop 12 iv) + 1) mod 2 ^ 32"
    unfolding ctr1_def by (simp add: unat_word_ariths)
  show ?thesis
  proof (cases "be_nat (drop 12 iv) + 1 < 2 ^ 32")
    case True
    with u have "unat ctr1 \<noteq> 0" by simp
    then have "ctr1 \<noteq> 0" by auto
    then show ?thesis using low32_no_wrap [OF assms(2) True] by (simp add: ctr1_def)
  next
    case False
    with m(2) have e: "be_nat (drop 12 iv) + 1 = 2 ^ 32" by simp
    with u have "ctr1 = 0" by (simp add: unat_eq_0 [symmetric])
    then show ?thesis using low32_wrap [OF assms(2) e] by simp
  qed
qed

lemma ctr32_rest:
  assumes "ctr32_law block func" "length iv = 16" "length ec = 16" "rest \<noteq> []"
  shows "\<exists>out iv' n ec1 ec2.
    stream_bytes 16 (ctr_refresh ctr128_inc block) ctr_byte 0 (iv, ec) rest = Inr (out, (iv', ec1), n)
    \<and> CRYPTO_ctr128_encrypt_ctr32 func iv ec 0 rest = Inr (out, (iv', ec2), n) \<and> (n \<noteq> 0 \<longrightarrow> ec1 = ec2)"
proof -
  define k where "k = length rest div 16"
  define r where "r = drop (16 * k) rest"
  have lr: "length r = length rest mod 16" "length rest = 16 * k + length r"
    by (simp_all add: r_def k_def minus_mult_div_eq_mod)
  have loop: "ctr32_loop func iv (load_be (drop 12 iv)) rest =
      (xorl (take (16 * k) rest) (ctr_keystream block iv k), ctr_at iv k, load_be (drop 12 (ctr_at iv k)), r)"
    using ctr32_loop_keystream [OF assms(1,2), of rest] by (simp add: Let_def k_def r_def)
  have head: "head_loop ctr_byte 0 (iv, ec) rest = Inr ([], (iv, ec), 0, rest)" using assms(4) by (cases rest) simp_all
  obtain ec1 where s: "stream_bytes 16 (ctr_refresh ctr128_inc block) ctr_byte 0 (iv, ec) rest =
     Inr (xorl rest (ctr_keystream block iv ((length rest + 15) div 16)),
          (ctr_at iv ((length rest + 15) div 16), ec1), length rest mod 16)"
     "ec1 = block (ctr_at iv ((length rest - 1) div 16))"
    using ctr_bytes_keystream [OF assms(2), of ec rest] assms(4) by auto
  show ?thesis
  proof (cases "r = []")
    case True
    with lr have "(length rest + 15) div 16 = k" "take (16 * k) rest = rest" "length rest mod 16 = 0" by simp_all
    with s show ?thesis using True head loop by (simp add: CRYPTO_ctr128_encrypt_ctr32_def)
  next
    case False
    have lt: "length r < 16" "0 < length r" using lr False by simp_all
    obtain d where d: "length r = Suc d" using lt(2) gr0_implies_Suc by blast
    then have "length rest + 15 = 16 * Suc k + d" "length rest - 1 = 16 * k + d" "d < 16" using lr(2) lt(1) by simp_all
    then have q: "(length rest + 15) div 16 = Suc k" "(length rest - 1) div 16 = k"
      by simp_all
    let ?iv = "ctr_at iv k" and ?b = "block (ctr_at iv k)"
    have lb: "length ?b = 16" by (simp add: length_block)
    have "func (replicate 16 0) 1 ?iv = xorl (replicate 16 0) (block (take 12 ?iv @ store_be 4 (load_be (drop 12 ?iv) + of_nat 0 :: u32)))"
      using assms(1) unfolding ctr32_law_def by simp
    also have "take 12 ?iv @ store_be 4 (load_be (drop 12 ?iv) + of_nat 0 :: u32) = ?iv" by (simp add: store_load_be)
    also have "xorl (replicate 16 0) ?b = ?b" using lb by (auto intro!: nth_equalityI)
    finally have ec: "func (replicate 16 0) 1 ?iv = ?b" .
    have o: "xorl rest (ctr_keystream block iv (Suc k)) = xorl (take (16 * k) rest) (ctr_keystream block iv k) @ xorl r ?b"
    proof -
      have "ctr_keystream block iv (Suc k) = ctr_keystream block iv k @ ?b" by (simp add: ctr_keystream_def)
      moreover have "rest = take (16 * k) rest @ r" by (simp add: r_def)
      moreover have "length (take (16 * k) rest) = length (ctr_keystream block iv k)"
        using lr(2) length_keystream [OF assms(2), of k] by simp
      ultimately show ?thesis by (metis map_append zip_append)
    qed
    have t: "tail_loop ctr_byte 0 (v, ?b) r = (xorl r ?b, (v, ?b), length r)" for v
      using tail_ctr [of 0 r ?b v] lt lb by (simp add: xorl_take)
    have c: "(if load_be (drop 12 ?iv) + 1 = (0 :: u32) then ctr96_inc (take 12 ?iv @ store_be 4 (load_be (drop 12 ?iv) + 1 :: u32))
         else take 12 ?iv @ store_be 4 (load_be (drop 12 ?iv) + 1 :: u32)) = ctr_at iv (Suc k)"
      using ctr32_tail_counter [of ?iv] assms(2) by simp
    have "CRYPTO_ctr128_encrypt_ctr32 func iv ec 0 rest = Inr (xorl rest (ctr_keystream block iv (Suc k)), (ctr_at iv (Suc k), ?b), length r)"
      by (simp only: CRYPTO_ctr128_encrypt_ctr32_def head rbind_simps prod.case loop Let_def ec c t False o
          append_Nil not_False_eq_True if_True simp_thms)
    moreover have "stream_bytes 16 (ctr_refresh ctr128_inc block) ctr_byte 0 (iv, ec) rest =
        Inr (xorl rest (ctr_keystream block iv (Suc k)), (ctr_at iv (Suc k), ?b), length r)"
      by (simp only: s q lr(1))
    ultimately show ?thesis by blast
  qed
qed

lemma head_loop_ctr:
  "num < 16 \<Longrightarrow> \<exists>out n rest. head_loop ctr_byte num (iv, ec) xs = Inr (out, (iv, ec), n, rest) \<and> (rest \<noteq> [] \<longrightarrow> n = 0)"
proof (induction xs arbitrary: num)
  case (Cons x xs)
  from Cons.IH [of "(num + 1) mod 16"] obtain out n rest where
    "head_loop ctr_byte ((num + 1) mod 16) (iv, ec) xs = Inr (out, (iv, ec), n, rest)" "rest \<noteq> [] \<longrightarrow> n = 0" by auto
  moreover have "ctr_byte num x (iv, ec) = (x XOR ec ! num, iv, ec)" by (simp add: ctr_byte_def)
  ultimately show ?case using Cons.prems by simp
qed simp

lemma ctr32_equivalent:
  assumes "ctr32_law block func" "length iv = 16" "length ec = 16" "num < 16"
  shows "\<exists>out iv' n ec1 ec2. CRYPTO_ctr128_encrypt p le block iv ec num inp = Inr (out, (iv', ec1), n)
    \<and> CRYPTO_ctr128_encrypt_ctr32 func iv ec num inp = Inr (out, (iv', ec2), n) \<and> (n \<noteq> 0 \<longrightarrow> ec1 = ec2)"
proof -
  obtain out n rest where h: "head_loop ctr_byte num (iv, ec) inp = Inr (out, (iv, ec), n, rest)" "rest \<noteq> [] \<longrightarrow> n = 0"
    using head_loop_ctr [OF assms(4)] by blast
  have e: "CRYPTO_ctr128_encrypt p le block iv ec num inp =
      rbind (stream_bytes 16 (ctr_refresh ctr128_inc block) ctr_byte n (iv, ec) rest) (\<lambda>(out2, r). Inr (out @ out2, r))"
    using ctr.path_independent [of "(iv, ec)" p le num inp] ctr.head_then_bytes [of "(iv, ec)" num inp] assms h(1)
    by (simp add: CRYPTO_ctr128_encrypt_def)
  have f: "CRYPTO_ctr128_encrypt_ctr32 func iv ec num inp =
      rbind (CRYPTO_ctr128_encrypt_ctr32 func iv ec n rest) (\<lambda>(out2, r). Inr (out @ out2, r))"
    if "rest \<noteq> []"
  proof -
    have "head_loop ctr_byte n (iv, ec) rest = Inr ([], (iv, ec), n, rest)"
      using h(2) that by (cases rest) simp_all
    then show ?thesis
      by (simp add: CRYPTO_ctr128_encrypt_ctr32_def h(1) Let_def split: prod.split)
  qed
  show ?thesis
  proof (cases "rest = []")
    case True
    with e h assms(2) show ?thesis by (simp add: CRYPTO_ctr128_encrypt_ctr32_def)
  next
    case False
    with ctr32_rest [OF assms(1-3) False] e f h(2) show ?thesis by auto
  qed
qed

end

end
