(* ===== verification/Stream_Results.thy ===== *)
theory Stream_Results
  imports Counter_Mode
begin

text \<open>
  What the stream modes promise, stated on the functions of \<^verbatim>\<open>crypto/modes\<close> for any block function that maps
  16 bytes to 16 bytes: the compilation path does not matter, decryption undoes encryption, a message may be
  handed over in pieces, counter mode is the key stream of consecutive counters, and what happens to a bad
  \<^verbatim>\<open>*num\<close>.
\<close>

section \<open>CFB with a shift of 8 bits and of 1 bit\<close>

lemma top_bit_u8: "bit (w :: u8) 7 \<longleftrightarrow> w AND 0x80 \<noteq> 0"
  using and_exp_eq_0_iff_not_bit [of w 7] by simp

lemma bit_0x80 [simp]: "bit (0x80 :: int) n \<longleftrightarrow> n = 7"
  using bit_exp_iff [of 7 n, where 'a = int] by auto

lemma top_mask_u8: "(w :: u8) AND 0x80 = (if bit w 7 then 0x80 else 0)"
  by (rule bit_word_eqI) (auto simp: bit_simps)

lemma drop_bit_7_u8: "drop_bit 7 (w :: u8) = (if bit w 7 then 1 else 0)"
proof (rule bit_word_eqI)
  fix n assume "n < LENGTH(8)"
  then show "bit (drop_bit 7 w) n \<longleftrightarrow> bit (if bit w 7 then 1 else 0 :: u8) n"
    by (cases "n = 0") (auto simp: bit_simps dest: bit_imp_le_length)
qed

lemma get_msb_bit: "get_msb inp n = (if bit (inp ! (n div 8)) (7 - n mod 8) then 0x80 else 0)"
  using and_exp_eq_0_iff_not_bit [of "inp ! (n div 8)" "7 - n mod 8"]
  by (simp add: get_msb_def push_bit_eq_mult)

lemma length_put_msb [simp]: "length (put_msb out n d) = length out"
  by (simp add: put_msb_def)

lemma bit_set_msb:
  fixes b d :: u8
  assumes "k < 8" "j < 8"
  shows "bit ((b AND NOT (push_bit (7 - k) 1)) OR drop_bit k (d AND 0x80)) (7 - j) = (if j = k then bit d 7 else bit b (7 - j))"
proof -
  have "bit (drop_bit k (d AND 0x80)) (7 - j) \<longleftrightarrow> bit d 7 \<and> j = k"
    using assms by (auto simp: top_mask_u8 bit_drop_bit_eq)
  moreover have "bit (NOT (push_bit (7 - k) (1 :: u8))) (7 - j) \<longleftrightarrow> j \<noteq> k"
    using assms by (auto simp: bit_simps)
  ultimately show ?thesis by (auto simp: bit_simps)
qed

lemma get_put_msb:
  assumes "n div 8 < length out"
  shows "get_msb (put_msb out n d) m = (if m = n then d AND 0x80 else get_msb out m)"
proof (cases "m div 8 = n div 8")
  case True
  then have "m = n \<longleftrightarrow> m mod 8 = n mod 8" by (metis div_mult_mod_eq)
  with True assms bit_set_msb [of "n mod 8" "m mod 8" "out ! (n div 8)" d] show ?thesis
    by (simp add: get_msb_bit put_msb_def top_mask_u8)
next
  case False
  then have "m \<noteq> n" by auto
  with False show ?thesis by (simp add: get_msb_bit put_msb_def)
qed

text \<open>The register shifted by one bit; of the byte shifted in only the top bit counts.\<close>

definition shift1 :: "u8 list \<Rightarrow> u8 \<Rightarrow> u8 list" where
  "shift1 ivec w = map (\<lambda>n. push_bit 1 ((ivec @ [w]) ! n) OR drop_bit 7 ((ivec @ [w]) ! Suc n)) [0..<16]"

lemma length_shift1 [simp]: "length (shift1 ivec w) = 16"
  by (simp add: shift1_def)

lemma shift1_top:
  assumes "length ivec = 16" "w AND 0x80 = v AND 0x80"
  shows "shift1 ivec w = shift1 ivec v"
proof -
  have "drop_bit 7 w = drop_bit 7 v" using assms(2) by (simp add: drop_bit_7_u8 top_bit_u8)
  with assms(1) show ?thesis by (auto simp: shift1_def nth_append less_Suc_eq)
qed

context block128 begin

lemma cfbr8:
  assumes "length ivec = 16" "length junk = 33"
  shows "cfbr_encrypt_block junk block [x] [0] 8 ivec enc =
     ([x XOR block ivec ! 0], tl ivec @ [if enc then x XOR block ivec ! 0 else x])"
proof -
  have "ivec \<noteq> []" using assms by auto
  then show ?thesis using assms by (simp add: cfbr_encrypt_block_def Let_def drop_Suc)
qed

lemma cfb8_roundtrip:
  assumes "length ivec = 16" "length junk = 33" "length junk' = 33"
    "CRYPTO_cfb128_8_encrypt junk block xs ivec True = (ys, ivec')"
  shows "length ys = length xs \<and> CRYPTO_cfb128_8_encrypt junk' block ys ivec False = (xs, ivec')"
  using assms(1,4)
proof (induction xs arbitrary: ivec ys)
  case (Cons x xs)
  let ?c = "x XOR block ivec ! 0"
  have l: "length (tl ivec @ [?c]) = 16" using Cons.prems by simp
  obtain zs where r: "CRYPTO_cfb128_8_encrypt junk block xs (tl ivec @ [?c]) True = (zs, ivec')" "ys = ?c # zs"
    using Cons.prems by (auto simp: cfbr8 assms(2) split: prod.splits)
  from Cons.IH [OF l r(1)] Cons.prems r(2) show ?case by (simp add: cfbr8 assms(3))
qed simp

lemma cfbr1:
  assumes "length ivec = 16" "length junk = 33"
  shows "cfbr_encrypt_block junk block [x] [0] 1 ivec enc =
     ([x XOR block ivec ! 0], shift1 ivec (if enc then x XOR block ivec ! 0 else x))"
proof -
  have "(ivec @ w # drop 17 junk) ! n = (ivec @ [w]) ! n" if "n < 17" for n w
    using assms that by (simp add: nth_append)
  then have "map (\<lambda>n. push_bit 1 ((ivec @ w # drop 17 junk) ! n) OR drop_bit 7 ((ivec @ w # drop 17 junk) ! Suc n)) [0..<16] = shift1 ivec w" for w
    by (simp add: shift1_def)
  then show ?thesis using assms by (simp add: cfbr_encrypt_block_def Let_def)
qed

lemma cfb1_frame:
  assumes "length ivec = 16" "length junk = 33" "\<forall>n\<in>set ns. n div 8 < length out"
    "cfb1_loop junk block inp enc ns out ivec = (out', ivec')"
  shows "length out' = length out \<and> (\<forall>m. m \<notin> set ns \<longrightarrow> get_msb out' m = get_msb out m)"
  using assms(1,3,4)
proof (induction ns arbitrary: ivec out)
  case (Cons n ns)
  let ?w = "get_msb inp n XOR block ivec ! 0"
  have "cfb1_loop junk block inp enc ns (put_msb out n ?w) (shift1 ivec (if enc then ?w else get_msb inp n)) = (out', ivec')"
    using Cons.prems by (simp add: cfbr1 assms(2))
  from Cons.IH [OF _ _ this] Cons.prems show ?case by (simp add: get_put_msb)
qed simp

lemma cfb1_roundtrip:
  assumes "length ivec = 16" "length junk = 33" "length junk' = 33"
    and "\<forall>n\<in>set ns. n div 8 < length out \<and> n div 8 < length out2" "distinct ns"
    and "cfb1_loop junk block inp True ns out ivec = (out', ivec')"
    and "\<forall>n\<in>set ns. get_msb c n = get_msb out' n"
  shows "\<exists>d. cfb1_loop junk' block c False ns out2 ivec = (d, ivec') \<and> (\<forall>n\<in>set ns. get_msb d n = get_msb inp n)"
  using assms(1,4,5,6,7)
proof (induction ns arbitrary: ivec out out2)
  case (Cons n ns)
  let ?b = "block ivec ! 0"
  let ?w = "get_msb inp n XOR ?b"
  have e: "cfb1_loop junk block inp True ns (put_msb out n ?w) (shift1 ivec ?w) = (out', ivec')"
    using Cons.prems by (simp add: cfbr1 assms(2))
  have "get_msb out' n = get_msb (put_msb out n ?w) n"
    using cfb1_frame [OF _ assms(2) _ e] Cons.prems by simp
  then have c: "get_msb c n = ?w AND 0x80" using Cons.prems by (simp add: get_put_msb)
  have s: "shift1 ivec (get_msb c n) = shift1 ivec ?w"
    using Cons.prems(1) by (intro shift1_top) (simp_all add: c and.assoc)
  have g: "(get_msb c n XOR ?b) AND 0x80 = get_msb inp n"
    unfolding c by (rule bit_word_eqI) (auto simp: bit_simps get_msb_bit top_mask_u8)
  obtain d where d: "cfb1_loop junk' block c False ns (put_msb out2 n (get_msb c n XOR ?b)) (shift1 ivec ?w) = (d, ivec')"
      "\<forall>n\<in>set ns. get_msb d n = get_msb inp n"
    using Cons.IH [OF _ _ _ e, of "put_msb out2 n (get_msb c n XOR ?b)"] Cons.prems by auto
  have "get_msb d n = get_msb inp n"
    using cfb1_frame [OF _ assms(3) _ d(1)] Cons.prems g by (simp add: get_put_msb)
  with d show ?case using Cons.prems(1) s by (simp add: cfbr1 assms(3))
qed simp

end

section \<open>The functions in terms of the byte loop\<close>

context block128 begin

lemma cfb_bytes:
  "length ivec = 16 \<Longrightarrow> CRYPTO_cfb128_encrypt p block ivec num enc inp =
     (if num < 0 then Inr ([], ivec, -1)
      else rbind (stream_bytes 16 block (if enc then cfb_enc_byte else cfb_dec_byte) (nat num) ivec inp)
             (\<lambda>(out, ivec', n). Inr (out, ivec', int n)))"
  by (simp add: CRYPTO_cfb128_encrypt_def cfb_enc.path_independent cfb_dec.path_independent)

lemma ofb_bytes:
  "length ivec = 16 \<Longrightarrow> CRYPTO_ofb128_encrypt p block ivec num inp =
     (if num < 0 then Inr ([], ivec, -1)
      else rbind (stream_bytes 16 block ofb_byte (nat num) ivec inp) (\<lambda>(out, ivec', n). Inr (out, ivec', int n)))"
  by (simp add: CRYPTO_ofb128_encrypt_def ofb.path_independent)

lemma ctr_bytes:
  "length ivec = 16 \<Longrightarrow> length ec = 16 \<Longrightarrow> CRYPTO_ctr128_encrypt p le block ivec ec num inp =
     stream_bytes 16 (ctr_refresh ctr128_inc block) ctr_byte num (ivec, ec) inp"
  by (simp add: CRYPTO_ctr128_encrypt_def ctr.path_independent)

lemma cfb_roundtrip:
  assumes "length ivec = 16" "n < 16"
  shows "\<exists>out ivec'. CRYPTO_cfb128_encrypt p block ivec (int n) True inp = Inr (out, ivec', int ((n + length inp) mod 16))
    \<and> length out = length inp
    \<and> CRYPTO_cfb128_encrypt p' block ivec (int n) False out = Inr (inp, ivec', int ((n + length inp) mod 16))"
proof -
  obtain out ivec' n' where s: "stream_bytes 16 block cfb_enc_byte n ivec inp = Inr (out, ivec', n')"
    using stream_bytes_total [of n 16 block cfb_enc_byte ivec inp] assms by auto
  have "stream_bytes 16 block cfb_dec_byte n ivec out = Inr (inp, ivec', n')"
    using s by (rule stream_bytes_roundtrip [rotated]) (simp add: cfb_enc_byte_def cfb_dec_byte_def Let_def)
  then show ?thesis
    using s assms stream_bytes_length [OF s] stream_bytes_index [OF s] by (simp add: cfb_bytes)
qed

lemma ofb_roundtrip:
  assumes "length ivec = 16" "n < 16"
  shows "\<exists>out ivec'. CRYPTO_ofb128_encrypt p block ivec (int n) inp = Inr (out, ivec', int ((n + length inp) mod 16))
    \<and> length out = length inp
    \<and> CRYPTO_ofb128_encrypt p' block ivec (int n) out = Inr (inp, ivec', int ((n + length inp) mod 16))"
proof -
  obtain out ivec' n' where s: "stream_bytes 16 block ofb_byte n ivec inp = Inr (out, ivec', n')"
    using stream_bytes_total [of n 16 block ofb_byte ivec inp] assms by auto
  have "stream_bytes 16 block ofb_byte n ivec out = Inr (inp, ivec', n')"
    using s by (rule stream_bytes_roundtrip [rotated]) (simp add: ofb_byte_def)
  then show ?thesis
    using s assms stream_bytes_length [OF s] stream_bytes_index [OF s] by (simp add: ofb_bytes)
qed

lemma ctr_roundtrip:
  assumes "length ivec = 16" "length ec = 16" "n < 16"
  shows "\<exists>out st'. CRYPTO_ctr128_encrypt p le block ivec ec n inp = Inr (out, st', (n + length inp) mod 16)
    \<and> length out = length inp
    \<and> CRYPTO_ctr128_encrypt p' le' block ivec ec n out = Inr (inp, st', (n + length inp) mod 16)"
proof -
  let ?r = "ctr_refresh ctr128_inc block"
  obtain out st' n' where s: "stream_bytes 16 ?r ctr_byte n (ivec, ec) inp = Inr (out, st', n')"
    using stream_bytes_total [of n 16 ?r ctr_byte "(ivec, ec)" inp] assms by auto
  have "stream_bytes 16 ?r ctr_byte n (ivec, ec) out = Inr (inp, st', n')"
    using s by (rule stream_bytes_roundtrip [rotated]) (auto simp: ctr_byte_def split: prod.splits)
  then show ?thesis
    using s assms stream_bytes_length [OF s] stream_bytes_index [OF s] by (simp add: ctr_bytes)
qed

lemma cfb_split:
  assumes "length ivec = 16"
  shows "CRYPTO_cfb128_encrypt p block ivec num enc (a @ b) =
      rbind (CRYPTO_cfb128_encrypt p block ivec num enc a) (\<lambda>(out, ivec', num').
      rbind (CRYPTO_cfb128_encrypt p' block ivec' num' enc b) (\<lambda>(out2, r). Inr (out @ out2, r)))"
proof (cases "num < 0")
  case True
  then show ?thesis using assms by (simp add: cfb_bytes)
next
  case False
  let ?emit = "if enc then cfb_enc_byte else cfb_dec_byte"
  show ?thesis
  proof (cases "stream_bytes 16 block ?emit (nat num) ivec a")
    case (Inl f)
    with False assms show ?thesis by (simp add: cfb_bytes stream_bytes_append)
  next
    case (Inr q)
    then obtain out ivec' n where s: "stream_bytes 16 block ?emit (nat num) ivec a = Inr (out, ivec', n)" by (metis surj_pair)
    then have "length ivec' = 16" using cfb_enc.bytes_ok [of ivec "nat num" a out ivec' n] cfb_dec.bytes_ok [of ivec "nat num" a out ivec' n] assms by (cases "stream_bytes 16 block ?emit n ivec' b") (auto split: if_splits)
    with False assms s show ?thesis
      by (cases "stream_bytes 16 block ?emit n ivec' b") (auto simp: cfb_bytes stream_bytes_append)
  qed
qed

lemma ofb_split:
  assumes "length ivec = 16"
  shows "CRYPTO_ofb128_encrypt p block ivec num (a @ b) =
      rbind (CRYPTO_ofb128_encrypt p block ivec num a) (\<lambda>(out, ivec', num').
      rbind (CRYPTO_ofb128_encrypt p' block ivec' num' b) (\<lambda>(out2, r). Inr (out @ out2, r)))"
proof (cases "num < 0")
  case True
  then show ?thesis using assms by (simp add: ofb_bytes)
next
  case False
  let ?emit = "ofb_byte"
  show ?thesis
  proof (cases "stream_bytes 16 block ?emit (nat num) ivec a")
    case (Inl f)
    with False assms show ?thesis by (simp add: ofb_bytes stream_bytes_append)
  next
    case (Inr q)
    then obtain out ivec' n where s: "stream_bytes 16 block ?emit (nat num) ivec a = Inr (out, ivec', n)" by (metis surj_pair)
    then have "length ivec' = 16" using ofb.bytes_ok [of ivec "nat num" a out ivec' n] assms by (cases "stream_bytes 16 block ?emit n ivec' b") (auto split: if_splits)
    with False assms s show ?thesis
      by (cases "stream_bytes 16 block ?emit n ivec' b") (auto simp: ofb_bytes stream_bytes_append)
  qed
qed

lemma ctr_split:
  assumes "length ivec = 16" "length ec = 16"
  shows "CRYPTO_ctr128_encrypt p le block ivec ec n (a @ b) =
      rbind (CRYPTO_ctr128_encrypt p le block ivec ec n a) (\<lambda>(out, (ivec', ec'), n').
      rbind (CRYPTO_ctr128_encrypt p' le block ivec' ec' n' b) (\<lambda>(out2, r). Inr (out @ out2, r)))"
  using ctr.split [of "(ivec, ec)" p le n a b p'] assms
  by (simp add: CRYPTO_ctr128_encrypt_def case_prod_unfold)

end

section \<open>Properties\<close>

text \<open>
  C27: CFB, OFB and CTR compute the same output, vector and position whether the
  file is compiled for a small footprint (one loop over bytes), for a machine that needs alignment, or with the
  loop over machine words, and whether the counter is incremented by bytes or by big-endian words.
\<close>

theorem stream_modes_path_independent:
  assumes "\<forall>b. length b = 16 \<longrightarrow> length (block b) = 16" "length ivec = 16" "length ecount_buf = 16"
  shows "CRYPTO_cfb128_encrypt p block ivec num enc inp = CRYPTO_cfb128_encrypt Small_footprint block ivec num enc inp
    \<and> CRYPTO_ofb128_encrypt p block ivec num inp = CRYPTO_ofb128_encrypt Small_footprint block ivec num inp
    \<and> CRYPTO_ctr128_encrypt p le block ivec ecount_buf n inp = CRYPTO_ctr128_encrypt Small_footprint True block ivec ecount_buf n inp"
  using block128I [OF assms(1)] assms(2,3)
  by (simp add: block128.cfb_bytes block128.ofb_bytes block128.ctr_bytes)

theorem stream_modes_path_independent_witness:
  "CRYPTO_cfb128_encrypt Word_access rev (map of_nat [0..<16]) 3 True [1, 2, 3] =
     CRYPTO_cfb128_encrypt Small_footprint rev (map of_nat [0..<16]) 3 True [1, 2, 3]"
  using stream_modes_path_independent [of rev "map of_nat [0..<16]" "map of_nat [0..<16]" Word_access 3 True "[1, 2, 3]"]
  by simp

text \<open>
  C26: from every state with a valid position each mode returns, writes as many bytes as
  it was given and advances the position by that number modulo 16; decrypting what it wrote from the same state
  gives the input back and ends in the same state.
\<close>

theorem stream_modes_roundtrip:
  assumes "\<forall>b. length b = 16 \<longrightarrow> length (block b) = 16" "length ivec = 16" "length ecount_buf = 16" "n < 16"
  shows "(\<exists>out ivec'. CRYPTO_cfb128_encrypt p block ivec (int n) True inp = Inr (out, ivec', int ((n + length inp) mod 16))
      \<and> length out = length inp
      \<and> CRYPTO_cfb128_encrypt p' block ivec (int n) False out = Inr (inp, ivec', int ((n + length inp) mod 16)))
    \<and> (\<exists>out ivec'. CRYPTO_ofb128_encrypt p block ivec (int n) inp = Inr (out, ivec', int ((n + length inp) mod 16))
      \<and> length out = length inp
      \<and> CRYPTO_ofb128_encrypt p' block ivec (int n) out = Inr (inp, ivec', int ((n + length inp) mod 16)))
    \<and> (\<exists>out st'. CRYPTO_ctr128_encrypt p le block ivec ecount_buf n inp = Inr (out, st', (n + length inp) mod 16)
      \<and> length out = length inp
      \<and> CRYPTO_ctr128_encrypt p' le' block ivec ecount_buf n out = Inr (inp, st', (n + length inp) mod 16))"
  using block128.cfb_roundtrip [OF block128I [OF assms(1)] assms(2,4), of p inp p']
    block128.ofb_roundtrip [OF block128I [OF assms(1)] assms(2,4), of p inp p']
    block128.ctr_roundtrip [OF block128I [OF assms(1)] assms(2-4), of p le inp p' le']
  by blast

theorem stream_modes_roundtrip_witness:
  "\<exists>out ivec'. CRYPTO_cfb128_encrypt Word_access rev (replicate 16 5) 14 True [1, 2, 3] = Inr (out, ivec', 1)
     \<and> length out = 3 \<and> CRYPTO_cfb128_encrypt Strict_unaligned rev (replicate 16 5) 14 False out = Inr ([1, 2, 3], ivec', 1)"
  using stream_modes_roundtrip [of rev "replicate 16 5" "replicate 16 0" 14 Word_access "[1, 2, 3]" Strict_unaligned True True]
  by (simp add: numeral_3_eq_3)

text \<open>
  One call on a message is two calls on its parts, the second continuing from the
  vector and position the first one left, whatever the path of each call; so \<^verbatim>\<open>*num\<close> carries all the state a
  caller needs between calls.
\<close>

theorem stream_modes_split:
  assumes "\<forall>b. length b = 16 \<longrightarrow> length (block b) = 16" "length ivec = 16" "length ecount_buf = 16"
  shows "CRYPTO_cfb128_encrypt p block ivec num enc (a @ b) =
      rbind (CRYPTO_cfb128_encrypt p block ivec num enc a) (\<lambda>(out, ivec', num').
      rbind (CRYPTO_cfb128_encrypt p' block ivec' num' enc b) (\<lambda>(out2, r). Inr (out @ out2, r)))
    \<and> CRYPTO_ofb128_encrypt p block ivec num (a @ b) =
      rbind (CRYPTO_ofb128_encrypt p block ivec num a) (\<lambda>(out, ivec', num').
      rbind (CRYPTO_ofb128_encrypt p' block ivec' num' b) (\<lambda>(out2, r). Inr (out @ out2, r)))
    \<and> CRYPTO_ctr128_encrypt p le block ivec ecount_buf n (a @ b) =
      rbind (CRYPTO_ctr128_encrypt p le block ivec ecount_buf n a) (\<lambda>(out, (ivec', ec'), n').
      rbind (CRYPTO_ctr128_encrypt p' le block ivec' ec' n' b) (\<lambda>(out2, r). Inr (out @ out2, r)))"
  using block128.cfb_split [OF block128I [OF assms(1)] assms(2)] block128.ofb_split [OF block128I [OF assms(1)] assms(2)]
    block128.ctr_split [OF block128I [OF assms(1)] assms(2,3)]
  by blast

theorem stream_modes_split_witness:
  "CRYPTO_ofb128_encrypt Word_access rev (replicate 16 5) 14 ([1, 2, 3] @ [4]) =
      rbind (CRYPTO_ofb128_encrypt Word_access rev (replicate 16 5) 14 [1, 2, 3]) (\<lambda>(out, ivec', num').
      rbind (CRYPTO_ofb128_encrypt Small_footprint rev ivec' num' [4]) (\<lambda>(out2, r). Inr (out @ out2, r)))"
  by (rule stream_modes_split [where ecount_buf = "replicate 16 0", THEN conjunct2, THEN conjunct1]) simp_all

text \<open>
  A negative position makes CFB and OFB write nothing and report -1.  A position
  past the block is not rejected: with a byte to handle, every mode and path reads outside the 16-byte vector.
\<close>

theorem stream_modes_bad_position:
  assumes "num < 0" "16 \<le> n" "inp \<noteq> []"
  shows "CRYPTO_cfb128_encrypt p block ivec num enc inp = Inr ([], ivec, -1)
    \<and> CRYPTO_ofb128_encrypt p block ivec num inp = Inr ([], ivec, -1)
    \<and> CRYPTO_cfb128_encrypt p block ivec (int n) enc inp = Inl OutOfBounds
    \<and> CRYPTO_ofb128_encrypt p block ivec (int n) inp = Inl OutOfBounds
    \<and> CRYPTO_ctr128_encrypt p le block ivec ecount_buf n inp = Inl OutOfBounds"
proof -
  have "stream p r r' emit emit16 n s inp = Inl OutOfBounds" for r r' emit emit16 and s :: "u8 list"
    using assms(2,3) by (cases inp; cases p) (simp_all add: stream_def stream_words_def)
  moreover have "stream p r r' emit emit16 n s inp = Inl OutOfBounds" for r r' emit emit16 and s :: "u8 list \<times> u8 list"
    using assms(2,3) by (cases inp; cases p) (simp_all add: stream_def stream_words_def)
  ultimately show ?thesis
    using assms(1) by (simp add: CRYPTO_cfb128_encrypt_def CRYPTO_ofb128_encrypt_def CRYPTO_ctr128_encrypt_def)
qed

theorem stream_modes_bad_position_witness:
  "CRYPTO_cfb128_encrypt Word_access rev (replicate 16 5) 20 True [1] = Inl OutOfBounds"
  using stream_modes_bad_position [of "-1" 20 "[1]" Word_access rev "replicate 16 5" True] by simp

text \<open>
  C28: started at a block boundary, counter mode combines the input with the encryptions of the
  counter and its successors as 128-bit big-endian numbers, wrapping at 2^128, and leaves the counter advanced by
  the number of blocks begun.
\<close>

theorem ctr128_keystream:
  assumes "\<forall>b. length b = 16 \<longrightarrow> length (block b) = 16" "length ivec = 16" "length ecount_buf = 16"
    and "blocks = (length inp + 15) div 16"
  shows "\<exists>ivec' ec'. CRYPTO_ctr128_encrypt p le block ivec ecount_buf 0 inp =
      Inr (xorl inp (concat (map (\<lambda>i. block (store_be 16 (of_nat (be_nat ivec + i) :: 128 word))) [0..<blocks])), (ivec', ec'), length inp mod 16)
    \<and> be_nat ivec' = (be_nat ivec + blocks) mod 2 ^ 128"
proof -
  have k: "concat (map (\<lambda>i. block (store_be 16 (of_nat (be_nat ivec + i) :: 128 word))) [0..<blocks]) = ctr_keystream block ivec blocks"
    by (simp only: ctr_keystream_def ctr_at_def)
  obtain ec' where "stream_bytes 16 (ctr_refresh ctr128_inc block) ctr_byte 0 (ivec, ecount_buf) inp =
      Inr (xorl inp (ctr_keystream block ivec blocks), (ctr_at ivec blocks, ec'), length inp mod 16)"
    using block128.ctr_bytes_keystream [OF block128I [OF assms(1)] assms(2), of ecount_buf inp] assms(4) by blast
  then have "CRYPTO_ctr128_encrypt p le block ivec ecount_buf 0 inp =
      Inr (xorl inp (ctr_keystream block ivec blocks), (ctr_at ivec blocks, ec'), length inp mod 16)"
    using block128.ctr_bytes [OF block128I [OF assms(1)] assms(2,3), of p le 0 inp] by simp
  then show ?thesis unfolding k using be_nat_ctr_at by blast
qed

theorem ctr128_keystream_witness:
  "\<exists>ivec' ec'. CRYPTO_ctr128_encrypt Word_access True rev (replicate 16 255) (replicate 16 0) 0 [1, 2] =
      Inr (xorl [1, 2] (concat (map (\<lambda>i. rev (store_be 16 (of_nat (be_nat (replicate 16 255) + i) :: 128 word))) [0..<1])), (ivec', ec'), 2)
    \<and> be_nat ivec' = (be_nat (replicate 16 255) + 1) mod 2 ^ 128"
  using ctr128_keystream [of rev "replicate 16 255" "replicate 16 0" 1 "[1, 2]" Word_access True] by (simp add: numeral_2_eq_2)

text \<open>
  C29: with a routine that handles batches of blocks on a 32-bit counter, the wrapper gives
  the output, counter and position of the plain counter mode: batches stop where the 32-bit counter overflows
  and the carry goes into the upper 96 bits.  The saved key-stream block agrees whenever it will be used again.
\<close>

theorem ctr32_same_as_ctr128:
  assumes "\<forall>b. length b = 16 \<longrightarrow> length (block b) = 16" "ctr32_law block func"
    and "length ivec = 16" "length ecount_buf = 16" "num < 16"
  shows "\<exists>out ivec' n ec1 ec2. CRYPTO_ctr128_encrypt p le block ivec ecount_buf num inp = Inr (out, (ivec', ec1), n)
    \<and> CRYPTO_ctr128_encrypt_ctr32 func ivec ecount_buf num inp = Inr (out, (ivec', ec2), n) \<and> (n \<noteq> 0 \<longrightarrow> ec1 = ec2)"
  using block128.ctr32_equivalent [OF block128I [OF assms(1)] assms(2-5)] .

theorem ctr32_same_as_ctr128_witness:
  "\<exists>func. ctr32_law rev func \<and> (\<exists>out ivec' n ec1 ec2.
     CRYPTO_ctr128_encrypt Word_access True rev (replicate 16 255) (replicate 16 0) 0 (replicate 40 1) = Inr (out, (ivec', ec1), n)
    \<and> CRYPTO_ctr128_encrypt_ctr32 func (replicate 16 255) (replicate 16 0) 0 (replicate 40 1) = Inr (out, (ivec', ec2), n)
    \<and> (n \<noteq> 0 \<longrightarrow> ec1 = ec2))"
proof -
  let ?func = "\<lambda>xs blocks iv. xorl xs (concat (map (\<lambda>i. rev (take 12 iv @ store_be 4 (load_be (drop 12 iv) + of_nat i :: u32))) [0..<blocks]))"
  have law: "ctr32_law rev ?func" by (simp add: ctr32_law_def)
  from ctr32_same_as_ctr128 [OF _ law, of "replicate 16 255" "replicate 16 0" 0 Word_access True "replicate 40 1"] law
  show ?thesis by fastforce
qed

text \<open>
  CFB with a shift of one byte, and CFB with a shift of one bit on any number of bits of a
  packed message: decryption from the same vector gives back every byte or bit and ends with the same vector,
  whatever the scratch buffer and the output buffer held.
\<close>

theorem cfb_bits_roundtrip:
  assumes "\<forall>b. length b = 16 \<longrightarrow> length (block b) = 16" "length ivec = 16" "length junk = 33" "length junk' = 33"
    and "bits \<le> 8 * length out" "bits \<le> 8 * length out2"
  shows "(let (c, ivec') = CRYPTO_cfb128_8_encrypt junk block inp ivec True
          in length c = length inp \<and> CRYPTO_cfb128_8_encrypt junk' block c ivec False = (inp, ivec'))
    \<and> (let (c, ivec') = CRYPTO_cfb128_1_encrypt junk block inp out bits ivec True;
           (d, ivec'') = CRYPTO_cfb128_1_encrypt junk' block c out2 bits ivec False
       in ivec'' = ivec' \<and> length c = length out \<and> (\<forall>n<bits. get_msb d n = get_msb inp n) \<and> (\<forall>n\<ge>bits. get_msb c n = get_msb out n))"
proof (intro conjI)
  obtain c ivec' where e: "CRYPTO_cfb128_8_encrypt junk block inp ivec True = (c, ivec')" by (metis surj_pair)
  show "let (c, ivec') = CRYPTO_cfb128_8_encrypt junk block inp ivec True
        in length c = length inp \<and> CRYPTO_cfb128_8_encrypt junk' block c ivec False = (inp, ivec')"
    using block128.cfb8_roundtrip [OF block128I [OF assms(1)] assms(2-4) e] e by simp
next
  obtain c ivec' where e: "cfb1_loop junk block inp True [0..<bits] out ivec = (c, ivec')" by (metis surj_pair)
  have b: "\<forall>n\<in>set [0..<bits]. n div 8 < length out \<and> n div 8 < length out2"
    using assms(5,6) by (auto simp: div_less_iff_less_mult)
  obtain d where "cfb1_loop junk' block c False [0..<bits] out2 ivec = (d, ivec')" "\<forall>n\<in>set [0..<bits]. get_msb d n = get_msb inp n"
    using block128.cfb1_roundtrip [OF block128I [OF assms(1)] assms(2-4) b _ e] by auto
  moreover have "length c = length out \<and> (\<forall>n. n \<notin> set [0..<bits] \<longrightarrow> get_msb c n = get_msb out n)"
    using block128.cfb1_frame [OF block128I [OF assms(1)] assms(2,3) _ e] b by auto
  ultimately show "let (c, ivec') = CRYPTO_cfb128_1_encrypt junk block inp out bits ivec True;
           (d, ivec'') = CRYPTO_cfb128_1_encrypt junk' block c out2 bits ivec False
       in ivec'' = ivec' \<and> length c = length out \<and> (\<forall>n<bits. get_msb d n = get_msb inp n) \<and> (\<forall>n\<ge>bits. get_msb c n = get_msb out n)"
    using e by (simp add: CRYPTO_cfb128_1_encrypt_def)
qed

theorem cfb_bits_roundtrip_witness:
  "let (c, ivec') = CRYPTO_cfb128_1_encrypt (replicate 33 9) rev [0xA5, 0x3C] [0, 0] 11 (replicate 16 5) True;
       (d, ivec'') = CRYPTO_cfb128_1_encrypt (replicate 33 1) rev c [7, 7] 11 (replicate 16 5) False
   in ivec'' = ivec' \<and> length c = 2 \<and> (\<forall>n<11. get_msb d n = get_msb [0xA5, 0x3C] n) \<and> (\<forall>n\<ge>11. get_msb c n = get_msb [0, 0] n)"
  using cfb_bits_roundtrip [of rev "replicate 16 5" "replicate 33 9" "replicate 33 1" 11 "[0, 0]" "[7, 7]" "[0xA5, 0x3C]"]
  by (simp add: numeral_2_eq_2)

end
