(* ===== verification/CBC_Mode.thy ===== *)
theory CBC_Mode
  imports Stream_Modes
begin

text \<open>
  Cipher block chaining (\<^verbatim>\<open>crypto/modes/cbc128.c\<close>) and the two forms of ciphertext stealing on top of it
  (\<^verbatim>\<open>crypto/modes/cts128.c\<close>).

  Encryption writes whole blocks: the result lists all the bytes written, also those past \<^verbatim>\<open>len\<close> when the
  last block is partial.  Decryption reads whole blocks, so its input buffer may have to be longer than
  \<^verbatim>\<open>len\<close>; a read past its end is a fault.  \<open>in_place\<close> says whether \<^verbatim>\<open>in == out\<close>.
\<close>

section \<open>CBC encryption\<close>

text \<open>\<^verbatim>\<open>while (len >= 16)\<close>, with the loop that combines a block with the vector as a parameter.\<close>

function cbc_enc_blocks ::
    "(u8 list \<Rightarrow> u8 list \<Rightarrow> u8 list) \<Rightarrow> (u8 list \<Rightarrow> u8 list) \<Rightarrow> u8 list \<Rightarrow> u8 list \<Rightarrow> u8 list \<times> u8 list \<times> u8 list" where
  "cbc_enc_blocks xorf block iv xs =
     (if length xs < 16 then ([], iv, xs)
      else let c = block (xorf (take 16 xs) iv);
               (out, r) = cbc_enc_blocks xorf block c (drop 16 xs)
           in (c @ out, r))"
  by auto
termination by (relation "measure (\<lambda>(_, _, _, xs). length xs)") auto

declare cbc_enc_blocks.simps [simp del]

text \<open>\<^verbatim>\<open>while (len)\<close>: the last block is completed with the bytes of the vector.\<close>

function cbc_enc_bytes :: "(u8 list \<Rightarrow> u8 list) \<Rightarrow> u8 list \<Rightarrow> u8 list \<Rightarrow> u8 list \<times> u8 list" where
  "cbc_enc_bytes block iv xs =
     (if xs = [] then ([], iv)
      else let c = block (map (\<lambda>n. if n < length xs then xs ! n XOR iv ! n else iv ! n) [0..<16]) in
        if length xs \<le> 16 then (c, c)
        else let (out, iv') = cbc_enc_bytes block c (drop 16 xs) in (c @ out, iv'))"
  by auto
termination by (relation "measure (\<lambda>(_, _, xs). length xs)") auto

declare cbc_enc_bytes.simps [simp del]

definition CRYPTO_cbc128_encrypt :: "path \<Rightarrow> (u8 list \<Rightarrow> u8 list) \<Rightarrow> u8 list \<Rightarrow> u8 list \<Rightarrow> u8 list \<times> u8 list" where
  "CRYPTO_cbc128_encrypt path block ivec inp =
     (if inp = [] then ([], ivec)
      else
        let (out, iv, rest) =
              (case path of
                 Small_footprint \<Rightarrow> ([], ivec, inp)
               | Strict_unaligned \<Rightarrow> cbc_enc_blocks (bytes16 (XOR)) block ivec inp
               | Word_access \<Rightarrow> cbc_enc_blocks (words16 (XOR)) block ivec inp);
            (out2, iv2) = cbc_enc_bytes block iv rest
        in (out @ out2, iv2))"

section \<open>CBC decryption\<close>

text \<open>One block: when \<^verbatim>\<open>in != out\<close> the vector is a pointer into the input, in place it is copied.\<close>

definition dec_step_far ::
    "(u8 list \<Rightarrow> u8 list \<Rightarrow> u8 list) \<Rightarrow> (u8 list \<Rightarrow> u8 list) \<Rightarrow> u8 list \<Rightarrow> u8 list \<Rightarrow> u8 list \<times> u8 list" where
  "dec_step_far xorf block blk iv = (xorf (block blk) iv, blk)"

definition dec_step_bytes :: "(u8 list \<Rightarrow> u8 list) \<Rightarrow> u8 list \<Rightarrow> u8 list \<Rightarrow> u8 list \<times> u8 list" where
  "dec_step_bytes block blk ivec = (bytes16 (XOR) (block blk) ivec, bytes16 (\<lambda>_ c. c) ivec blk)"

definition dec_step_words :: "(u8 list \<Rightarrow> u8 list) \<Rightarrow> u8 list \<Rightarrow> u8 list \<Rightarrow> u8 list \<times> u8 list" where
  "dec_step_words block blk ivec = (words16 (XOR) (block blk) ivec, words16 (\<lambda>_ c. c) ivec blk)"

fun cbc_dec_blocks ::
    "(u8 list \<Rightarrow> u8 list \<Rightarrow> u8 list \<times> u8 list) \<Rightarrow> u8 list \<Rightarrow> nat \<Rightarrow> u8 list \<Rightarrow>
       (u8 list \<times> u8 list \<times> nat \<times> u8 list) res" where
  "cbc_dec_blocks step iv len xs =
     (if len < 16 then Inr ([], iv, len, xs)
      else if length xs < 16 then Inl OutOfBounds
      else let (o1, iv1) = step (take 16 xs) iv in
        rbind (cbc_dec_blocks step iv1 (len - 16) (drop 16 xs)) (\<lambda>(o2, r). Inr (o1 @ o2, r)))"

declare cbc_dec_blocks.simps [simp del]

fun cbc_dec_bytes :: "(u8 list \<Rightarrow> u8 list) \<Rightarrow> u8 list \<Rightarrow> nat \<Rightarrow> u8 list \<Rightarrow> (u8 list \<times> u8 list) res" where
  "cbc_dec_bytes block ivec len xs =
     (if len = 0 then Inr ([], ivec)
      else if length xs < 16 then Inl OutOfBounds
      else let tmp = block (take 16 xs);
               o1 = map (\<lambda>n. tmp ! n XOR ivec ! n) [0..<min 16 len] in
        if len \<le> 16 then Inr (o1, take 16 xs)
        else rbind (cbc_dec_bytes block (take 16 xs) (len - 16) (drop 16 xs)) (\<lambda>(o2, r). Inr (o1 @ o2, r)))"

declare cbc_dec_bytes.simps [simp del]

definition CRYPTO_cbc128_decrypt ::
    "path \<Rightarrow> bool \<Rightarrow> (u8 list \<Rightarrow> u8 list) \<Rightarrow> u8 list \<Rightarrow> nat \<Rightarrow> u8 list \<Rightarrow> (u8 list \<times> u8 list) res" where
  "CRYPTO_cbc128_decrypt path in_place block ivec len inp =
     (if len = 0 then Inr ([], ivec)
      else
        rbind (case path of
                 Small_footprint \<Rightarrow> Inr ([], ivec, len, inp)
               | Strict_unaligned \<Rightarrow>
                   cbc_dec_blocks (if in_place then dec_step_bytes block else dec_step_far (bytes16 (XOR)) block) ivec len inp
               | Word_access \<Rightarrow>
                   cbc_dec_blocks (if in_place then dec_step_words block else dec_step_far (words16 (XOR)) block) ivec len inp)
          (\<lambda>(out, iv, len', rest).
             rbind (cbc_dec_bytes block iv len' rest) (\<lambda>(out2, iv2). Inr (out @ out2, iv2))))"

section \<open>Ciphertext stealing\<close>

text \<open>
  \<^verbatim>\<open>for (n = 0; n < residue; ++n) ivec[n] ^= in[n];\<close>
\<close>

definition xor_prefix :: "nat \<Rightarrow> u8 list \<Rightarrow> u8 list \<Rightarrow> u8 list" where
  "xor_prefix residue ivec inp = map (\<lambda>n. if n < residue then ivec ! n XOR inp ! n else ivec ! n) [0..<length ivec]"

text \<open>The result is the returned length, the bytes at \<^verbatim>\<open>out\<close> and the vector.\<close>

definition CRYPTO_cts128_encrypt_block ::
    "path \<Rightarrow> (u8 list \<Rightarrow> u8 list) \<Rightarrow> u8 list \<Rightarrow> u8 list \<Rightarrow> nat \<times> u8 list \<times> u8 list" where
  "CRYPTO_cts128_encrypt_block path block ivec inp =
     (if length inp \<le> 16 then (0, [], ivec)
      else
        let residue = (if length inp mod 16 = 0 then 16 else length inp mod 16);
            len = length inp - residue;
            (out, ivec1) = CRYPTO_cbc128_encrypt path block ivec (take len inp);
            ivec2 = block (xor_prefix residue ivec1 (drop len inp))
        in (len + residue, take (len - 16) out @ ivec2 @ take residue (drop (len - 16) out), ivec2))"

definition CRYPTO_nistcts128_encrypt_block ::
    "path \<Rightarrow> (u8 list \<Rightarrow> u8 list) \<Rightarrow> u8 list \<Rightarrow> u8 list \<Rightarrow> nat \<times> u8 list \<times> u8 list" where
  "CRYPTO_nistcts128_encrypt_block path block ivec inp =
     (if length inp < 16 then (0, [], ivec)
      else
        let residue = length inp mod 16;
            len = length inp - residue;
            (out, ivec1) = CRYPTO_cbc128_encrypt path block ivec (take len inp)
        in if residue = 0 then (len, out, ivec1)
           else let ivec2 = block (xor_prefix residue ivec1 (drop len inp))
                in (len + residue, take (len - 16 + residue) out @ ivec2, ivec2))"

text \<open>
  The variants for a CBC routine: \<open>cbc enc ivec inp\<close> is what the routine writes for the whole blocks of
  \<open>inp\<close>, and the new vector.
\<close>

type_synonym cbc128_f = "bool \<Rightarrow> u8 list \<Rightarrow> u8 list \<Rightarrow> u8 list \<times> u8 list"

definition CRYPTO_cts128_encrypt :: "cbc128_f \<Rightarrow> u8 list \<Rightarrow> u8 list \<Rightarrow> nat \<times> u8 list \<times> u8 list" where
  "CRYPTO_cts128_encrypt cbc ivec inp =
     (if length inp \<le> 16 then (0, [], ivec)
      else
        let residue = (if length inp mod 16 = 0 then 16 else length inp mod 16);
            len = length inp - residue;
            (out, ivec1) = cbc True ivec (take len inp);
            tmp = drop len inp @ replicate (16 - residue) 0;
            (last, ivec2) = cbc True ivec1 tmp
        in (len + residue, take (len - 16) out @ last @ take residue (drop (len - 16) out), ivec2))"

definition CRYPTO_nistcts128_encrypt :: "cbc128_f \<Rightarrow> u8 list \<Rightarrow> u8 list \<Rightarrow> nat \<times> u8 list \<times> u8 list" where
  "CRYPTO_nistcts128_encrypt cbc ivec inp =
     (if length inp < 16 then (0, [], ivec)
      else
        let residue = length inp mod 16;
            len = length inp - residue;
            (out, ivec1) = cbc True ivec (take len inp)
        in if residue = 0 then (len, out, ivec1)
           else let tmp = drop len inp @ replicate (16 - residue) 0;
                    (last, ivec2) = cbc True ivec1 tmp
                in (len + residue, take (len - 16 + residue) out @ last, ivec2))"

text \<open>
  In the \<^verbatim>\<open>_block\<close> decryption routines \<^verbatim>\<open>residue\<close> has been raised by 16 when the return value is computed.
\<close>

definition CRYPTO_cts128_decrypt_block ::
    "path \<Rightarrow> bool \<Rightarrow> (u8 list \<Rightarrow> u8 list) \<Rightarrow> u8 list \<Rightarrow> u8 list \<Rightarrow> (nat \<times> u8 list \<times> u8 list) res" where
  "CRYPTO_cts128_decrypt_block path in_place block ivec inp =
     (if length inp \<le> 16 then Inr (0, [], ivec)
      else
        let residue = (if length inp mod 16 = 0 then 16 else length inp mod 16);
            len = length inp - (16 + residue) in
        rbind (if len \<noteq> 0 then CRYPTO_cbc128_decrypt path in_place block ivec len inp else Inr ([], ivec)) (\<lambda>(out, ivec1).
        let rest = drop len inp;
            d = block (take 16 rest);
            tmp = block (take residue (drop 16 rest) @ drop residue d);
            o1 = map (\<lambda>n. tmp ! n XOR ivec1 ! n) [0..<16];
            o2 = map (\<lambda>n. d ! n XOR rest ! (16 + n)) [0..<residue]
        in Inr (16 + len + (residue + 16), out @ o1 @ o2, take 16 rest)))"

definition CRYPTO_nistcts128_decrypt_block ::
    "path \<Rightarrow> bool \<Rightarrow> (u8 list \<Rightarrow> u8 list) \<Rightarrow> u8 list \<Rightarrow> u8 list \<Rightarrow> (nat \<times> u8 list \<times> u8 list) res" where
  "CRYPTO_nistcts128_decrypt_block path in_place block ivec inp =
     (if length inp < 16 then Inr (0, [], ivec)
      else
        let residue = length inp mod 16 in
        if residue = 0 then
          rbind (CRYPTO_cbc128_decrypt path in_place block ivec (length inp) inp) (\<lambda>(out, ivec1). Inr (length inp, out, ivec1))
        else
          let len = length inp - (16 + residue) in
          rbind (if len \<noteq> 0 then CRYPTO_cbc128_decrypt path in_place block ivec len inp else Inr ([], ivec)) (\<lambda>(out, ivec1).
          let rest = drop len inp;
              d = block (take 16 (drop residue rest));
              tmp = block (take residue rest @ drop residue d);
              o1 = map (\<lambda>n. tmp ! n XOR ivec1 ! n) [0..<16];
              o2 = map (\<lambda>n. d ! n XOR rest ! n) [0..<residue]
          in Inr (16 + len + (residue + 16), out @ o1 @ o2, take 16 (drop residue rest))))"

definition CRYPTO_cts128_decrypt :: "cbc128_f \<Rightarrow> u8 list \<Rightarrow> u8 list \<Rightarrow> nat \<times> u8 list \<times> u8 list" where
  "CRYPTO_cts128_decrypt cbc ivec inp =
     (if length inp \<le> 16 then (0, [], ivec)
      else
        let residue = (if length inp mod 16 = 0 then 16 else length inp mod 16);
            len = length inp - (16 + residue);
            (out, ivec1) = (if len \<noteq> 0 then cbc False ivec (take len inp) else ([], ivec));
            rest = drop len inp;
            (d, tmp16) = cbc False (replicate 16 0) (take 16 rest);
            tmp = take residue (drop 16 rest) @ drop residue d @ tmp16;
            (tmp2, ivec2) = cbc False ivec1 tmp
        in (16 + len + residue, out @ take (16 + residue) tmp2, ivec2))"

definition CRYPTO_nistcts128_decrypt :: "cbc128_f \<Rightarrow> u8 list \<Rightarrow> u8 list \<Rightarrow> nat \<times> u8 list \<times> u8 list" where
  "CRYPTO_nistcts128_decrypt cbc ivec inp =
     (if length inp < 16 then (0, [], ivec)
      else
        let residue = length inp mod 16 in
        if residue = 0 then (let (out, ivec1) = cbc False ivec inp in (length inp, out, ivec1))
        else
          let len = length inp - (16 + residue);
              (out, ivec1) = (if len \<noteq> 0 then cbc False ivec (take len inp) else ([], ivec));
              rest = drop len inp;
              (d, tmp16) = cbc False (replicate 16 0) (take 16 (drop residue rest));
              tmp = take residue rest @ drop residue d @ tmp16;
              (tmp2, ivec2) = cbc False ivec1 tmp
          in (16 + len + residue, out @ take (16 + residue) tmp2, ivec2))"

end
