(* ===== verification/CBC_Props.thy ===== *)
theory CBC_Props
  imports CBC_Mode Stream_Props
begin

text \<open>
  CBC and ciphertext stealing: the compilation path and working in place make no difference, decryption undoes
  encryption from the same vector, and the variants built on a CBC routine agree with those built on the block
  function.  \<open>cipher128\<close> is the contract of a 128-bit block cipher.
\<close>

section \<open>The paths of CBC\<close>

lemma cbc_enc_bytes_Nil [simp]: "cbc_enc_bytes block iv [] = ([], iv)"
  by (simp add: cbc_enc_bytes.simps)

lemma cbc_dec_bytes_0 [simp]: "cbc_dec_bytes block iv 0 xs = Inr ([], iv)"
  by (simp add: cbc_dec_bytes.simps)

context block128 begin

lemma enc_step:
  assumes "length iv = 16" "16 \<le> length xs"
  shows "cbc_enc_bytes block iv xs =
     (let c = block (xorl (take 16 xs) iv); (out, iv') = cbc_enc_bytes block c (drop 16 xs) in (c @ out, iv'))"
proof -
  have "map (\<lambda>n. if n < length xs then xs ! n XOR iv ! n else iv ! n) [0..<16] = xorl (take 16 xs) iv"
    using assms by (auto intro!: nth_equalityI)
  moreover have "xs \<noteq> []" using assms by auto
  ultimately show ?thesis
    using assms by (auto simp: cbc_enc_bytes.simps [of block iv xs] cbc_enc_bytes.simps [of block _ "[]"] Let_def)
qed

lemma enc_blocks:
  assumes "\<And>a b. length a = 16 \<Longrightarrow> length b = 16 \<Longrightarrow> xorf a b = xorl a b" "length iv = 16"
  shows "(let (out, iv1, rest) = cbc_enc_blocks xorf block iv xs; (out2, iv2) = cbc_enc_bytes block iv1 rest in (out @ out2, iv2))
         = cbc_enc_bytes block iv xs"
  using assms(2)
proof (induction xs arbitrary: iv rule: length_induct)
  case (1 xs)
  show ?case
  proof (cases "length xs < 16")
    case True
    then show ?thesis by (simp add: cbc_enc_blocks.simps)
  next
    case False
    let ?c = "block (xorl (take 16 xs) iv)"
    have c: "length ?c = 16" using False 1(2) by (intro length_block) simp
    have x: "xorf (take 16 xs) iv = xorl (take 16 xs) iv" using False 1(2) by (intro assms(1)) simp_all
    have "length (drop 16 xs) < length xs" using False by simp
    from 1(1)[rule_format, OF this c] enc_step [OF 1(2), of xs] False x show ?thesis
      by (simp add: cbc_enc_blocks.simps [of xorf block iv xs] Let_def split: prod.splits)
  qed
qed

lemma cbc_encrypt_bytes:
  assumes "length iv = 16" shows "CRYPTO_cbc128_encrypt p block iv xs = cbc_enc_bytes block iv xs"
proof (cases "xs = []")
  case True
  then show ?thesis by (simp add: CRYPTO_cbc128_encrypt_def cbc_enc_bytes.simps)
next
  case False
  with enc_blocks [of "bytes16 (XOR)" iv xs] enc_blocks [of "words16 (XOR)" iv xs] assms show ?thesis
    by (cases p) (simp_all add: CRYPTO_cbc128_encrypt_def byte_simps)
qed

lemma dec_step:
  assumes "length iv = 16" "16 \<le> len" "16 \<le> length xs"
  shows "cbc_dec_bytes block iv len xs =
     rbind (cbc_dec_bytes block (take 16 xs) (len - 16) (drop 16 xs)) (\<lambda>(o2, r). Inr (xorl (block (take 16 xs)) iv @ o2, r))"
proof -
  have "length (block (take 16 xs)) = 16" using assms by (intro length_block) simp
  then have "map (\<lambda>n. block (take 16 xs) ! n XOR iv ! n) [0..<16] = xorl (block (take 16 xs)) iv"
    using assms by (auto intro!: nth_equalityI)
  with assms show ?thesis
    by (auto simp: cbc_dec_bytes.simps [of block iv len xs] cbc_dec_bytes.simps [of block _ 0] Let_def min_def)
qed

lemma dec_blocks:
  assumes "\<And>a b. length a = 16 \<Longrightarrow> length b = 16 \<Longrightarrow> step a b = (xorl (block a) b, a)" "length iv = 16"
  shows "rbind (cbc_dec_blocks step iv len xs) (\<lambda>(out, iv1, len1, rest).
           rbind (cbc_dec_bytes block iv1 len1 rest) (\<lambda>(out2, iv2). Inr (out @ out2, iv2)))
         = cbc_dec_bytes block iv len xs"
  using assms(2)
proof (induction len arbitrary: iv xs rule: less_induct)
  case (less len)
  show ?case
  proof (cases "len < 16 \<or> length xs < 16")
    case True
    show ?thesis
    proof (cases "len < 16")
      case True
      then show ?thesis
        by (cases "cbc_dec_bytes block iv len xs") (auto simp: cbc_dec_blocks.simps [of step iv len xs])
    next
      case f: False
      with True have "length xs < 16" "len \<noteq> 0" by auto
      with f show ?thesis
        by (simp add: cbc_dec_blocks.simps [of step iv len xs] cbc_dec_bytes.simps [of block iv len xs])
    qed
  next
    case False
    let ?a = "take 16 xs" and ?b = "drop 16 xs"
    have s: "step ?a iv = (xorl (block ?a) iv, ?a)" using False less.prems by (intro assms(1)) simp_all
    have IH: "rbind (cbc_dec_blocks step ?a (len - 16) ?b) (\<lambda>(out, iv1, len1, rest).
           rbind (cbc_dec_bytes block iv1 len1 rest) (\<lambda>(out2, iv2). Inr (out @ out2, iv2))) = cbc_dec_bytes block ?a (len - 16) ?b"
      using less.IH [of "len - 16" ?a ?b] False by simp
    have "cbc_dec_blocks step iv len xs = rbind (cbc_dec_blocks step ?a (len - 16) ?b) (\<lambda>(o2, r). Inr (xorl (block ?a) iv @ o2, r))"
      using s False by (simp add: cbc_dec_blocks.simps [of step iv len xs])
    then show ?thesis
      using dec_step [OF less.prems, of len xs] False IH [symmetric]
      by (cases "cbc_dec_blocks step ?a (len - 16) ?b") (auto simp: rbind_def split: sum.splits prod.splits)
  qed
qed

lemma cbc_decrypt_bytes:
  assumes "length iv = 16"
  shows "CRYPTO_cbc128_decrypt p in_place block iv len xs = cbc_dec_bytes block iv len xs"
proof (cases "len = 0")
  case True
  then show ?thesis by (simp add: CRYPTO_cbc128_decrypt_def cbc_dec_bytes.simps)
next
  case False
  have l: "step a b = (xorl (block a) b, a)"
    if "step \<in> {dec_step_bytes block, dec_step_far (bytes16 (XOR)) block, dec_step_words block, dec_step_far (words16 (XOR)) block}"
      "length a = 16" "length b = 16" for step a b
    using that by (auto simp: dec_step_bytes_def dec_step_words_def dec_step_far_def byte_simps length_block intro!: nth_equalityI)
  from l have "rbind (cbc_dec_blocks step iv len xs) (\<lambda>(out, iv1, len1, rest).
           rbind (cbc_dec_bytes block iv1 len1 rest) (\<lambda>(out2, iv2). Inr (out @ out2, iv2))) = cbc_dec_bytes block iv len xs"
    if "step \<in> {dec_step_bytes block, dec_step_far (bytes16 (XOR)) block, dec_step_words block, dec_step_far (words16 (XOR)) block}" for step
    using that assms by (intro dec_blocks) blast+
  then show ?thesis
    using False by (cases p; cases in_place; cases "cbc_dec_bytes block iv len xs") (auto simp: CRYPTO_cbc128_decrypt_def)
qed

lemma cbc_enc_append:
  assumes "length iv = 16" "16 dvd length a"
  shows "cbc_enc_bytes block iv (a @ b) =
    (let (out, iv') = cbc_enc_bytes block iv a; (out2, iv2) = cbc_enc_bytes block iv' b in (out @ out2, iv2))"
  using assms
proof (induction a arbitrary: iv rule: length_induct)
  case (1 a)
  show ?case
  proof (cases "a = []")
    case True
    then show ?thesis by (simp add: cbc_enc_bytes.simps [of block iv "[]"])
  next
    case False
    with 1(3) have l: "16 \<le> length a" by (auto dest: dvd_imp_le)
    let ?c = "block (xorl (take 16 a) iv)"
    have c: "length ?c = 16" using l 1(2) by (intro length_block) simp
    have "16 dvd length (drop 16 a)" using 1(3) l by simp
    moreover have "length (drop 16 a) < length a" using l by simp
    ultimately show ?thesis
      using 1(1)[rule_format, OF _ c, of "drop 16 a"] enc_step [OF 1(2), of a] enc_step [OF 1(2), of "a @ b"] l
      by (simp add: Let_def split: prod.splits)
  qed
qed

lemma length_cbc_enc:
  "length iv = 16 \<Longrightarrow> cbc_enc_bytes block iv xs = (c, iv') \<Longrightarrow>
     length c = 16 * ((length xs + 15) div 16) \<and> length iv' = 16 \<and> (xs \<noteq> [] \<longrightarrow> iv' = drop (length c - 16) c)"
proof (induction xs arbitrary: iv c rule: length_induct)
  case (1 xs)
  show ?case
  proof (cases "length xs < 16")
    case True
    show ?thesis
    proof (cases "xs = []")
      case False
      then obtain k where "length xs = Suc k" by (cases xs) auto
      with True have "(length xs + 15) div 16 = 1" by simp
      with True False show ?thesis
        using 1(2,3) length_block [of "map (\<lambda>n. if n < length xs then xs ! n XOR iv ! n else iv ! n) [0..<16]"]
        by (auto simp: cbc_enc_bytes.simps [of block iv xs] Let_def)
    qed (use 1(2,3) in auto)
  next
    case False
    let ?b = "block (xorl (take 16 xs) iv)"
    have b: "length ?b = 16" using False 1(2) by (intro length_block) simp
    obtain o2 where r: "cbc_enc_bytes block ?b (drop 16 xs) = (o2, iv')" "c = ?b @ o2"
      using enc_step [OF 1(2), of xs] False 1(3) by (auto simp: Let_def split: prod.splits)
    have "length (drop 16 xs) < length xs" using False by simp
    note IH = 1(1)[rule_format, OF this b r(1)]
    have "(length xs + 15) div 16 = Suc ((length (drop 16 xs) + 15) div 16)" using False by (simp add: le_div_geq)
    with IH r b False show ?thesis
      by (cases "drop 16 xs = []") (auto simp: cbc_enc_bytes.simps [of block _ "[]"])
  qed
qed

end

section \<open>A block cipher\<close>

locale cipher128 = enc: block128 E + dec: block128 D
  for E D :: "u8 list \<Rightarrow> u8 list" +
  assumes D_E: "length b = 16 \<Longrightarrow> D (E b) = b"
begin

lemma cbc_roundtrip_bytes:
  "length iv = 16 \<Longrightarrow> cbc_enc_bytes E iv xs = (c, iv') \<Longrightarrow> cbc_dec_bytes D iv (length xs) (c @ junk) = Inr (xs, iv')"
proof (induction xs arbitrary: iv c rule: length_induct)
  case (1 xs)
  show ?case
  proof (cases "length xs < 16")
    case True
    show ?thesis
    proof (cases "xs = []")
      case False
      let ?p = "map (\<lambda>n. if n < length xs then xs ! n XOR iv ! n else iv ! n) [0..<16]"
      have c: "c = E ?p" "iv' = E ?p" using True False 1(3) by (auto simp: cbc_enc_bytes.simps [of E iv xs] Let_def)
      have "map (\<lambda>n. ?p ! n XOR iv ! n) [0..<length xs] = xs"
        using True by (intro nth_equalityI) simp_all
      moreover have "length (E ?p) = 16" "D (E ?p) = ?p" by (simp_all add: enc.length_block D_E)
      ultimately show ?thesis
        using True False c by (simp add: cbc_dec_bytes.simps [of D iv "length xs"] Let_def min_def)
    qed (use 1(3) in simp)
  next
    case False
    let ?x = "xorl (take 16 xs) iv"
    have b: "length (E ?x) = 16" "D (E ?x) = ?x" using False 1(2) by (intro enc.length_block D_E, simp)+
    obtain o2 where r: "cbc_enc_bytes E (E ?x) (drop 16 xs) = (o2, iv')" "c = E ?x @ o2"
      using enc.enc_step [OF 1(2), of xs] False 1(3) by (auto simp: Let_def split: prod.splits)
    have "length (drop 16 xs) < length xs" using False by simp
    from 1(1)[rule_format, OF this b(1) r(1)] dec.dec_step [OF 1(2), of "length xs" "c @ junk"] r(2) b False 1(2)
    show ?thesis by simp
  qed
qed

lemma cbc_roundtrip:
  "length iv = 16 \<Longrightarrow> CRYPTO_cbc128_encrypt p E iv xs = (c, iv') \<Longrightarrow>
     CRYPTO_cbc128_decrypt p' in_place D iv (length xs) (c @ junk) = Inr (xs, iv')"
  using cbc_roundtrip_bytes by (simp add: enc.cbc_encrypt_bytes dec.cbc_decrypt_bytes)

end

section \<open>Ciphertext stealing\<close>

lemma cts_split:
  assumes "16 < length inp"
  obtains A B T where "inp = A @ B @ T" "16 dvd length A" "length B = 16" "0 < length T" "length T \<le> 16"
    "(if length inp mod 16 = 0 then 16 else length inp mod 16) = length T"
proof -
  define r where "r = (if length inp mod 16 = 0 then 16 else length inp mod 16)"
  define a where "a = length inp - r - 16"
  have r: "0 < r" "r \<le> 16" by (auto simp: r_def)
  have "16 dvd length inp - r"
  proof (cases "length inp mod 16 = 0")
    case True
    then show ?thesis using dvd_diff_nat [of 16 "length inp" 16] by (simp add: r_def dvd_eq_mod_eq_0)
  next
    case False
    then show ?thesis using minus_mod_eq_mult_div [of "length inp" 16] by (simp add: r_def)
  qed
  moreover have "16 \<le> length inp - r"
  proof -
    have "0 < length inp - r" using assms r by linarith
    then show ?thesis using calculation by (rule dvd_imp_le [rotated])
  qed
  ultimately have a: "16 dvd a" "length inp = a + 16 + r"
    unfolding a_def using r dvd_diff_nat [of 16 "length inp - r" 16] by simp_all
  show ?thesis
  proof
    show "inp = take a inp @ take 16 (drop a inp) @ drop (a + 16) inp"
      by (metis append_take_drop_id drop_drop add.commute)
    have "length (drop (a + 16) inp) = r" using a by simp
    then show "(if length inp mod 16 = 0 then 16 else length inp mod 16) = length (drop (a + 16) inp)"
      by (simp only: r_def)
  qed (use a r in simp_all)
qed

lemma xor_prefix_eq:
  "length T \<le> length iv \<Longrightarrow> xor_prefix (length T) iv T = xorl (take (length T) iv) T @ drop (length T) iv"
  by (auto simp: xor_prefix_def nth_append intro!: nth_equalityI)

context block128 begin

lemma enc_one: "length iv = 16 \<Longrightarrow> length B = 16 \<Longrightarrow> cbc_enc_bytes block iv B = (block (xorl B iv), block (xorl B iv))"
  using enc_step [of iv B] by (simp add: Let_def)

lemma enc_one_more:
  assumes "length iv = 16" "16 dvd length A" "length B = 16" "cbc_enc_bytes block iv A = (cA, ivA)"
  shows "cbc_enc_bytes block iv (A @ B) = (cA @ block (xorl B ivA), block (xorl B ivA))"
  using cbc_enc_append [OF assms(1,2), of B] assms length_cbc_enc [OF assms(1,4)] by (simp add: enc_one)

lemma cts_encrypt_block:
  assumes "length iv = 16" "16 dvd length A" "length B = 16" "0 < length T" "length T \<le> 16"
    and "cbc_enc_bytes block iv A = (cA, ivA)"
    and "(if length (A @ B @ T) mod 16 = 0 then 16 else length (A @ B @ T) mod 16) = length T"
  shows "CRYPTO_cts128_encrypt_block p block iv (A @ B @ T) =
    (let cB = block (xorl B ivA); w = block (xor_prefix (length T) cB T)
     in (length (A @ B @ T), cA @ w @ take (length T) cB, w))"
proof -
  have l: "length cA = length A" using length_cbc_enc [OF assms(1,6)] assms(2) by auto
  have "CRYPTO_cbc128_encrypt p block iv (A @ B) = (cA @ block (xorl B ivA), block (xorl B ivA))"
    using enc_one_more [OF assms(1-3,6)] assms(1) by (simp add: cbc_encrypt_bytes)
  then show ?thesis
    using assms(3,4) l unfolding CRYPTO_cts128_encrypt_block_def assms(7) by (simp add: Let_def)
qed

lemma cts_decrypt_block:
  assumes "length iv = 16" "16 dvd length cA" "length w = 16" "0 < length u" "length u \<le> 16"
    and "cbc_dec_bytes block iv (length cA) (cA @ w @ u) = Inr (out, ivA)"
    and "(if length (cA @ w @ u) mod 16 = 0 then 16 else length (cA @ w @ u) mod 16) = length u"
  shows "CRYPTO_cts128_decrypt_block p in_place block iv (cA @ w @ u) =
    (let d = block w; tmp = block (u @ drop (length u) d)
     in Inr (length (cA @ w @ u) + 16, out @ map (\<lambda>n. tmp ! n XOR ivA ! n) [0..<16] @ map (\<lambda>n. d ! n XOR u ! n) [0..<length u], w))"
proof -
  have c: "(if length cA \<noteq> 0 then CRYPTO_cbc128_decrypt p in_place block iv (length cA) (cA @ w @ u) else Inr ([], iv)) = Inr (out, ivA)"
    using assms(1,6) by (auto simp: cbc_decrypt_bytes)
  have "\<not> length (cA @ w @ u) \<le> 16" "length (cA @ w @ u) - (16 + length u) = length cA" using assms(3,4) by auto
  moreover have "map (\<lambda>n. block w ! n XOR (w @ u) ! (16 + n)) [0..<length u] = map (\<lambda>n. block w ! n XOR u ! n) [0..<length u]"
    using assms(3) by (simp add: nth_append)
  ultimately show ?thesis
    using assms(3) unfolding CRYPTO_cts128_decrypt_block_def assms(7) Let_def
    by (simp only: c rbind_simps prod.case if_False) simp
qed

end

context cipher128 begin

text \<open>The heart of both forms: the stolen bytes are recovered from the decryption of the last block.\<close>

lemma steal:
  assumes "length B = 16" "length ivA = 16" "length T \<le> 16"
    and "cB = E (xorl B ivA)" "w = E (xor_prefix (length T) cB T)" "u = take (length T) cB"
  shows "length w = 16" "length cB = 16" "map (\<lambda>n. D w ! n XOR u ! n) [0..<length T] = T"
    "map (\<lambda>n. D (u @ drop (length T) (D w)) ! n XOR ivA ! n) [0..<16] = B"
proof -
  have cB: "length cB = 16" unfolding assms(4) by (rule enc.length_block) (simp add: assms)
  have p: "xor_prefix (length T) cB T = xorl u T @ drop (length T) cB"
    using assms(3,6) cB by (simp add: xor_prefix_eq)
  have "length (xor_prefix (length T) cB T) = 16" using cB by (simp add: xor_prefix_def)
  then have w: "length w = 16" "D w = xorl u T @ drop (length T) cB"
    unfolding assms(5) using p by (simp_all add: enc.length_block D_E)
  show "length w = 16" "length cB = 16" by fact+
  show "map (\<lambda>n. D w ! n XOR u ! n) [0..<length T] = T"
    using w(2) cB assms(3,6) by (intro nth_equalityI) (simp_all add: nth_append)
  have "u @ drop (length T) (D w) = cB" using w(2) cB assms(3,6) by simp
  then have "D (u @ drop (length T) (D w)) = xorl B ivA" unfolding assms(4) by (simp add: D_E assms(1,2))
  then show "map (\<lambda>n. D (u @ drop (length T) (D w)) ! n XOR ivA ! n) [0..<16] = B"
    using assms(1,2) by (intro nth_equalityI) simp_all
qed

lemma cts_roundtrip:
  assumes "length iv = 16" "16 < length inp"
  shows "\<exists>c iv'. CRYPTO_cts128_encrypt_block p E iv inp = (length inp, c, iv') \<and> length c = length inp
    \<and> CRYPTO_cts128_decrypt_block p' in_place D iv c = Inr (length inp + 16, inp, iv')"
proof -
  obtain A B T where s: "inp = A @ B @ T" "16 dvd length A" "length B = 16" "0 < length T" "length T \<le> 16"
    "(if length inp mod 16 = 0 then 16 else length inp mod 16) = length T"
    using cts_split [OF assms(2)] .
  obtain cA ivA where a: "cbc_enc_bytes E iv A = (cA, ivA)" by fastforce
  define cB where "cB = E (xorl B ivA)"
  define w where "w = E (xor_prefix (length T) cB T)"
  define u where "u = take (length T) cB"
  have l: "length cA = length A" "length ivA = 16" using enc.length_cbc_enc [OF assms(1) a] s(2) by auto
  note st = steal [OF s(3) l(2) s(5) cB_def w_def u_def]
  have e: "CRYPTO_cts128_encrypt_block p E iv inp = (length inp, cA @ w @ u, w)"
    using enc.cts_encrypt_block [OF assms(1) s(2-5) a s(6) [unfolded s(1)]] s(1) by (simp add: Let_def cB_def w_def u_def)
  have u: "length u = length T" using st(2) s(5) by (simp add: u_def)
  have li: "length (cA @ w @ u) = length inp" using st(1) u l(1) s(1,3) by simp
  have "CRYPTO_cts128_decrypt_block p' in_place D iv (cA @ w @ u) = Inr (length inp + 16, inp, w)"
    using dec.cts_decrypt_block [OF assms(1) s(2) [folded l(1)] st(1) _ _ cbc_roundtrip_bytes [OF assms(1) a, of "w @ u", folded l(1)], of p' in_place]
      u s(1,4,5) li st(3,4) s(6) by (simp only: li Let_def)
  with e li show ?thesis by blast
qed

end

context block128 begin

lemma nist_encrypt_block:
  assumes "length iv = 16" "16 dvd length A" "length B = 16" "0 < length T" "length T < 16"
    and "cbc_enc_bytes block iv A = (cA, ivA)"
  shows "CRYPTO_nistcts128_encrypt_block p block iv (A @ B @ T) =
    (let cB = block (xorl B ivA); w = block (xor_prefix (length T) cB T)
     in (length (A @ B @ T), cA @ take (length T) cB @ w, w))"
proof -
  have l: "length cA = length A" "length ivA = 16" using length_cbc_enc [OF assms(1,6)] assms(2) by auto
  have "CRYPTO_cbc128_encrypt p block iv (A @ B) = (cA @ block (xorl B ivA), block (xorl B ivA))"
    using enc_one_more [OF assms(1-3,6)] assms(1) by (simp add: cbc_encrypt_bytes)
  moreover have "length (A @ B @ T) mod 16 = length T"
    using assms(2,3,5) by (auto elim!: dvdE)
  ultimately show ?thesis
    using assms(3,4) l(1) unfolding CRYPTO_nistcts128_encrypt_block_def by (simp add: Let_def)
qed

lemma nist_decrypt_block:
  assumes "length iv = 16" "16 dvd length cA" "length w = 16" "0 < length u" "length u < 16"
    and "cbc_dec_bytes block iv (length cA) (cA @ u @ w) = Inr (out, ivA)"
  shows "CRYPTO_nistcts128_decrypt_block p in_place block iv (cA @ u @ w) =
    (let d = block w; tmp = block (u @ drop (length u) d)
     in Inr (length (cA @ u @ w) + 16, out @ map (\<lambda>n. tmp ! n XOR ivA ! n) [0..<16] @ map (\<lambda>n. d ! n XOR u ! n) [0..<length u], w))"
proof -
  have c: "(if length cA \<noteq> 0 then CRYPTO_cbc128_decrypt p in_place block iv (length cA) (cA @ u @ w) else Inr ([], iv)) = Inr (out, ivA)"
    using assms(1,6) by (auto simp: cbc_decrypt_bytes)
  have r: "length (cA @ u @ w) mod 16 = length u" using assms(2,3,5) by (auto elim!: dvdE)
  have "\<not> length (cA @ u @ w) < 16" "length (cA @ u @ w) - (16 + length u) = length cA" "length u \<noteq> 0" using assms(3,4) by auto
  moreover have "map (\<lambda>n. block w ! n XOR (u @ w) ! n) [0..<length u] = map (\<lambda>n. block w ! n XOR u ! n) [0..<length u]"
    by (simp add: nth_append)
  ultimately show ?thesis
    using assms(3) unfolding CRYPTO_nistcts128_decrypt_block_def r Let_def
    by (simp only: c rbind_simps prod.case if_False) simp
qed

end

context cipher128 begin

lemma nist_roundtrip:
  assumes "length iv = 16" "16 \<le> length inp"
  shows "\<exists>c iv'. CRYPTO_nistcts128_encrypt_block p E iv inp = (length inp, c, iv') \<and> length c = length inp
    \<and> CRYPTO_nistcts128_decrypt_block p' in_place D iv c =
        Inr (if length inp mod 16 = 0 then length inp else length inp + 16, inp, iv')"
proof (cases "length inp mod 16 = 0")
  case True
  obtain c iv' where a: "cbc_enc_bytes E iv inp = (c, iv')" by fastforce
  have l: "length c = length inp" using enc.length_cbc_enc [OF assms(1) a] True by auto
  have "CRYPTO_nistcts128_encrypt_block p E iv inp = (length inp, c, iv')"
    using a assms True by (simp add: CRYPTO_nistcts128_encrypt_block_def enc.cbc_encrypt_bytes)
  moreover have "CRYPTO_nistcts128_decrypt_block p' in_place D iv c = Inr (length inp, inp, iv')"
    using cbc_roundtrip_bytes [OF assms(1) a, of "[]"] assms True l
    by (simp add: CRYPTO_nistcts128_decrypt_block_def dec.cbc_decrypt_bytes)
  ultimately show ?thesis using l True by auto
next
  case False
  then have "16 < length inp" using assms(2) by (cases "length inp = 16") auto
  then obtain A B T where s: "inp = A @ B @ T" "16 dvd length A" "length B = 16" "0 < length T" "length T \<le> 16"
    "(if length inp mod 16 = 0 then 16 else length inp mod 16) = length T"
    using cts_split by blast
  from s(6) False have t: "length T < 16" by auto
  obtain cA ivA where a: "cbc_enc_bytes E iv A = (cA, ivA)" by fastforce
  define cB where "cB = E (xorl B ivA)"
  define w where "w = E (xor_prefix (length T) cB T)"
  define u where "u = take (length T) cB"
  have l: "length cA = length A" "length ivA = 16" using enc.length_cbc_enc [OF assms(1) a] s(2) by auto
  note st = steal [OF s(3) l(2) s(5) cB_def w_def u_def]
  have e: "CRYPTO_nistcts128_encrypt_block p E iv inp = (length inp, cA @ u @ w, w)"
    using enc.nist_encrypt_block [OF assms(1) s(2-4) t a] s(1) by (simp add: Let_def cB_def w_def u_def)
  have u: "length u = length T" using st(2) s(5) by (simp add: u_def)
  have li: "length (cA @ u @ w) = length inp" using st(1) u l(1) s(1,3) by simp
  have "CRYPTO_nistcts128_decrypt_block p' in_place D iv (cA @ u @ w) = Inr (length inp + 16, inp, w)"
    using dec.nist_decrypt_block [OF assms(1) s(2) [folded l(1)] st(1) _ _ cbc_roundtrip_bytes [OF assms(1) a, of "u @ w", folded l(1)], of p' in_place]
      u s(1,4) t li st(3,4) by (simp only: li Let_def)
  with e li False show ?thesis by auto
qed

end

section \<open>The variants on a CBC routine\<close>

text \<open>The law of the routine: on whole blocks it is CBC.\<close>

definition cbc_law :: "(u8 list \<Rightarrow> u8 list) \<Rightarrow> (u8 list \<Rightarrow> u8 list) \<Rightarrow> cbc128_f \<Rightarrow> bool" where
  "cbc_law E D cbc \<longleftrightarrow> (\<forall>iv xs. length iv = 16 \<longrightarrow> 16 dvd length xs \<longrightarrow>
     cbc True iv xs = CRYPTO_cbc128_encrypt Small_footprint E iv xs \<and>
     Inr (cbc False iv xs) = CRYPTO_cbc128_decrypt Small_footprint False D iv (length xs) xs)"

context cipher128 begin

lemma cbc_lawD:
  assumes "cbc_law E D cbc" "length iv = 16" "16 dvd length xs"
  shows "cbc True iv xs = cbc_enc_bytes E iv xs" "Inr (cbc False iv xs) = cbc_dec_bytes D iv (length xs) xs"
  using assms unfolding cbc_law_def by (simp_all add: enc.cbc_encrypt_bytes dec.cbc_decrypt_bytes)

lemma cbc_zero_pad:
  assumes "cbc_law E D cbc" "length cB = 16" "length T \<le> 16"
  shows "cbc True cB (T @ replicate (16 - length T) 0) = (let w = E (xor_prefix (length T) cB T) in (w, w))"
proof -
  have "xorl (T @ replicate (16 - length T) 0) cB = xor_prefix (length T) cB T"
    using assms(2,3) by (intro nth_equalityI) (auto simp: xor_prefix_def nth_append xor.commute)
  then show ?thesis
    using cbc_lawD(1) [OF assms(1,2), of "T @ replicate (16 - length T) 0"] assms(2,3) by (simp add: enc.enc_one Let_def)
qed

lemma cts_encrypt_same:
  assumes "cbc_law E D cbc" "length iv = 16"
  shows "CRYPTO_cts128_encrypt cbc iv inp = CRYPTO_cts128_encrypt_block p E iv inp"
proof (cases "16 < length inp")
  case True
  obtain A B T where s: "inp = A @ B @ T" "16 dvd length A" "length B = 16" "0 < length T" "length T \<le> 16"
    "(if length inp mod 16 = 0 then 16 else length inp mod 16) = length T"
    using cts_split [OF True] .
  obtain out iv1 where a: "cbc_enc_bytes E iv (A @ B) = (out, iv1)" by fastforce
  have "length iv1 = 16" using enc.length_cbc_enc [OF assms(2) a] by simp
  note z = cbc_zero_pad [OF assms(1) this s(5)]
  have c: "cbc True iv (take (length inp - length T) inp) = (out, iv1)" "drop (length inp - length T) inp = T"
    using cbc_lawD(1) [OF assms, of "A @ B"] s a by simp_all
  have "CRYPTO_cbc128_encrypt p E iv (take (length inp - length T) inp) = (out, iv1)"
    using a s assms(2) by (simp add: enc.cbc_encrypt_bytes)
  with c z True show ?thesis
    unfolding CRYPTO_cts128_encrypt_def CRYPTO_cts128_encrypt_block_def s(6) by (simp add: Let_def)
qed (simp add: CRYPTO_cts128_encrypt_def CRYPTO_cts128_encrypt_block_def)

lemma nist_encrypt_same:
  assumes "cbc_law E D cbc" "length iv = 16"
  shows "CRYPTO_nistcts128_encrypt cbc iv inp = CRYPTO_nistcts128_encrypt_block p E iv inp"
proof -
  let ?r = "length inp mod 16"
  let ?A = "take (length inp - ?r) inp" and ?T = "drop (length inp - ?r) inp"
  obtain out iv1 where a: "cbc_enc_bytes E iv ?A = (out, iv1)" by fastforce
  have d: "16 dvd length ?A" "length ?T = ?r" using dvd_minus_mod [of 16 "length inp"] by simp_all
  have "length iv1 = 16" using enc.length_cbc_enc [OF assms(2) a] by simp
  note z = cbc_zero_pad [OF assms(1) this, of ?T, unfolded d(2)]
  have "cbc True iv ?A = (out, iv1)" "CRYPTO_cbc128_encrypt p E iv ?A = (out, iv1)"
    using cbc_lawD(1) [OF assms d(1)] a assms(2) by (simp_all add: enc.cbc_encrypt_bytes)
  with z show ?thesis
    unfolding CRYPTO_nistcts128_encrypt_def CRYPTO_nistcts128_encrypt_block_def by (simp add: Let_def)
qed

end

context block128 begin

lemma dec_total:
  assumes "length iv = 16" "16 dvd length a"
  shows "\<exists>out iv'. length iv' = 16 \<and> (\<forall>junk. cbc_dec_bytes block iv (length a) (a @ junk) = Inr (out, iv'))"
  using assms
proof (induction a arbitrary: iv rule: length_induct)
  case (1 a)
  show ?case
  proof (cases "a = []")
    case False
    with 1(3) have l: "16 \<le> length a" by (auto dest: dvd_imp_le)
    have "16 dvd length (drop 16 a)" "length (drop 16 a) < length a" using 1(3) l by simp_all
    then obtain o2 iv' where "length iv' = 16"
        "\<forall>junk. cbc_dec_bytes block (take 16 a) (length (drop 16 a)) (drop 16 a @ junk) = Inr (o2, iv')"
      using 1(1)[rule_format, of "drop 16 a" "take 16 a"] l by auto
    with dec_step [OF 1(2), of "length a"] l show ?thesis by auto
  qed (use 1(2) in simp)
qed

lemma dec_one: "length iv = 16 \<Longrightarrow> length w = 16 \<Longrightarrow> cbc_dec_bytes block iv 16 w = Inr (xorl (block w) iv, w)"
  using dec_step [of iv 16 w] by simp

lemma dec_two:
  "length iv = 16 \<Longrightarrow> length v = 16 \<Longrightarrow> length w = 16 \<Longrightarrow>
     cbc_dec_bytes block iv 32 (v @ w) = Inr (xorl (block v) iv @ xorl (block w) v, w)"
  using dec_step [of iv 32 "v @ w"] dec_one [of v w] by simp

lemma xorl_zero: "length a = 16 \<Longrightarrow> xorl a (replicate 16 0) = a"
  by (auto intro!: nth_equalityI)

lemma stolen_bytes:
  assumes "length ivA = 16" "length w = 16" "length u \<le> 16" "v = u @ drop (length u) (block w)"
  shows "length v = 16"
    "take (16 + length u) (xorl (block v) ivA @ xorl (block w) v) =
       map (\<lambda>n. block v ! n XOR ivA ! n) [0..<16] @ map (\<lambda>n. block w ! n XOR u ! n) [0..<length u]"
proof -
  have w: "length (block w) = 16" using assms(2) by (rule length_block)
  then show v: "length v = 16" using assms by simp
  then have bv: "length (block v) = 16" by (rule length_block)
  have "take (length u) (xorl (block w) v) = map (\<lambda>n. block w ! n XOR u ! n) [0..<length u]"
    using w v assms(3,4) by (intro nth_equalityI) (simp_all add: nth_append)
  moreover have "xorl (block v) ivA = map (\<lambda>n. block v ! n XOR ivA ! n) [0..<16]"
    using bv assms(1) by (intro nth_equalityI) simp_all
  ultimately show "take (16 + length u) (xorl (block v) ivA @ xorl (block w) v) =
       map (\<lambda>n. block v ! n XOR ivA ! n) [0..<16] @ map (\<lambda>n. block w ! n XOR u ! n) [0..<length u]"
    using bv assms(1) by simp
qed

end

context cipher128 begin

text \<open>The CBC routine on the rearranged last two blocks.\<close>

lemma cbc_last_blocks:
  assumes "cbc_law E D cbc" "length ivA = 16" "length w = 16" "length u \<le> 16" "v = u @ drop (length u) (D w)"
  shows "cbc False (replicate 16 0) w = (D w, w)"
    "\<exists>out. cbc False ivA (v @ w) = (out, w) \<and> take (16 + length u) out =
       map (\<lambda>n. D v ! n XOR ivA ! n) [0..<16] @ map (\<lambda>n. D w ! n XOR u ! n) [0..<length u]"
proof -
  note sb = dec.stolen_bytes [OF assms(2-5)]
  have "Inr (cbc False (replicate 16 0) w) = (Inr (D w, w) :: (u8 list \<times> u8 list) res)"
    using cbc_lawD(2) [OF assms(1), of "replicate 16 0" w] dec.dec_one [of "replicate 16 0" w] assms(3)
    by (simp add: dec.xorl_zero dec.length_block)
  then show "cbc False (replicate 16 0) w = (D w, w)" by simp
  have "Inr (cbc False ivA (v @ w)) = (Inr (xorl (D v) ivA @ xorl (D w) v, w) :: (u8 list \<times> u8 list) res)"
    using cbc_lawD(2) [OF assms(1,2), of "v @ w"] dec.dec_two [OF assms(2) sb(1) assms(3)] sb(1) assms(3) by simp
  with sb(2) show "\<exists>out. cbc False ivA (v @ w) = (out, w) \<and> take (16 + length u) out =
       map (\<lambda>n. D v ! n XOR ivA ! n) [0..<16] @ map (\<lambda>n. D w ! n XOR u ! n) [0..<length u]" by simp
qed

lemma cbc_prefix:
  assumes "cbc_law E D cbc" "length iv = 16" "16 dvd length a"
  obtains out iv' where "length iv' = 16" "(if length a \<noteq> 0 then cbc False iv a else ([], iv)) = (out, iv')"
    "\<And>junk. cbc_dec_bytes D iv (length a) (a @ junk) = Inr (out, iv')"
proof -
  obtain out iv' where o: "length iv' = 16" "\<forall>junk. cbc_dec_bytes D iv (length a) (a @ junk) = Inr (out, iv')"
    using dec.dec_total [OF assms(2,3)] by blast
  then have "Inr (cbc False iv a) = (Inr (out, iv') :: (u8 list \<times> u8 list) res)"
    using cbc_lawD(2) [OF assms] spec [OF o(2), of "[]"] by simp
  with o show ?thesis by (intro that [of iv' out]) auto
qed

lemma cts_decrypt_same:
  assumes "cbc_law E D cbc" "length iv = 16" "16 < length inp"
  shows "\<exists>out iv'. CRYPTO_cts128_decrypt cbc iv inp = (length inp, out, iv')
    \<and> CRYPTO_cts128_decrypt_block p in_place D iv inp = Inr (length inp + 16, out, iv')"
proof -
  obtain A w u where s: "inp = A @ w @ u" "16 dvd length A" "length w = 16" "0 < length u" "length u \<le> 16"
    "(if length inp mod 16 = 0 then 16 else length inp mod 16) = length u"
    using cts_split [OF assms(3)] .
  obtain out iv' where o: "length iv' = 16" "(if length A \<noteq> 0 then cbc False iv A else ([], iv)) = (out, iv')"
    "\<And>junk. cbc_dec_bytes D iv (length A) (A @ junk) = Inr (out, iv')"
    by (rule cbc_prefix [OF assms(1,2) s(2)]) (rule that)
  define v where "v = u @ drop (length u) (D w)"
  define res where "res = out @ map (\<lambda>n. D v ! n XOR iv' ! n) [0..<16] @ map (\<lambda>n. D w ! n XOR u ! n) [0..<length u]"
  note lb = cbc_last_blocks [OF assms(1) o(1) s(3,5) v_def]
  obtain o2 where o2: "cbc False iv' (v @ w) = (o2, w)" "take (16 + length u) o2 =
       map (\<lambda>n. D v ! n XOR iv' ! n) [0..<16] @ map (\<lambda>n. D w ! n XOR u ! n) [0..<length u]"
    using lb(2) by blast
  have len: "length inp - (16 + length u) = length A" "16 + length A + length u = length inp" "\<not> length inp \<le> 16"
    using s(1,3) assms(3) by auto
  have "take (length A) inp = A" "drop (length A) inp = w @ u" using s(1) by simp_all
  moreover have "take 16 (w @ u) = w" "take (length u) (drop 16 (w @ u)) @ drop (length u) (D w) @ w = v @ w"
    using s(3) by (simp_all add: v_def)
  ultimately have "CRYPTO_cts128_decrypt cbc iv inp = (length inp, res, w)"
    unfolding CRYPTO_cts128_decrypt_def s(6) Let_def len(1)
    by (simp only: len o(2) lb(1) o2 prod.case if_False res_def)
  moreover have "CRYPTO_cts128_decrypt_block p in_place D iv inp = Inr (length inp + 16, res, w)"
    using dec.cts_decrypt_block [OF assms(2) s(2-5) o(3) s(6) [unfolded s(1)], of p in_place]
    by (simp only: s(1) [symmetric] Let_def v_def [symmetric] res_def)
  ultimately show ?thesis by blast
qed

lemma nist_decrypt_same:
  assumes "cbc_law E D cbc" "length iv = 16" "16 \<le> length inp"
  shows "\<exists>out iv'. CRYPTO_nistcts128_decrypt cbc iv inp = (length inp, out, iv')
    \<and> CRYPTO_nistcts128_decrypt_block p in_place D iv inp =
        Inr (if length inp mod 16 = 0 then length inp else length inp + 16, out, iv')"
proof (cases "length inp mod 16 = 0")
  case True
  then have "Inr (cbc False iv inp) = cbc_dec_bytes D iv (length inp) inp"
    using cbc_lawD(2) [OF assms(1,2), of inp] by auto
  then show ?thesis
    using True assms(2,3) by (cases "cbc False iv inp")
      (auto simp: CRYPTO_nistcts128_decrypt_def CRYPTO_nistcts128_decrypt_block_def dec.cbc_decrypt_bytes dest!: sym [of "Inr _"])
next
  case False
  let ?r = "length inp mod 16"
  define k where "k = length inp - (16 + ?r)"
  define A where "A = take k inp"
  define u where "u = take ?r (drop k inp)"
  define w where "w = take 16 (drop ?r (drop k inp))"
  have "16 < length inp" using assms(3) False by (cases "length inp = 16") auto
  then have ge: "16 + ?r \<le> length inp"
    using div_mult_mod_eq [of "length inp" 16] assms(3) by (cases "length inp div 16") auto
  have k: "length inp = k + 16 + ?r" "16 dvd k"
  proof -
    show "length inp = k + 16 + ?r" using ge by (simp add: k_def)
    have "16 dvd length inp - ?r - 16" using dvd_minus_mod [of 16 "length inp"] by (rule dvd_diff_nat) simp
    then show "16 dvd k" by (simp only: k_def diff_diff_left add.commute)
  qed
  have s: "inp = A @ u @ w" "length A = k" "length w = 16" "length u = ?r" "0 < length u" "length u < 16"
  proof -
    show l: "length A = k" "length w = 16" "length u = ?r" "0 < length u" "length u < 16"
      using k(1) False by (simp_all add: A_def w_def u_def)
    have "w = drop ?r (drop k inp)" using k(1) by (simp add: w_def)
    then show "inp = A @ u @ w" by (metis A_def u_def append_take_drop_id)
  qed
  have dA: "16 dvd length A" using s(2) k(2) by simp
  obtain out iv' where o: "length iv' = 16" "(if length A \<noteq> 0 then cbc False iv A else ([], iv)) = (out, iv')"
    "\<And>junk. cbc_dec_bytes D iv (length A) (A @ junk) = Inr (out, iv')"
    by (rule cbc_prefix [OF assms(1,2) dA]) (rule that)
  define v where "v = u @ drop (length u) (D w)"
  define res where "res = out @ map (\<lambda>n. D v ! n XOR iv' ! n) [0..<16] @ map (\<lambda>n. D w ! n XOR u ! n) [0..<length u]"
  note lb = cbc_last_blocks [OF assms(1) o(1) s(3) less_imp_le [OF s(6)] v_def]
  obtain o2 where o2: "cbc False iv' (v @ w) = (o2, w)" "take (16 + length u) o2 =
       map (\<lambda>n. D v ! n XOR iv' ! n) [0..<16] @ map (\<lambda>n. D w ! n XOR u ! n) [0..<length u]"
    using lb(2) by blast
  have len: "length inp - (16 + length u) = length A" "16 + length A + length u = length inp" "\<not> length inp < 16" "length u \<noteq> 0"
    using k(1) s(2,4,5) assms(3) by simp_all
  have "take (length A) inp = A" "drop (length A) inp = u @ w" using s(1) by simp_all
  moreover have "take (length u) (u @ w) = u" "take 16 (drop (length u) (u @ w)) = w" "u @ drop (length u) (D w) @ w = v @ w"
    using s(3) by (simp_all add: v_def)
  ultimately have "CRYPTO_nistcts128_decrypt cbc iv inp = (length inp, res, w)"
    unfolding CRYPTO_nistcts128_decrypt_def s(4) [symmetric] Let_def len(1)
    by (simp only: len o(2) lb(1) o2 prod.case if_False res_def)
  moreover have "CRYPTO_nistcts128_decrypt_block p in_place D iv inp = Inr (length inp + 16, res, w)"
    using dec.nist_decrypt_block [OF assms(2) dA s(3,5,6) o(3), of p in_place]
    by (simp only: s(1) [symmetric] Let_def v_def [symmetric] res_def)
  ultimately show ?thesis using False by auto
qed

end

lemma cipher128I:
  assumes "\<forall>b. length b = 16 \<longrightarrow> length (E b) = 16 \<and> length (D b) = 16 \<and> D (E b) = b"
  shows "cipher128 E D"
  using assms by unfold_locales simp_all

end
