(* ===== verification/CBC_Results.thy ===== *)
theory CBC_Results
  imports CBC_Props
begin

text \<open>What CBC and ciphertext stealing promise for any 128-bit block cipher.\<close>

text \<open>
  C30: CBC encryption gives the same blocks and vector on every compilation path and writes the
  length rounded up to whole blocks; decryption of that output, on any path, in place or not and with anything
  behind it in memory, returns the message, whatever its length, and the same vector.
\<close>

theorem cbc128_roundtrip:
  assumes "\<forall>b. length b = 16 \<longrightarrow> length (E b) = 16 \<and> length (D b) = 16 \<and> D (E b) = b" "length ivec = 16"
  shows "\<exists>c ivec'. CRYPTO_cbc128_encrypt p E ivec inp = (c, ivec')
    \<and> CRYPTO_cbc128_encrypt Small_footprint E ivec inp = (c, ivec')
    \<and> length c = 16 * ((length inp + 15) div 16)
    \<and> CRYPTO_cbc128_decrypt p' in_place D ivec (length inp) (c @ junk) = Inr (inp, ivec')"
proof -
  note cipher = cipher128I [OF assms(1)]
  note enc = cipher128.axioms(1) [OF cipher]
  obtain c ivec' where e: "cbc_enc_bytes E ivec inp = (c, ivec')" by fastforce
  then have "CRYPTO_cbc128_encrypt q E ivec inp = (c, ivec')" for q
    using block128.cbc_encrypt_bytes [OF enc assms(2)] by simp
  then show ?thesis
    using cipher128.cbc_roundtrip [OF cipher assms(2)] block128.length_cbc_enc [OF enc assms(2) e] by blast
qed

theorem cbc128_roundtrip_witness:
  "\<exists>c ivec'. CRYPTO_cbc128_encrypt Word_access rev (replicate 16 7) [1, 2, 3] = (c, ivec')
    \<and> CRYPTO_cbc128_encrypt Small_footprint rev (replicate 16 7) [1, 2, 3] = (c, ivec')
    \<and> length c = 16 \<and> CRYPTO_cbc128_decrypt Strict_unaligned True rev (replicate 16 7) 3 (c @ [9]) = Inr ([1, 2, 3], ivec')"
  using cbc128_roundtrip [of rev rev "replicate 16 7" Word_access "[1, 2, 3]" Strict_unaligned True "[9]"]
  by (simp add: numeral_3_eq_3)

text \<open>
  Decryption reads whole blocks: when the input buffer does not reach to the end of
  the block that holds the last byte asked for, every path reads past the end of the buffer.
\<close>

lemma cbc_dec_bytes_short:
  assumes "length iv = 16" "length inp < 16 * ((len + 15) div 16)"
    and "\<forall>b. length b = 16 \<longrightarrow> length (D b) = 16"
  shows "cbc_dec_bytes D iv len inp = Inl OutOfBounds"
  using assms(1,2)
proof (induction len arbitrary: iv inp rule: less_induct)
  case (less len)
  have z: "len \<noteq> 0" using less.prems by (cases len) auto
  show ?case
  proof (cases "length inp < 16")
    case True
    with z show ?thesis by (simp add: cbc_dec_bytes.simps)
  next
    case False
    have "16 < len"
    proof (rule ccontr)
      assume "\<not> 16 < len"
      then have "(len + 15) div 16 < 2" by (simp add: div_less_iff_less_mult)
      with less.prems False show False by simp
    qed
    moreover from this have "(len + 15) div 16 = Suc ((len - 16 + 15) div 16)" by (simp add: le_div_geq)
    ultimately have "cbc_dec_bytes D (take 16 inp) (len - 16) (drop 16 inp) = Inl OutOfBounds"
      using less.prems False by (intro less.IH) auto
    with \<open>16 < len\<close> False show ?thesis by (simp add: cbc_dec_bytes.simps [of D iv len inp] Let_def)
  qed
qed

theorem cbc128_reads_whole_blocks:
  assumes "\<forall>b. length b = 16 \<longrightarrow> length (D b) = 16" "length ivec = 16"
    and "length inp < 16 * ((len + 15) div 16)"
  shows "CRYPTO_cbc128_decrypt p in_place D ivec len inp = Inl OutOfBounds"
  using block128.cbc_decrypt_bytes [OF block128I [OF assms(1)] assms(2)] cbc_dec_bytes_short [OF assms(2,3,1)] by simp

theorem cbc128_reads_whole_blocks_witness:
  "CRYPTO_cbc128_decrypt Word_access True rev (replicate 16 7) 3 [1, 2, 3] = Inl OutOfBounds"
  using cbc128_reads_whole_blocks [of rev "replicate 16 7" "[1, 2, 3]" 3] by simp

text \<open>
  C31: both forms of ciphertext stealing keep the length of the message, and decryption by the
  block function gives back the message and the vector.  The length decryption returns is the length of the
  message plus 16 whenever bytes were stolen: the residue has already been raised by 16 when it is added.
\<close>

theorem cts128_roundtrip:
  assumes "\<forall>b. length b = 16 \<longrightarrow> length (E b) = 16 \<and> length (D b) = 16 \<and> D (E b) = b"
    and "length ivec = 16" "16 < length inp"
  shows "(\<exists>c ivec'. CRYPTO_cts128_encrypt_block p E ivec inp = (length inp, c, ivec') \<and> length c = length inp
      \<and> CRYPTO_cts128_decrypt_block p' in_place D ivec c = Inr (length inp + 16, inp, ivec'))
    \<and> (\<exists>c ivec'. CRYPTO_nistcts128_encrypt_block p E ivec inp = (length inp, c, ivec') \<and> length c = length inp
      \<and> CRYPTO_nistcts128_decrypt_block p' in_place D ivec c =
          Inr (if length inp mod 16 = 0 then length inp else length inp + 16, inp, ivec'))"
  using cipher128.cts_roundtrip [OF cipher128I [OF assms(1)] assms(2,3)]
    cipher128.nist_roundtrip [OF cipher128I [OF assms(1)] assms(2) less_imp_le [OF assms(3)]] by blast

theorem cts128_roundtrip_witness:
  "\<exists>c ivec'. CRYPTO_cts128_encrypt_block Word_access rev (replicate 16 7) (replicate 20 3) = (20, c, ivec') \<and> length c = 20
     \<and> CRYPTO_cts128_decrypt_block Word_access True rev (replicate 16 7) c = Inr (36, replicate 20 3, ivec')"
  using cts128_roundtrip [of rev rev "replicate 16 7" "replicate 20 3" Word_access Word_access True]
  by (simp only: length_rev length_replicate rev_rev_ident simp_thms) simp

text \<open>
  The variants that call a CBC routine for whole blocks write the same bytes and vector
  as the variants that call the block function, and return the length of the message.
\<close>

theorem cts128_variants_agree:
  assumes "\<forall>b. length b = 16 \<longrightarrow> length (E b) = 16 \<and> length (D b) = 16 \<and> D (E b) = b"
    and "cbc_law E D cbc" "length ivec = 16" "16 < length inp"
  shows "CRYPTO_cts128_encrypt cbc ivec inp = CRYPTO_cts128_encrypt_block p E ivec inp
    \<and> CRYPTO_nistcts128_encrypt cbc ivec inp = CRYPTO_nistcts128_encrypt_block p E ivec inp
    \<and> (\<exists>out ivec'. CRYPTO_cts128_decrypt cbc ivec inp = (length inp, out, ivec')
        \<and> CRYPTO_cts128_decrypt_block p in_place D ivec inp = Inr (length inp + 16, out, ivec'))
    \<and> (\<exists>out ivec'. CRYPTO_nistcts128_decrypt cbc ivec inp = (length inp, out, ivec')
        \<and> CRYPTO_nistcts128_decrypt_block p in_place D ivec inp =
            Inr (if length inp mod 16 = 0 then length inp else length inp + 16, out, ivec'))"
  using cipher128.cts_encrypt_same [OF cipher128I [OF assms(1)] assms(2,3)]
    cipher128.nist_encrypt_same [OF cipher128I [OF assms(1)] assms(2,3)]
    cipher128.cts_decrypt_same [OF cipher128I [OF assms(1)] assms(2-4)]
    cipher128.nist_decrypt_same [OF cipher128I [OF assms(1)] assms(2,3) less_imp_le [OF assms(4)]] by blast

theorem cts128_variants_agree_witness:
  "\<exists>cbc. cbc_law rev rev cbc \<and> CRYPTO_cts128_encrypt cbc (replicate 16 7) (replicate 20 3) =
     CRYPTO_cts128_encrypt_block Word_access rev (replicate 16 7) (replicate 20 3)"
proof -
  let ?cbc = "\<lambda>enc iv xs. if enc then cbc_enc_bytes rev iv xs
     else (case cbc_dec_bytes rev iv (length xs) xs of Inr r \<Rightarrow> r | Inl _ \<Rightarrow> ([], []))"
  have b: "block128 rev" by unfold_locales simp
  have "Inr (?cbc False iv xs) = cbc_dec_bytes rev iv (length xs) xs" if iv: "length iv = 16" "16 dvd length xs" for iv xs
    using block128.dec_total [OF b iv] by (auto dest: spec [of _ "[]"])
  then have law: "cbc_law rev rev ?cbc"
    unfolding cbc_law_def by (simp add: block128.cbc_encrypt_bytes [OF b] block128.cbc_decrypt_bytes [OF b])
  show ?thesis
    using cts128_variants_agree [OF _ law, of "replicate 16 7" "replicate 20 3" Word_access True] law by fastforce
qed

end
