(* ===== verification/Key_Wrap.thy ===== *)
theory Key_Wrap
  imports CBC_Props
begin

text \<open>
  Key wrapping on a 128-bit block function, \<^verbatim>\<open>crypto/modes/wrap128.c\<close>: RFC 3394 (\<^verbatim>\<open>CRYPTO_128_wrap\<close>,
  \<^verbatim>\<open>CRYPTO_128_unwrap\<close>) and RFC 5649 with padding (\<^verbatim>\<open>CRYPTO_128_wrap_pad\<close>, \<^verbatim>\<open>CRYPTO_128_unwrap_pad\<close>).
  A function returns its length, 0 for failure, and the bytes it wrote to \<^verbatim>\<open>out\<close>; \<^verbatim>\<open>NULL\<close> for the
  initial value is \<open>None\<close>.  A length is a number below 2^64.
\<close>

section \<open>Wrapping\<close>

definition default_iv :: "u8 list" where
  "default_iv = [0xA6, 0xA6, 0xA6, 0xA6, 0xA6, 0xA6, 0xA6, 0xA6]"

definition default_aiv :: "u8 list" where
  "default_aiv = [0xA6, 0x59, 0x59, 0xA6]"

definition CRYPTO128_WRAP_MAX :: nat where
  "CRYPTO128_WRAP_MAX = 2 ^ 31"

text \<open>The step counter combined with the bytes 4 to 7 of \<open>A\<close>, the first half of \<open>B\<close>.\<close>

definition xor_t :: "nat \<Rightarrow> u8 list \<Rightarrow> u8 list" where
  "xor_t t A =
     (let A1 = A[7 := A ! 7 XOR of_nat t] in
      if t > 0xff then A1[6 := A1 ! 6 XOR of_nat (t div 2 ^ 8), 5 := A1 ! 5 XOR of_nat (t div 2 ^ 16),
                          4 := A1 ! 4 XOR of_nat (t div 2 ^ 24)]
      else A1)"

text \<open>One pass of the inner loop over the blocks at \<^verbatim>\<open>R\<close>.\<close>

function wrap_pass :: "(u8 list \<Rightarrow> u8 list) \<Rightarrow> u8 list \<Rightarrow> nat \<Rightarrow> u8 list \<Rightarrow> u8 list \<times> nat \<times> u8 list" where
  "wrap_pass block B t R =
     (if length R < 8 then (B, t, [])
      else let B' = xor_t t (block (take 8 B @ take 8 R));
               (B'', t', R') = wrap_pass block B' (t + 1) (drop 8 R)
           in (B'', t', drop 8 B' @ R'))"
  by auto
termination by (relation "measure (\<lambda>(_, _, _, R). length R)") auto

declare wrap_pass.simps [simp del]

fun wrap_passes :: "nat \<Rightarrow> (u8 list \<Rightarrow> u8 list) \<Rightarrow> u8 list \<Rightarrow> nat \<Rightarrow> u8 list \<Rightarrow> u8 list \<times> nat \<times> u8 list" where
  "wrap_passes 0 block B t R = (B, t, R)"
| "wrap_passes (Suc j) block B t R =
     (let (B', t', R') = wrap_pass block B t R in wrap_passes j block B' t' R')"

definition CRYPTO_128_wrap :: "(u8 list \<Rightarrow> u8 list) \<Rightarrow> u8 list option \<Rightarrow> u8 list \<Rightarrow> nat \<times> u8 list" where
  "CRYPTO_128_wrap block iv inp =
     (if length inp mod 8 \<noteq> 0 \<or> length inp < 16 \<or> length inp > CRYPTO128_WRAP_MAX then (0, [])
      else
        let A = (case iv of None \<Rightarrow> default_iv | Some v \<Rightarrow> v);
            (B, t, R) = wrap_passes 6 block A 1 inp
        in (length inp + 8, take 8 B @ R))"

section \<open>Unwrapping\<close>

text \<open>The blocks are taken from the end.\<close>

function unwrap_pass :: "(u8 list \<Rightarrow> u8 list) \<Rightarrow> u8 list \<Rightarrow> nat \<Rightarrow> u8 list \<Rightarrow> u8 list \<times> nat \<times> u8 list" where
  "unwrap_pass block B t R =
     (if length R < 8 then (B, t, [])
      else let B' = block (take 8 (xor_t t B) @ drop (length R - 8) R);
               (B'', t', R') = unwrap_pass block B' (t - 1) (take (length R - 8) R)
           in (B'', t', R' @ drop 8 B'))"
  by auto
termination by (relation "measure (\<lambda>(_, _, _, R). length R)") auto

declare unwrap_pass.simps [simp del]

fun unwrap_passes :: "nat \<Rightarrow> (u8 list \<Rightarrow> u8 list) \<Rightarrow> u8 list \<Rightarrow> nat \<Rightarrow> u8 list \<Rightarrow> u8 list \<times> nat \<times> u8 list" where
  "unwrap_passes 0 block B t R = (B, t, R)"
| "unwrap_passes (Suc j) block B t R =
     (let (B', t', R') = unwrap_pass block B t R in unwrap_passes j block B' t' R')"

text \<open>\<^verbatim>\<open>inlen -= 8\<close> wraps when the input is shorter than 8 bytes.\<close>

definition crypto_128_unwrap_raw :: "(u8 list \<Rightarrow> u8 list) \<Rightarrow> u8 list \<Rightarrow> nat \<times> u8 list \<times> u8 list" where
  "crypto_128_unwrap_raw block inp =
     (let inlen = (length inp + (2 ^ 64 - 8)) mod 2 ^ 64 in
      if inlen mod 8 \<noteq> 0 \<or> inlen < 16 \<or> inlen > CRYPTO128_WRAP_MAX then (0, [], [])
      else
        let (B, t, R) = unwrap_passes 6 block (take 8 inp) (6 * (inlen div 8)) (take inlen (drop 8 inp))
        in (inlen, take 8 B, R))"

definition CRYPTO_128_unwrap :: "(u8 list \<Rightarrow> u8 list) \<Rightarrow> u8 list option \<Rightarrow> u8 list \<Rightarrow> nat \<times> u8 list" where
  "CRYPTO_128_unwrap block iv inp =
     (let (ret, got_iv, out) = crypto_128_unwrap_raw block inp in
      if ret = 0 then (0, out)
      else if got_iv \<noteq> (case iv of None \<Rightarrow> default_iv | Some v \<Rightarrow> v) then (0, replicate ret 0)
      else (ret, out))"

section \<open>With padding\<close>

text \<open>The conversion of \<^verbatim>\<open>size_t\<close> to \<^verbatim>\<open>int\<close> and back that \<^verbatim>\<open>int ret\<close> causes.\<close>

definition through_int :: "nat \<Rightarrow> nat" where
  "through_int n = unat (scast (of_nat n :: u32) :: u64)"

definition CRYPTO_128_wrap_pad :: "(u8 list \<Rightarrow> u8 list) \<Rightarrow> u8 list option \<Rightarrow> u8 list \<Rightarrow> nat \<times> u8 list" where
  "CRYPTO_128_wrap_pad block icv inp =
     (let inlen = length inp;
          blocks_padded = (inlen + 7) div 8;
          padded_len = blocks_padded * 8;
          padding_len = padded_len - inlen in
      if inlen = 0 \<or> inlen \<ge> CRYPTO128_WRAP_MAX then (0, [])
      else
        let aiv = (case icv of None \<Rightarrow> default_aiv | Some v \<Rightarrow> take 4 v) @
              [of_nat (inlen div 2 ^ 24), of_nat (inlen div 2 ^ 16), of_nat (inlen div 2 ^ 8), of_nat inlen] in
        if padded_len = 8 then (16, block (aiv @ inp @ replicate padding_len 0))
        else let (ret, out) = CRYPTO_128_wrap block (Some aiv) (inp @ replicate padding_len 0)
             in (through_int ret, out))"

text \<open>
  On a failed check \<^verbatim>\<open>OPENSSL_cleanse(out, inlen)\<close> writes \<^verbatim>\<open>inlen\<close> bytes, not the \<^verbatim>\<open>inlen - 8\<close> of the plaintext.
\<close>

definition CRYPTO_128_unwrap_pad :: "(u8 list \<Rightarrow> u8 list) \<Rightarrow> u8 list option \<Rightarrow> u8 list \<Rightarrow> nat \<times> u8 list" where
  "CRYPTO_128_unwrap_pad block icv inp =
     (let inlen = length inp;
          n = inlen div 8 - 1 in
      if inlen mod 8 \<noteq> 0 \<or> inlen < 16 \<or> inlen \<ge> CRYPTO128_WRAP_MAX then (0, [])
      else
        let (ok, padded_len, aiv, out) =
              (if inlen = 16 then (let buff = block inp in (True, 8, take 8 buff, drop 8 buff))
               else (let (ret, aiv, out) = crypto_128_unwrap_raw block inp in (inlen - 8 = ret, inlen - 8, aiv, out))) in
        if \<not> ok then (0, replicate inlen 0)
        else if take 4 aiv \<noteq> (case icv of None \<Rightarrow> default_aiv | Some v \<Rightarrow> take 4 v) then (0, replicate inlen 0)
        else
          let ptext_len = unat (push_bit 24 (ucast (aiv ! 4)) OR push_bit 16 (ucast (aiv ! 5))
                OR push_bit 8 (ucast (aiv ! 6)) OR ucast (aiv ! 7) :: u32) in
          if 8 * (n - 1) \<ge> ptext_len \<or> ptext_len > 8 * n then (0, replicate inlen 0)
          else
            let padding_len = padded_len - ptext_len in
            if take padding_len (drop ptext_len out) \<noteq> replicate padding_len 0 then (0, replicate inlen 0)
            else (ptext_len, out))"

end
