(* ===== verification/SM4_Props.thy ===== *)
theory SM4_Props
  imports SM4 CBC_Props
begin

text \<open>
  SM4: the tables are the S-box followed by the linear map, so the fast rounds compute what the byte-wise
  rounds compute; each round is its own inverse on the reversed state, so decryption undoes encryption; and so
  SM4 with any schedule is an instance of the contract of the modes.
\<close>

section \<open>Rotation and the linear map\<close>

lemma bit_rotl:
  assumes "0 < n" "n < 32"
  shows "bit (rotl w n) i \<longleftrightarrow> i < 32 \<and> bit w (if i < n then 32 + i - n else i - n)"
  using assms by (auto simp: rotl_def bit_simps dest: bit_imp_le_length)

lemma rotl_xor: "rotl (a XOR b) n = rotl a n XOR rotl b n"
  by (rule bit_word_eqI) (auto simp: rotl_def bit_simps dest: bit_imp_le_length)

lemma rotl_rotl:
  assumes "0 < m" "m < 32" "0 < n" "n < 32"
  shows "rotl (rotl w m) n = rotl (rotl w n) m"
proof (rule bit_word_eqI)
  fix i assume i: "i < LENGTH(32)"
  let ?p = "\<lambda>k j. if j < k then 32 + j - k else j - (k::nat)"
  have "?p m (?p n i) = ?p n (?p m i)" using assms i by auto
  moreover have "?p n i < 32" "?p m i < 32" using assms i by auto
  ultimately show "bit (rotl (rotl w m) n) i \<longleftrightarrow> bit (rotl (rotl w n) m) i"
    using assms i by (simp only: bit_rotl)
qed

definition SM4_L :: "u32 \<Rightarrow> u32" where
  "SM4_L t = t XOR rotl t 2 XOR rotl t 10 XOR rotl t 18 XOR rotl t 24"

lemma SM4_L_xor: "SM4_L (a XOR b) = SM4_L a XOR SM4_L b"
  by (simp add: SM4_L_def rotl_xor ac_simps)

lemma SM4_L_rotl: "0 < n \<Longrightarrow> n < 32 \<Longrightarrow> rotl (SM4_L t) n = SM4_L (rotl t n)"
  by (simp add: SM4_L_def rotl_xor rotl_rotl [of _ n])

lemma rotl_byte:
  "rotl (push_bit 24 (ucast (s :: u8))) 24 = push_bit 16 (ucast s)"
  "rotl (push_bit 16 (ucast s)) 24 = push_bit 8 (ucast s)"
  "rotl (push_bit 8 (ucast s)) 24 = ucast s"
  by (rule bit_word_eqI; auto simp: bit_rotl bit_simps dest: bit_imp_le_length)+

section \<open>The tables\<close>

lemma length_SM4_S: "length SM4_S = 256"
  by (simp add: SM4_S_def)

lemma SM4_SBOX_T0_eq: "SM4_SBOX_T0 = map (\<lambda>s. SM4_L (push_bit 24 (ucast s))) SM4_S"
  by (simp add: SM4_SBOX_T0_def SM4_S_def SM4_L_def rotl_def)

lemma SM4_SBOX_T1_rot: "SM4_SBOX_T1 = map (\<lambda>t. rotl t 24) SM4_SBOX_T0"
  by (simp add: SM4_SBOX_T1_def SM4_SBOX_T0_def rotl_def)

lemma SM4_SBOX_T2_rot: "SM4_SBOX_T2 = map (\<lambda>t. rotl t 24) SM4_SBOX_T1"
  by (simp add: SM4_SBOX_T2_def SM4_SBOX_T1_def rotl_def)

lemma SM4_SBOX_T3_rot: "SM4_SBOX_T3 = map (\<lambda>t. rotl t 24) SM4_SBOX_T2"
  by (simp add: SM4_SBOX_T3_def SM4_SBOX_T2_def rotl_def)

lemma SM4_tables:
  assumes "i < 256"
  shows "SM4_SBOX_T0 ! i = SM4_L (push_bit 24 (ucast (SM4_S ! i)))"
    "SM4_SBOX_T1 ! i = SM4_L (push_bit 16 (ucast (SM4_S ! i)))"
    "SM4_SBOX_T2 ! i = SM4_L (push_bit 8 (ucast (SM4_S ! i)))"
    "SM4_SBOX_T3 ! i = SM4_L (ucast (SM4_S ! i))"
  using assms by (simp_all add: SM4_SBOX_T3_rot SM4_SBOX_T2_rot SM4_SBOX_T1_rot SM4_SBOX_T0_eq length_SM4_S
      SM4_L_rotl rotl_byte)

lemma byte_at_less: "byte_at X k < 256"
  by (simp add: byte_at_def)

lemma or_xor: "(\<And>n. bit a n \<Longrightarrow> \<not> bit b n) \<Longrightarrow> a OR b = (a XOR b :: 'a::len word)"
  by (rule bit_word_eqI) (auto simp: bit_simps)

lemma or_bytes:
  "push_bit 24 (ucast a) OR push_bit 16 (ucast b) OR push_bit 8 (ucast c) OR ucast d =
   (push_bit 24 (ucast (a :: u8)) XOR push_bit 16 (ucast (b :: u8)) XOR push_bit 8 (ucast (c :: u8)) XOR ucast (d :: u8) :: u32)"
proof -
  let ?C = "push_bit 8 (ucast c) :: u32" and ?B = "push_bit 16 (ucast b) :: u32" and ?A = "push_bit 24 (ucast a) :: u32"
  have A: "bit ?A n \<Longrightarrow> 24 \<le> n" and B: "bit ?B n \<Longrightarrow> 16 \<le> n \<and> n < 24" and C: "bit ?C n \<Longrightarrow> 8 \<le> n \<and> n < 16"
    and D: "bit (ucast d :: u32) n \<Longrightarrow> n < 8" for n
    by (auto simp: bit_simps dest!: bit_imp_le_length)
  have "?C OR ucast d = ?C XOR ucast d" by (rule or_xor) (use C D in force)
  moreover have "?B OR (?C XOR ucast d) = ?B XOR (?C XOR ucast d)"
    by (rule or_xor) (use B C D in \<open>force simp: bit_xor_iff\<close>)
  moreover have "?A OR (?B XOR (?C XOR ucast d)) = ?A XOR (?B XOR (?C XOR ucast d))"
    by (rule or_xor) (use A B C D in \<open>force simp: bit_xor_iff\<close>)
  ultimately show ?thesis by (simp add: ac_simps)
qed

lemma SM4_T_eq: "SM4_T X = SM4_T_slow X"
proof -
  have "SM4_T_slow X = SM4_L (SM4_sub X)" by (simp add: SM4_T_slow_def SM4_L_def Let_def)
  also have "\<dots> = SM4_T X"
    by (simp add: SM4_sub_def or_bytes SM4_L_xor SM4_T_def SM4_tables byte_at_less)
  finally show ?thesis by simp
qed

section \<open>Rounds\<close>

fun rev4 :: "quad \<Rightarrow> quad" where
  "rev4 (B0, B1, B2, B3) = (B3, B2, B1, B0)"

lemma RNDS_inverse: "SM4_RNDS rk k3 k2 k1 k0 F (rev4 (SM4_RNDS rk k0 k1 k2 k3 F B)) = rev4 B"
  by (cases B) (simp add: SM4_RNDS_def Let_def ac_simps)

section \<open>Encryption and decryption\<close>

lemma store_u32_be_eq: "store_u32_be v = store_be 4 v"
proof -
  have four: "(4 :: nat) = Suc (Suc (Suc (Suc 0)))" by simp
  show ?thesis unfolding store_be_def four store_le.simps by (simp add: store_u32_be_def drop_bit_drop_bit)
qed

lemma load_u32_be_eq:
  assumes "4 * n + 4 \<le> length b" shows "load_u32_be b n = load_be (take 4 (drop (4 * n) b))"
proof -
  have "take 4 (drop (4 * n) b) = [b ! (4 * n), b ! (4 * n + 1), b ! (4 * n + 2), b ! (4 * n + 3)]"
    using assms by (intro nth_equalityI) (auto simp: less_Suc_eq numeral_eq_Suc)
  then show ?thesis
    by (simp add: load_u32_be_def load_be_def push_bit_or ac_simps)
qed

definition load4 :: "u8 list \<Rightarrow> quad" where
  "load4 inp = (load_u32_be inp 0, load_u32_be inp 1, load_u32_be inp 2, load_u32_be inp 3)"

fun store4 :: "quad \<Rightarrow> u8 list" where
  "store4 (B0, B1, B2, B3) = store_u32_be B0 @ store_u32_be B1 @ store_u32_be B2 @ store_u32_be B3"

lemma length_store4 [simp]: "length (store4 B) = 16"
  by (cases B) (simp add: store_u32_be_eq)

lemma load4_store4: "load4 (store4 B) = B"
  by (cases B) (simp add: load4_def load_u32_be_eq store_u32_be_eq load_store_be)

lemma store4_load4:
  assumes "length inp = 16" shows "store4 (load4 inp) = inp"
proof -
  have "store4 (load4 inp) = take 4 inp @ take 4 (drop 4 inp) @ take 4 (drop 8 inp) @ take 4 (drop 12 inp)"
    using assms by (simp add: load4_def load_u32_be_eq store_u32_be_eq store_load_be)
  also have "\<dots> = inp"
  proof -
    have "drop 12 inp = take 4 (drop 12 inp)" using assms by simp
    moreover have "drop 8 inp = take 4 (drop 8 inp) @ drop 12 inp" "drop 4 inp = take 4 (drop 4 inp) @ drop 8 inp"
      using append_take_drop_id [of 4 "drop 8 inp"] append_take_drop_id [of 4 "drop 4 inp"] by simp_all
    ultimately show ?thesis by (metis append_take_drop_id)
  qed
  finally show ?thesis .
qed

definition enc_rounds :: "u32 list \<Rightarrow> quad \<Rightarrow> quad" where
  "enc_rounds rk B = SM4_RNDS rk 28 29 30 31 SM4_T_slow (SM4_RNDS rk 24 25 26 27 SM4_T (SM4_RNDS rk 20 21 22 23 SM4_T
     (SM4_RNDS rk 16 17 18 19 SM4_T (SM4_RNDS rk 12 13 14 15 SM4_T (SM4_RNDS rk 8 9 10 11 SM4_T
     (SM4_RNDS rk 4 5 6 7 SM4_T (SM4_RNDS rk 0 1 2 3 SM4_T_slow B)))))))"

definition dec_rounds :: "u32 list \<Rightarrow> quad \<Rightarrow> quad" where
  "dec_rounds rk B = SM4_RNDS rk 3 2 1 0 SM4_T_slow (SM4_RNDS rk 7 6 5 4 SM4_T (SM4_RNDS rk 11 10 9 8 SM4_T
     (SM4_RNDS rk 15 14 13 12 SM4_T (SM4_RNDS rk 19 18 17 16 SM4_T (SM4_RNDS rk 23 22 21 20 SM4_T
     (SM4_RNDS rk 27 26 25 24 SM4_T (SM4_RNDS rk 31 30 29 28 SM4_T_slow B)))))))"

lemma encrypt_rounds: "ossl_sm4_encrypt rk inp = store4 (rev4 (enc_rounds rk (load4 inp)))"
  by (simp add: ossl_sm4_encrypt_def enc_rounds_def load4_def Let_def split: prod.split)

lemma decrypt_rounds: "ossl_sm4_decrypt rk inp = store4 (rev4 (dec_rounds rk (load4 inp)))"
  by (simp add: ossl_sm4_decrypt_def dec_rounds_def load4_def Let_def split: prod.split)

lemma rev4_rev4 [simp]: "rev4 (rev4 B) = B" by (cases B) simp

lemma dec_enc_rounds: "dec_rounds rk (rev4 (enc_rounds rk B)) = rev4 B"
  by (simp only: dec_rounds_def enc_rounds_def RNDS_inverse)

lemma sm4_decrypt_encrypt: "length b = 16 \<Longrightarrow> ossl_sm4_decrypt rk (ossl_sm4_encrypt rk b) = b"
  by (simp add: encrypt_rounds decrypt_rounds load4_store4 dec_enc_rounds store4_load4)

interpretation sm4: cipher128 "ossl_sm4_encrypt rk" "ossl_sm4_decrypt rk" for rk
  by unfold_locales (simp_all add: encrypt_rounds decrypt_rounds load4_store4 dec_enc_rounds store4_load4)

lemma length_set_key_loop: "length (set_key_loop is K rk) = length is + length rk"
  by (induction "is" K rk rule: set_key_loop.induct) (simp_all add: Let_def)

section \<open>Properties\<close>

text \<open>
  The round function by four tables of 256 words is the round function by the S-box and
  the linear map, on every word; all 1024 table entries are right.
\<close>

theorem SM4_T_is_SM4_T_slow: "SM4_T X = SM4_T_slow X"
  by (rule SM4_T_eq)

text \<open>
  C32: encryption and decryption map 16 bytes to 16 bytes and are inverse to each other in both
  orders, for the 32 round keys the key schedule computes from any key.
\<close>

theorem sm4_roundtrip:
  assumes "length b = 16" "rk = ossl_sm4_set_key key"
  shows "length rk = 32 \<and> length (ossl_sm4_encrypt rk b) = 16 \<and> length (ossl_sm4_decrypt rk b) = 16
    \<and> ossl_sm4_decrypt rk (ossl_sm4_encrypt rk b) = b \<and> ossl_sm4_encrypt rk (ossl_sm4_decrypt rk b) = b"
proof (intro conjI)
  show "length rk = 32" by (simp add: assms(2) ossl_sm4_set_key_def length_set_key_loop)
  have "inj_on (ossl_sm4_encrypt rk) {b. length b = 16}"
    by (rule inj_on_inverseI [of _ "ossl_sm4_decrypt rk"]) (simp add: sm4_decrypt_encrypt)
  moreover have "ossl_sm4_encrypt rk ` {b. length b = 16} \<subseteq> {b. length b = 16}" by (auto simp: encrypt_rounds)
  moreover have "finite {b :: u8 list. length b = 16}"
    using finite_lists_length_eq [of "UNIV :: u8 set" 16] by simp
  ultimately have "ossl_sm4_encrypt rk ` {b. length b = 16} = {b. length b = 16}"
    by (intro endo_inj_surj)
  then obtain a where "length a = 16" "b = ossl_sm4_encrypt rk a" using assms(1) by auto
  then show "ossl_sm4_encrypt rk (ossl_sm4_decrypt rk b) = b" by (simp add: sm4_decrypt_encrypt)
qed (simp_all add: encrypt_rounds decrypt_rounds sm4_decrypt_encrypt [unfolded encrypt_rounds decrypt_rounds] assms(1))

theorem sm4_roundtrip_witness:
  "ossl_sm4_decrypt (ossl_sm4_set_key (replicate 16 1)) (ossl_sm4_encrypt (ossl_sm4_set_key (replicate 16 1)) (replicate 16 2)) = replicate 16 2"
  using sm4_roundtrip [of "replicate 16 2" _ "replicate 16 1"] by simp

text \<open>
  SM4 in CBC mode, from key bytes to plaintext: whatever the key and the message, decrypting
  on any path, in place or not, gives the message back.
\<close>

theorem sm4_cbc_roundtrip:
  assumes "length ivec = 16" "rk = ossl_sm4_set_key key"
    and "CRYPTO_cbc128_encrypt p (ossl_sm4_encrypt rk) ivec inp = (c, ivec')"
  shows "CRYPTO_cbc128_decrypt p' in_place (ossl_sm4_decrypt rk) ivec (length inp) c = Inr (inp, ivec')"
  using sm4.cbc_roundtrip [OF assms(1,3), of p' in_place "[]"] by simp

theorem sm4_cbc_roundtrip_witness:
  "\<exists>c ivec'. CRYPTO_cbc128_encrypt Word_access (ossl_sm4_encrypt (ossl_sm4_set_key (replicate 16 1))) (replicate 16 0) [1, 2, 3] = (c, ivec')
    \<and> CRYPTO_cbc128_decrypt Word_access True (ossl_sm4_decrypt (ossl_sm4_set_key (replicate 16 1))) (replicate 16 0) 3 c = Inr ([1, 2, 3], ivec')"
proof -
  obtain c ivec' where
    e: "CRYPTO_cbc128_encrypt Word_access (ossl_sm4_encrypt (ossl_sm4_set_key (replicate 16 1))) (replicate 16 0) [1, 2, 3] = (c, ivec')"
    by fastforce
  show ?thesis using sm4_cbc_roundtrip [OF _ refl e, of Word_access True] e by (simp add: numeral_3_eq_3)
qed

end
