(* ===== verification/Key_Wrap_Props.thy ===== *)
theory Key_Wrap_Props
  imports Key_Wrap SM4_Props
begin

text \<open>
  Key wrapping: unwrapping undoes wrapping, and accepts nothing else; what is written when a check fails; and
  the lengths for which the padded form cannot be undone.
\<close>

section \<open>The step counter\<close>

lemma length_xor_t [simp]: "length (xor_t t A) = length A"
  by (simp add: xor_t_def Let_def)

lemma xor_t_append: "8 \<le> length A \<Longrightarrow> xor_t t (A @ C) = xor_t t A @ C"
  by (simp add: xor_t_def Let_def list_update_append nth_append)

lemma take_xor_t: "8 \<le> length B \<Longrightarrow> take 8 (xor_t t B) = xor_t t (take 8 B)"
  using xor_t_append [of "take 8 B" t "drop 8 B"] by simp

lemma drop_xor_t: "8 \<le> length B \<Longrightarrow> drop 8 (xor_t t B) = drop 8 B"
  using xor_t_append [of "take 8 B" t "drop 8 B"] by simp

lemma xor_t_xor_t [simp]:
  assumes "length A = 8" shows "xor_t t (xor_t t A) = A"
proof (rule nth_equalityI)
  fix i assume "i < length (xor_t t (xor_t t A))"
  with assms show "xor_t t (xor_t t A) ! i = A ! i"
    by (auto simp: xor_t_def Let_def nth_list_update)
qed simp

section \<open>A pass and its inverse\<close>

lemma wrap_pass_Nil [simp]: "length R < 8 \<Longrightarrow> wrap_pass block B t R = (B, t, [])"
  by (simp add: wrap_pass.simps)

lemma unwrap_pass_Nil [simp]: "length R < 8 \<Longrightarrow> unwrap_pass block B t R = (B, t, [])"
  by (simp add: unwrap_pass.simps)

lemma unwrap_pass_append:
  assumes "8 dvd length b"
  shows "unwrap_pass block B t (a @ b) =
    (let (B1, t1, ob) = unwrap_pass block B t b; (B2, t2, oa) = unwrap_pass block B1 t1 a in (B2, t2, oa @ ob))"
  using assms
proof (induction b arbitrary: B t rule: length_induct)
  case (1 b)
  show ?case
  proof (cases "b = []")
    case True
    then show ?thesis by (simp split: prod.splits)
  next
    case False
    with 1(2) have l: "8 \<le> length b" by (auto dest: dvd_imp_le)
    let ?c = "take (length b - 8) b"
    have "8 dvd length ?c" using 1(2) l by simp
    moreover have "length ?c < length b" using l by simp
    ultimately show ?thesis
      using 1(1) l unwrap_pass.simps [of block B t b] unwrap_pass.simps [of block B t "a @ b"]
      by (simp add: Let_def split: prod.splits)
  qed
qed

context cipher128 begin

lemma wrap_step:
  assumes "length A = 8" "length x = 8"
  shows "length (xor_t t (E (A @ x))) = 16"
    and "8 \<le> length B \<Longrightarrow> take 8 B = take 8 (xor_t t (E (A @ x))) \<Longrightarrow>
      D (take 8 (xor_t t B) @ drop 8 (xor_t t (E (A @ x)))) = A @ x"
proof -
  have l: "length (E (A @ x)) = 16" using assms by (intro enc.length_block) simp
  then show "length (xor_t t (E (A @ x))) = 16" by simp
  assume B: "8 \<le> length B" "take 8 B = take 8 (xor_t t (E (A @ x)))"
  have "take 8 (xor_t t B) = xor_t t (xor_t t (take 8 (E (A @ x))))"
    using B l by (auto simp: take_xor_t)
  also have "\<dots> = take 8 (E (A @ x))" using l by simp
  finally show "D (take 8 (xor_t t B) @ drop 8 (xor_t t (E (A @ x)))) = A @ x"
    using l assms by (simp add: drop_xor_t D_E)
qed

lemma wrap_pass_inverse:
  assumes "8 dvd length R" "8 \<le> length B" "wrap_pass E B t R = (B', t', R')"
  shows "length R' = length R \<and> t' = t + length R div 8 \<and> 8 \<le> length B' \<and>
    (\<forall>C. 8 \<le> length C \<longrightarrow> take 8 C = take 8 B' \<longrightarrow> 0 < t \<longrightarrow>
       (\<exists>C'. unwrap_pass D C (t' - 1) R' = (C', t - 1, R) \<and> 8 \<le> length C' \<and> take 8 C' = take 8 B))"
  using assms
proof (induction R arbitrary: B t R' rule: length_induct)
  case (1 R)
  show ?case
  proof (cases "R = []")
    case True
    with 1 show ?thesis by auto
  next
    case False
    with 1(2) have l: "8 \<le> length R" by (auto dest: dvd_imp_le)
    let ?x = "take 8 R" and ?r = "drop 8 R"
    let ?B1 = "xor_t t (E (take 8 B @ ?x))"
    have B1: "length ?B1 = 16" by (rule wrap_step) (use 1(3) l in simp_all)
    obtain R2 where r: "wrap_pass E ?B1 (t + 1) ?r = (B', t', R2)" "R' = drop 8 ?B1 @ R2"
      using 1(4) l wrap_pass.simps [of E B t R] by (auto simp: Let_def split: prod.splits)
    have d: "8 dvd length ?r" "length ?r < length R" using 1(2) l by simp_all
    have "8 \<le> length ?B1" using B1 by simp
    note IH = 1(1)[rule_format, OF d(2,1) this r(1)]
    have q: "length R div 8 = Suc (length ?r div 8)" using l by (simp add: le_div_geq)
    have "\<exists>C'. unwrap_pass D C (t' - 1) R' = (C', t - 1, R) \<and> 8 \<le> length C' \<and> take 8 C' = take 8 B"
      if C: "8 \<le> length C" "take 8 C = take 8 B'" "0 < t" for C
    proof -
      obtain C1 where c: "unwrap_pass D C (t' - 1) R2 = (C1, t, ?r)" "8 \<le> length C1" "take 8 C1 = take 8 ?B1"
        using IH C by auto
      have "8 dvd length R2" using IH d(1) by simp
      have C1: "D (take 8 (xor_t t C1) @ drop 8 ?B1) = take 8 B @ ?x"
        by (rule wrap_step(2)) (use 1(3) l c in simp_all)
      have "unwrap_pass D C1 t (drop 8 ?B1) = (take 8 B @ ?x, t - 1, ?x)"
        using unwrap_pass.simps [of D C1 t "drop 8 ?B1"] B1 C1 1(3) by (simp add: Let_def)
      then have "unwrap_pass D C (t' - 1) R' = (take 8 B @ ?x, t - 1, R)"
        using c(1) unwrap_pass_append [OF \<open>8 dvd length R2\<close>, of D C "t' - 1" "drop 8 ?B1"] r(2) by simp
      then show ?thesis using 1(3) by (intro exI [of _ "take 8 B @ ?x"]) simp
    qed
    moreover have "length R' = length R \<and> t' = t + length R div 8 \<and> 8 \<le> length B'"
      using IH r(2) B1 l q by simp
    ultimately show ?thesis by blast
  qed
qed

lemma wrap_passes_inverse:
  assumes "8 dvd length R" "8 \<le> length B" "0 < t" "wrap_passes j E B t R = (B', t', R')"
  shows "length R' = length R \<and> t' = t + j * (length R div 8) \<and> 8 \<le> length B' \<and>
    (\<forall>C i. 8 \<le> length C \<longrightarrow> take 8 C = take 8 B' \<longrightarrow>
       (\<exists>C'. unwrap_passes (j + i) D C (t' - 1) R' = unwrap_passes i D C' (t - 1) R \<and> 8 \<le> length C' \<and> take 8 C' = take 8 B))"
  using assms
proof (induction j arbitrary: B t R)
  case (Suc j)
  obtain B1 t1 R1 where p: "wrap_pass E B t R = (B1, t1, R1)" by (metis surj_pair)
  note w = wrap_pass_inverse [OF Suc.prems(1,2) p]
  have r: "wrap_passes j E B1 t1 R1 = (B', t', R')" using Suc.prems(4) p by simp
  have IH: "length R' = length R1 \<and> t' = t1 + j * (length R1 div 8) \<and> 8 \<le> length B' \<and>
    (\<forall>C i. 8 \<le> length C \<longrightarrow> take 8 C = take 8 B' \<longrightarrow>
       (\<exists>C'. unwrap_passes (j + i) D C (t' - 1) R' = unwrap_passes i D C' (t1 - 1) R1 \<and> 8 \<le> length C' \<and> take 8 C' = take 8 B1))"
    by (rule Suc.IH [OF _ _ _ r]) (use w Suc.prems(1,3) in simp_all)
  have "\<exists>C'. unwrap_passes (Suc j + i) D C (t' - 1) R' = unwrap_passes i D C' (t - 1) R \<and> 8 \<le> length C' \<and> take 8 C' = take 8 B"
    if C: "8 \<le> length C" "take 8 C = take 8 B'" for C i
  proof -
    obtain C1 where c: "unwrap_passes (j + Suc i) D C (t' - 1) R' = unwrap_passes (Suc i) D C1 (t1 - 1) R1"
        "8 \<le> length C1" "take 8 C1 = take 8 B1"
      using IH C by blast
    obtain C2 where "unwrap_pass D C1 (t1 - 1) R1 = (C2, t - 1, R)" "8 \<le> length C2" "take 8 C2 = take 8 B"
      using w c Suc.prems(3) by blast
    with c(1) show ?thesis by auto
  qed
  then show ?case using w IH by (simp add: algebra_simps)
qed auto

end

section \<open>Wrapping and unwrapping\<close>

lemma unwrap_length:
  assumes "8 \<le> length inp" "length inp < 2 ^ 64"
  shows "(length inp + (2 ^ 64 - 8)) mod 2 ^ 64 = length inp - 8"
proof -
  obtain k where k: "length inp = 8 + k" using assms(1) le_Suc_ex by blast
  have "length inp + (2 ^ 64 - 8) = k + 2 ^ 64" unfolding k by simp
  then have "(length inp + (2 ^ 64 - 8)) mod 2 ^ 64 = k mod 2 ^ 64" by (simp only: mod_add_self2)
  then show ?thesis using assms(2) k by simp
qed

context cipher128 begin

lemma unwrap_raw_wrap:
  assumes "length inp mod 8 = 0" "16 \<le> length inp" "length inp \<le> 2 ^ 31" "length A = 8"
    and "CRYPTO_128_wrap E (Some A) inp = (n, c)"
  shows "n = length inp + 8 \<and> length c = n \<and> crypto_128_unwrap_raw D c = (length inp, A, inp)"
proof -
  obtain B t R where p: "wrap_passes 6 E A 1 inp = (B, t, R)" by (metis surj_pair)
  note w = wrap_passes_inverse [OF _ _ _ p]
  have l: "length R = length inp" "t = 1 + 6 * (length inp div 8)" "8 \<le> length B" using w assms by auto
  obtain C where c: "unwrap_passes 6 D (take 8 B) (t - 1) R = (C, 0, inp)" "take 8 C = A"
  proof -
    have "\<forall>C i. 8 \<le> length C \<longrightarrow> take 8 C = take 8 B \<longrightarrow>
       (\<exists>C'. unwrap_passes (6 + i) D C (t - 1) R = unwrap_passes i D C' (1 - 1) inp \<and> 8 \<le> length C' \<and> take 8 C' = take 8 A)"
      using w assms by auto
    from this [rule_format, of "take 8 B" 0] obtain C' where
      "unwrap_passes 6 D (take 8 B) (t - 1) R = unwrap_passes 0 D C' (1 - 1) inp" "take 8 C' = take 8 A" using l(3) by auto
    with assms(4) show ?thesis by (intro that [of C']) simp_all
  qed
  have n: "n = length inp + 8" "c = take 8 B @ R"
    using assms p by (auto simp: CRYPTO_128_wrap_def CRYPTO128_WRAP_MAX_def)
  have lc: "length c = length inp + 8" using n l by simp
  have "(length c + (2 ^ 64 - 8)) mod 2 ^ 64 = length inp"
    using unwrap_length [of c] lc assms(3) by simp
  moreover have "take 8 c = take 8 B" "take (length inp) (drop 8 c) = R" using n l by simp_all
  ultimately have "crypto_128_unwrap_raw D c = (length inp, A, inp)"
    using c l(2) assms unfolding crypto_128_unwrap_raw_def by (simp add: Let_def CRYPTO128_WRAP_MAX_def)
  with n lc show ?thesis by simp
qed

lemma unwrap_wrap:
  assumes "length inp mod 8 = 0" "16 \<le> length inp" "length inp \<le> 2 ^ 31" "iv = None \<or> (\<exists>v. iv = Some v \<and> length v = 8)"
    and "CRYPTO_128_wrap E iv inp = (n, c)"
  shows "n = length inp + 8 \<and> length c = n \<and> CRYPTO_128_unwrap D iv c = (length inp, inp)"
proof -
  define A where "A = (case iv of None \<Rightarrow> default_iv | Some v \<Rightarrow> v)"
  have "length A = 8" using assms(4) by (auto simp: A_def default_iv_def)
  moreover have "CRYPTO_128_wrap E (Some A) inp = (n, c)"
    unfolding assms(5) [symmetric] by (simp add: CRYPTO_128_wrap_def A_def)
  ultimately have "n = length inp + 8 \<and> length c = n \<and> crypto_128_unwrap_raw D c = (length inp, A, inp)"
    using unwrap_raw_wrap [OF assms(1-3)] by blast
  then show ?thesis using assms(2) by (auto simp: CRYPTO_128_unwrap_def A_def)
qed

text \<open>Wrapping permutes the strings of a length, so every string of a valid length is the wrapping of something.\<close>

lemma wrap_surj:
  assumes "length c mod 8 = 0" "24 \<le> length c" "length c \<le> 2 ^ 31 + 8"
  obtains A inp where "length A = 8" "length inp = length c - 8" "CRYPTO_128_wrap E (Some A) inp = (length c, c)"
proof -
  define S where "S = {xs :: u8 list. length xs = length c}"
  define f where "f xs = snd (CRYPTO_128_wrap E (Some (take 8 xs)) (drop 8 xs))" for xs
  have inv: "CRYPTO_128_wrap E (Some (take 8 xs)) (drop 8 xs) = (length c, f xs) \<and> length (f xs) = length c
      \<and> crypto_128_unwrap_raw D (f xs) = (length c - 8, take 8 xs, drop 8 xs)" if "xs \<in> S" for xs
  proof -
    obtain n d where w: "CRYPTO_128_wrap E (Some (take 8 xs)) (drop 8 xs) = (n, d)" by fastforce
    have "length (drop 8 xs) mod 8 = 0" "16 \<le> length (drop 8 xs)" "length (drop 8 xs) \<le> 2 ^ 31" "length (take 8 xs) = 8"
      using that assms by (simp_all add: S_def le_mod_geq [symmetric])
    from unwrap_raw_wrap [OF this w] w that assms(2) show ?thesis by (auto simp: f_def S_def)
  qed
  have "inj_on f S"
    by (rule inj_onI) (metis inv append_take_drop_id prod.inject)
  moreover have "f ` S \<subseteq> S" using inv by (auto simp: S_def)
  moreover have "finite S" using finite_lists_length_eq [of "UNIV :: u8 set" "length c"] by (simp add: S_def)
  ultimately have onto: "f ` S = S" by (intro endo_inj_surj)
  have "c \<in> f ` S" unfolding onto by (simp add: S_def)
  then obtain xs where s: "xs \<in> S" "f xs = c" by (elim imageE) simp
  have xs: "length xs = length c" "CRYPTO_128_wrap E (Some (take 8 xs)) (drop 8 xs) = (length c, c)"
    using s(1) inv [OF s(1), unfolded s(2)] by (simp_all only: S_def mem_Collect_eq)
  show ?thesis
    by (rule that [OF _ _ xs(2)]) (use xs(1) assms(2) in simp_all)
qed

end

lemma wrap_iv: "CRYPTO_128_wrap E iv inp = CRYPTO_128_wrap E (Some (case iv of None \<Rightarrow> default_iv | Some v \<Rightarrow> v)) inp"
  by (simp add: CRYPTO_128_wrap_def)

lemma wrap_refuses:
  "length inp mod 8 \<noteq> 0 \<or> length inp < 16 \<or> length inp > 2 ^ 31 \<Longrightarrow> CRYPTO_128_wrap E iv inp = (0, [])"
  by (auto simp: CRYPTO_128_wrap_def CRYPTO128_WRAP_MAX_def)

context cipher128 begin

lemma unwrap_complete:
  assumes "length c mod 8 = 0" "24 \<le> length c" "length c \<le> 2 ^ 31 + 8" "iv = None \<or> (\<exists>v. iv = Some v \<and> length v = 8)"
  shows "if \<exists>inp. CRYPTO_128_wrap E iv inp = (length c, c)
    then \<exists>inp. CRYPTO_128_wrap E iv inp = (length c, c) \<and> CRYPTO_128_unwrap D iv c = (length c - 8, inp)
    else CRYPTO_128_unwrap D iv c = (0, replicate (length c - 8) 0)"
proof -
  define V where "V = (case iv of None \<Rightarrow> default_iv | Some v \<Rightarrow> v)"
  obtain A inp where w: "length A = 8" "length inp = length c - 8" "CRYPTO_128_wrap E (Some A) inp = (length c, c)"
    using wrap_surj [OF assms(1-3)] by blast
  have l: "length inp mod 8 = 0" "16 \<le> length inp" "length inp \<le> 2 ^ 31"
    using assms(1-3) w(2) by (simp_all add: le_mod_geq [symmetric])
  have raw: "crypto_128_unwrap_raw D c = (length c - 8, A, inp)"
    using unwrap_raw_wrap [OF l w(1,3)] w(2) by simp
  show ?thesis
  proof (cases "A = V")
    case True
    then have "CRYPTO_128_wrap E iv inp = (length c, c)" using w(3) wrap_iv [of E iv inp] by (simp add: V_def)
    moreover have "CRYPTO_128_unwrap D iv c = (length c - 8, inp)"
      using raw True assms(2) by (simp add: CRYPTO_128_unwrap_def V_def)
    ultimately show ?thesis by auto
  next
    case False
    have "\<not> (\<exists>inp'. CRYPTO_128_wrap E iv inp' = (length c, c))"
    proof
      assume "\<exists>inp'. CRYPTO_128_wrap E iv inp' = (length c, c)"
      then obtain inp' where w': "CRYPTO_128_wrap E (Some V) inp' = (length c, c)"
        using wrap_iv [of E iv] by (auto simp: V_def)
      have "\<not> (length inp' mod 8 \<noteq> 0 \<or> length inp' < 16 \<or> length inp' > 2 ^ 31)"
      proof
        assume "length inp' mod 8 \<noteq> 0 \<or> length inp' < 16 \<or> length inp' > 2 ^ 31"
        from wrap_refuses [OF this, of E "Some V"] w' assms(2) show False by simp
      qed
      then have "length inp' mod 8 = 0 \<and> 16 \<le> length inp' \<and> length inp' \<le> 2 ^ 31" by (simp add: not_less)
      moreover have "length V = 8" using assms(4) by (auto simp: V_def default_iv_def)
      ultimately have "crypto_128_unwrap_raw D c = (length inp', V, inp')"
        using unwrap_raw_wrap [OF _ _ _ _ w'] by simp
      with raw False show False by simp
    qed
    moreover have "CRYPTO_128_unwrap D iv c = (0, replicate (length c - 8) 0)"
      using raw False assms(2) by (simp add: CRYPTO_128_unwrap_def V_def)
    ultimately show ?thesis by simp
  qed
qed

end

section \<open>With padding\<close>

lemma through_int_eq:
  assumes "n < 2 ^ 32"
  shows "through_int n = (if n < 2 ^ 31 then n else n + (2 ^ 64 - 2 ^ 32))"
proof -
  have u: "unat (of_nat n :: u32) = n" using assms by (simp add: unsigned_of_nat take_bit_nat_eq_self)
  have "uint (scast (of_nat n :: u32) :: u64) = sint (of_nat n :: u32) mod 2 ^ 64"
    unfolding scast_eq uint_word_of_int by simp
  also have "sint (of_nat n :: u32) = (if n < 2 ^ 31 then int n else int n - 2 ^ 32)"
    using sint_cases [of "of_nat n :: u32"] u by simp
  also have "(if n < 2 ^ 31 then int n else int n - 2 ^ 32) mod 2 ^ 64 = (if n < 2 ^ 31 then int n else int n + (2 ^ 64 - 2 ^ 32))"
  proof (cases "n < 2 ^ 31")
    case False
    have "(int n - 2 ^ 32) mod 2 ^ 64 = (int n - 2 ^ 32 + 2 ^ 64) mod 2 ^ 64" by (simp only: mod_add_self2)
    also have "\<dots> = int n - 2 ^ 32 + 2 ^ 64" using assms by (intro mod_pos_pos_trivial) simp_all
    finally show ?thesis using False by simp
  qed simp
  finally have "int (unat (scast (of_nat n :: u32) :: u64)) = int (if n < 2 ^ 31 then n else n + (2 ^ 64 - 2 ^ 32))" by simp
  then show ?thesis unfolding through_int_def by (simp only: of_nat_eq_iff)
qed

lemma length_field:
  assumes "n < 2 ^ 32"
  shows "unat (push_bit 24 (ucast (of_nat (n div 2 ^ 24) :: u8)) OR push_bit 16 (ucast (of_nat (n div 2 ^ 16) :: u8))
    OR push_bit 8 (ucast (of_nat (n div 2 ^ 8) :: u8)) OR ucast (of_nat n :: u8) :: u32) = n"
proof -
  define a b c d where v: "a = n div 2 ^ 24 mod 256" "b = n div 2 ^ 16 mod 256" "c = n div 2 ^ 8 mod 256" "d = n mod 256"
  let ?bs = "[of_nat (n div 2 ^ 24), of_nat (n div 2 ^ 16), of_nat (n div 2 ^ 8), of_nat n] :: u8 list"
  have "push_bit 24 (ucast (of_nat (n div 2 ^ 24) :: u8)) OR push_bit 16 (ucast (of_nat (n div 2 ^ 16) :: u8))
    OR push_bit 8 (ucast (of_nat (n div 2 ^ 8) :: u8)) OR ucast (of_nat n :: u8) = (load_be ?bs :: u32)"
    using load_u32_be_eq [of 0 ?bs] by (simp add: load_u32_be_def)
  moreover have "unat (load_be ?bs :: u32) = be_nat ?bs" by (rule unat_load_be) simp
  moreover have "be_nat ?bs = d + 256 * (c + 256 * (b + 256 * a))"
    by (simp add: be_nat_def v unsigned_of_nat take_bit_eq_mod)
  moreover have "d + 256 * (c + 256 * (b + 256 * a)) = n"
  proof -
    have a: "a = n div 2 ^ 24" using assms by (simp add: v div_less_iff_less_mult)
    have b: "n div 2 ^ 16 = 256 * a + b"
      unfolding a using div_mult_mod_eq [of "n div 2 ^ 16" 256] div_mult2_eq [of n "2 ^ 16" 256] by (simp add: v)
    have c: "n div 2 ^ 8 = 256 * (256 * a + b) + c"
      unfolding b [symmetric] using div_mult_mod_eq [of "n div 2 ^ 8" 256] div_mult2_eq [of n "2 ^ 8" 256] by (simp add: v)
    have "n = 256 * (256 * (256 * a + b) + c) + d"
      unfolding c [symmetric] using div_mult_mod_eq [of n 256] by (simp add: v)
    then show ?thesis by (simp add: algebra_simps)
  qed
  ultimately show ?thesis by (simp only:)
qed

definition padded :: "nat \<Rightarrow> nat" where
  "padded n = (n + 7) div 8 * 8"

lemma padded: "padded n mod 8 = 0" "n \<le> padded n" "padded n < n + 8" "padded n div 8 = (n + 7) div 8"
  unfolding padded_def
  using div_mult_mod_eq [of "n + 7" 8] mod_less_divisor [of 8 "n + 7"] by simp_all

definition aiv_of :: "u8 list option \<Rightarrow> nat \<Rightarrow> u8 list" where
  "aiv_of icv n = (case icv of None \<Rightarrow> default_aiv | Some v \<Rightarrow> take 4 v) @
     [of_nat (n div 2 ^ 24), of_nat (n div 2 ^ 16), of_nat (n div 2 ^ 8), of_nat n]"

abbreviation (input) icv_ok :: "u8 list option \<Rightarrow> bool" where
  "icv_ok icv \<equiv> icv = None \<or> (\<exists>v. icv = Some v \<and> length v = 4)"

lemma length_aiv_of: "icv_ok icv \<Longrightarrow> length (aiv_of icv n) = 8"
  by (auto simp: aiv_of_def default_aiv_def)

lemma aiv_of_fields:
  assumes "icv_ok icv"
  shows "take 4 (aiv_of icv n) = (case icv of None \<Rightarrow> default_aiv | Some v \<Rightarrow> take 4 v)"
    "aiv_of icv n ! 4 = of_nat (n div 2 ^ 24)" "aiv_of icv n ! 5 = of_nat (n div 2 ^ 16)"
    "aiv_of icv n ! 6 = of_nat (n div 2 ^ 8)" "aiv_of icv n ! 7 = of_nat n"
  using assms by (auto simp: aiv_of_def default_aiv_def nth_append)

text \<open>The checks of \<^verbatim>\<open>CRYPTO_128_unwrap_pad\<close>, all passed by a padded message and its length.\<close>

lemma unwrap_pad_accepts:
  assumes "icv_ok icv" "0 < n" "n < 2 ^ 31" "length c = padded n + 8" "length c < 2 ^ 31" "length inp = n"
    and "if padded n = 8 then D c = aiv_of icv n @ inp @ replicate (padded n - n) 0
         else crypto_128_unwrap_raw D c = (padded n, aiv_of icv n, inp @ replicate (padded n - n) 0)"
  shows "CRYPTO_128_unwrap_pad D icv c = (n, inp @ replicate (padded n - n) 0)"
proof -
  define out where "out = inp @ replicate (padded n - n) 0"
  note p = padded [of n]
  have pos: "8 \<le> padded n" using p(1,2) assms(2) by (metis dvd_eq_mod_eq_0 dvd_imp_le less_le_trans)
  have g: "\<not> (length c mod 8 \<noteq> 0 \<or> length c < 16 \<or> length c \<ge> CRYPTO128_WRAP_MAX)"
    using assms(4,5) p(1) pos by (simp add: CRYPTO128_WRAP_MAX_def)
  have "(if length c = 16 then (let buff = D c in (True, 8, take 8 buff, drop 8 buff))
         else (let (ret, aiv, out) = crypto_128_unwrap_raw D c in (length c - 8 = ret, length c - 8, aiv, out)))
       = (True, padded n, aiv_of icv n, out)"
    using assms(4,7) length_aiv_of [OF assms(1), of n] by (auto simp: out_def)
  moreover have "length c div 8 - 1 = padded n div 8" using assms(4) by simp
  moreover have "\<not> (8 * (padded n div 8 - 1) \<ge> n \<or> n > 8 * (padded n div 8))"
    using p pos by (auto simp: diff_mult_distrib2 mult.commute [of 8] minus_mod_eq_div_mult [symmetric])
  moreover have "take (padded n - n) (drop n out) = replicate (padded n - n) 0"
    using assms(6) by (simp add: out_def)
  moreover have "n < 2 ^ 32" using assms(3) by simp
  ultimately show ?thesis
    unfolding CRYPTO_128_unwrap_pad_def Let_def [of "length c"] using g
    by (simp only: Let_def aiv_of_fields [OF assms(1)] length_field if_False prod.case simp_thms out_def [symmetric])
qed

lemma wrap_pad_eq:
  assumes "0 < length inp" "length inp < 2 ^ 31" "n = length inp"
  shows "CRYPTO_128_wrap_pad E icv inp =
    (if padded n = 8 then (16, E (aiv_of icv n @ inp @ replicate (padded n - n) 0))
     else (let (ret, out) = CRYPTO_128_wrap E (Some (aiv_of icv n)) (inp @ replicate (padded n - n) 0) in (through_int ret, out)))"
  using assms by (simp add: CRYPTO_128_wrap_pad_def Let_def padded_def aiv_of_def CRYPTO128_WRAP_MAX_def)

context cipher128 begin

lemma wrap_pad_raw:
  assumes "icv_ok icv" "0 < length inp" "length inp < 2 ^ 31" "n = length inp"
  shows "\<exists>c. CRYPTO_128_wrap_pad E icv inp = (through_int (padded n + 8), c) \<and> length c = padded n + 8
    \<and> (if padded n = 8 then D c = aiv_of icv n @ inp @ replicate (padded n - n) 0
       else crypto_128_unwrap_raw D c = (padded n, aiv_of icv n, inp @ replicate (padded n - n) 0))"
proof (cases "padded n = 8")
  case True
  let ?m = "aiv_of icv n @ inp @ replicate (padded n - n) 0"
  have "length ?m = 16" using True length_aiv_of [OF assms(1), of n] padded(2) [of n] assms(4) by simp
  then show ?thesis
    using True wrap_pad_eq [OF assms(2-4)] by (simp add: enc.length_block D_E through_int_eq)
next
  case False
  let ?m = "inp @ replicate (padded n - n) 0"
  note p = padded [of n]
  have lm: "length ?m = padded n" using p(2) assms(4) by simp
  obtain r c where w: "CRYPTO_128_wrap E (Some (aiv_of icv n)) ?m = (r, c)" by fastforce
  obtain k where k: "padded n = 8 * k" using p(1) by (metis mod_0_imp_dvd dvdE)
  have "0 < padded n" using p(2) assms(2,4) by linarith
  with False k have "16 \<le> padded n" by simp
  moreover have "padded n \<le> 2 ^ 31"
    using div_le_mono [of "n + 7" "2 ^ 31 + 7" 8] assms(3,4) by (simp add: padded_def)
  ultimately have "r = padded n + 8 \<and> length c = r \<and> crypto_128_unwrap_raw D c = (padded n, aiv_of icv n, ?m)"
    using unwrap_raw_wrap [OF _ _ _ length_aiv_of [OF assms(1)] w] lm p(1) by simp
  then show ?thesis using False wrap_pad_eq [OF assms(2-4), of E icv] w by simp
qed

end

section \<open>Properties\<close>

text \<open>
  Wrapping a message of n blocks of 8 bytes, n from 2 to 2^28, gives 8 bytes more, and
  unwrapping with the same initial value returns the message.
\<close>

theorem key_wrap_roundtrip:
  assumes "\<forall>b. length b = 16 \<longrightarrow> length (E b) = 16 \<and> length (D b) = 16 \<and> D (E b) = b"
    and "length inp mod 8 = 0" "16 \<le> length inp" "length inp \<le> 2 ^ 31" "iv = None \<or> (\<exists>v. iv = Some v \<and> length v = 8)"
  shows "\<exists>c. CRYPTO_128_wrap E iv inp = (length inp + 8, c) \<and> length c = length inp + 8
    \<and> CRYPTO_128_unwrap D iv c = (length inp, inp)"
proof -
  obtain n c where w: "CRYPTO_128_wrap E iv inp = (n, c)" by fastforce
  then show ?thesis using cipher128.unwrap_wrap [OF cipher128I [OF assms(1)] assms(2-5) w] by simp
qed

theorem key_wrap_roundtrip_witness:
  "\<exists>c. CRYPTO_128_wrap rev None (replicate 16 3) = (24, c) \<and> length c = 24 \<and> CRYPTO_128_unwrap rev None c = (16, replicate 16 3)"
  using key_wrap_roundtrip [of rev rev "replicate 16 3" None] by simp

text \<open>
  C37: for every string whose length is a multiple of 8 from 24 to \<open>2 ^ 31 + 8\<close>, unwrapping
  returns a message exactly when the string is the wrapping of a message under the expected initial value, and then
  that message; for every other string of such a length it returns 0 and leaves zeros in the output.  Strings of other
  lengths, also those shorter than 8 bytes for which the length wraps around, are refused with nothing written.  The
  comments of the two functions refuse every length above \<open>2 ^ 31\<close>; the code compares the limit with the length less 8,
  and so accepts the wrapping of a message of \<open>2 ^ 31\<close> bytes, which has \<open>2 ^ 31 + 8\<close>.
\<close>

theorem key_unwrap_accepts_only_wrapped:
  assumes "\<forall>b. length b = 16 \<longrightarrow> length (E b) = 16 \<and> length (D b) = 16 \<and> D (E b) = b"
    and "iv = None \<or> (\<exists>v. iv = Some v \<and> length v = 8)" "length c < 2 ^ 64"
  shows "if length c mod 8 = 0 \<and> 24 \<le> length c \<and> length c \<le> 2 ^ 31 + 8
    then if \<exists>inp. CRYPTO_128_wrap E iv inp = (length c, c)
      then \<exists>inp. CRYPTO_128_wrap E iv inp = (length c, c) \<and> CRYPTO_128_unwrap D iv c = (length c - 8, inp)
      else CRYPTO_128_unwrap D iv c = (0, replicate (length c - 8) 0)
    else CRYPTO_128_unwrap D iv c = (0, [])"
proof (cases "length c mod 8 = 0 \<and> 24 \<le> length c \<and> length c \<le> 2 ^ 31 + 8")
  case True
  then have t: "length c mod 8 = 0" "24 \<le> length c" "length c \<le> 2 ^ 31 + 8" by blast+
  show ?thesis
    unfolding if_P [OF True] by (rule cipher128.unwrap_complete [OF cipher128I [OF assms(1)] t assms(2)])
next
  case False
  define m where "m = (length c + (2 ^ 64 - 8)) mod 2 ^ 64"
  have "m mod 8 \<noteq> 0 \<or> m < 16 \<or> m > 2 ^ 31"
  proof (cases "8 \<le> length c")
    case True
    then have "length c = m + 8" using unwrap_length [OF True assms(3)] by (simp add: m_def)
    with False show ?thesis by auto
  next
    case f: False
    then have "length c + (2 ^ 64 - 8) < 2 ^ 64" by simp
    then have "m = length c + (2 ^ 64 - 8)" by (simp only: m_def mod_less)
    then show ?thesis by simp
  qed
  then have "crypto_128_unwrap_raw D c = (0, [], [])"
    unfolding crypto_128_unwrap_raw_def m_def [symmetric] Let_def by (simp only: CRYPTO128_WRAP_MAX_def if_True)
  then have "CRYPTO_128_unwrap D iv c = (0, [])" by (simp add: CRYPTO_128_unwrap_def)
  with False show ?thesis by (simp only: if_False)
qed

theorem key_unwrap_accepts_only_wrapped_witness:
  "(\<exists>c. CRYPTO_128_wrap rev (Some (replicate 8 0)) (replicate 16 3) = (24, c)
     \<and> (\<exists>inp. CRYPTO_128_wrap rev (Some (replicate 8 0)) inp = (24, c) \<and> CRYPTO_128_unwrap rev (Some (replicate 8 0)) c = (16, inp))
     \<and> \<not> (\<exists>inp. CRYPTO_128_wrap rev None inp = (24, c)) \<and> CRYPTO_128_unwrap rev None c = (0, replicate 16 0))
   \<and> CRYPTO_128_unwrap rev None [1, 2, 3] = (0, [])"
proof
  obtain n c where w: "CRYPTO_128_wrap rev (Some (replicate 8 0)) (replicate 16 3) = (n, c)" by fastforce
  have E: "\<forall>b :: u8 list. length b = 16 \<longrightarrow> length (rev b) = 16 \<and> length (rev b) = 16 \<and> rev (rev b) = b" by simp
  have r: "n = 24" "length c = 24" "crypto_128_unwrap_raw rev c = (16, replicate 8 0, replicate 16 3)"
    using cipher128.unwrap_raw_wrap [OF cipher128I [OF E] _ _ _ _ w] by simp_all
  have "replicate 8 0 ! 0 \<noteq> default_iv ! 0" by (simp add: default_iv_def)
  then have "replicate 8 0 \<noteq> default_iv" by metis
  then have "CRYPTO_128_unwrap rev None c = (0, replicate 16 0)"
    using r(3) by (simp add: CRYPTO_128_unwrap_def)
  moreover have "\<not> (\<exists>inp. CRYPTO_128_wrap rev None inp = (24, c))"
    using key_unwrap_accepts_only_wrapped [OF E, of None c] r(2) calculation by (auto split: if_splits)
  moreover have "\<exists>inp. CRYPTO_128_wrap rev (Some (replicate 8 0)) inp = (24, c) \<and> CRYPTO_128_unwrap rev (Some (replicate 8 0)) c = (16, inp)"
    using key_unwrap_accepts_only_wrapped [OF E, of "Some (replicate 8 0)" c] r(1,2) w by (auto split: if_splits)
  ultimately show "\<exists>c. CRYPTO_128_wrap rev (Some (replicate 8 0)) (replicate 16 3) = (24, c)
     \<and> (\<exists>inp. CRYPTO_128_wrap rev (Some (replicate 8 0)) inp = (24, c) \<and> CRYPTO_128_unwrap rev (Some (replicate 8 0)) c = (16, inp))
     \<and> \<not> (\<exists>inp. CRYPTO_128_wrap rev None inp = (24, c)) \<and> CRYPTO_128_unwrap rev None c = (0, replicate 16 0)"
    using w r(1) by blast
  show "CRYPTO_128_unwrap rev None [1, 2, 3] = (0, [])"
    using key_unwrap_accepts_only_wrapped [of rev rev None "[1, 2, 3]"] by simp
qed

text \<open>
  A message of 1 to 2^31 - 16 bytes is wrapped with zero padding to whole blocks, and
  unwrapping gives its length and its bytes, followed by the padding.
\<close>

theorem key_wrap_pad_roundtrip:
  assumes "\<forall>b. length b = 16 \<longrightarrow> length (E b) = 16 \<and> length (D b) = 16 \<and> D (E b) = b"
    and "icv = None \<or> (\<exists>v. icv = Some v \<and> length v = 4)" "0 < length inp" "length inp \<le> 2 ^ 31 - 16"
    and "pad = (length inp + 7) div 8 * 8 - length inp"
  shows "\<exists>c. CRYPTO_128_wrap_pad E icv inp = (length inp + pad + 8, c) \<and> length c = length inp + pad + 8
    \<and> CRYPTO_128_unwrap_pad D icv c = (length inp, inp @ replicate pad 0)"
proof -
  let ?n = "length inp"
  have lt: "?n < 2 ^ 31" using assms(4) by simp
  obtain c where c: "CRYPTO_128_wrap_pad E icv inp = (through_int (padded ?n + 8), c)" "length c = padded ?n + 8"
    "if padded ?n = 8 then D c = aiv_of icv ?n @ inp @ replicate (padded ?n - ?n) 0
     else crypto_128_unwrap_raw D c = (padded ?n, aiv_of icv ?n, inp @ replicate (padded ?n - ?n) 0)"
    using cipher128.wrap_pad_raw [OF cipher128I [OF assms(1)] assms(2,3) lt refl] by blast
  have p: "padded ?n + 8 < 2 ^ 31"
    using div_le_mono [of "?n + 7" "2 ^ 31 - 9" 8] assms(4) by (simp add: padded_def)
  have e: "padded ?n = ?n + pad" using padded(2) [of ?n] by (simp add: assms(5) padded_def)
  have "CRYPTO_128_unwrap_pad D icv c = (?n, inp @ replicate (padded ?n - ?n) 0)"
    using c(2) p by (intro unwrap_pad_accepts [OF assms(2,3) lt c(2) _ refl c(3)]) simp
  moreover have "through_int (padded ?n + 8) = padded ?n + 8" using p by (simp add: through_int_eq)
  ultimately show ?thesis using c(1,2) e by simp
qed

theorem key_wrap_pad_roundtrip_witness:
  "\<exists>c. CRYPTO_128_wrap_pad rev None [1, 2, 3] = (16, c) \<and> length c = 16 \<and> CRYPTO_128_unwrap_pad rev None c = (3, [1, 2, 3] @ replicate 5 0)"
  using key_wrap_pad_roundtrip [of rev rev None "[1, 2, 3]" 5] by (simp add: numeral_3_eq_3)

text \<open>
  The messages of more than 2^31 - 16 and less than 2^31 bytes are accepted, but the length
  comes back through a signed 32-bit variable as a number above 2^63, and no unwrapping accepts the result.
\<close>

theorem key_wrap_pad_long:
  assumes "\<forall>b. length b = 16 \<longrightarrow> length (E b) = 16 \<and> length (D b) = 16 \<and> D (E b) = b"
    and "icv = None \<or> (\<exists>v. icv = Some v \<and> length v = 4)" "2 ^ 31 - 16 < length inp" "length inp < 2 ^ 31"
  shows "\<exists>r c. CRYPTO_128_wrap_pad E icv inp = (r, c) \<and> 2 ^ 31 \<le> length c \<and> 2 ^ 63 < r \<and> CRYPTO_128_unwrap_pad D icv c = (0, [])"
proof -
  let ?n = "length inp"
  have pos: "0 < ?n" using assms(3) by linarith
  obtain c where c: "CRYPTO_128_wrap_pad E icv inp = (through_int (padded ?n + 8), c)" "length c = padded ?n + 8"
    using cipher128.wrap_pad_raw [OF cipher128I [OF assms(1)] assms(2) pos assms(4) refl] by blast
  have p: "2 ^ 31 - 8 \<le> padded ?n" "padded ?n \<le> 2 ^ 31"
    using div_le_mono [of "2 ^ 31 - 8" "?n + 7" 8] div_le_mono [of "?n + 7" "2 ^ 31 + 7" 8] assms(3,4) by (simp_all add: padded_def)
  then have "through_int (padded ?n + 8) = padded ?n + 8 + (2 ^ 64 - 2 ^ 32)" by (simp add: through_int_eq)
  moreover have "CRYPTO_128_unwrap_pad D icv c = (0, [])"
    using c(2) p(1) by (simp add: CRYPTO_128_unwrap_pad_def Let_def CRYPTO128_WRAP_MAX_def)
  ultimately show ?thesis using c p by (intro exI [of _ "through_int (padded ?n + 8)"] exI [of _ c]) simp
qed

theorem key_wrap_pad_long_witness:
  "\<exists>r c. CRYPTO_128_wrap_pad rev None (replicate (2 ^ 31 - 1) 0) = (r, c) \<and> 2 ^ 31 \<le> length c \<and> 2 ^ 63 < r
     \<and> CRYPTO_128_unwrap_pad rev None c = (0, [])"
  by (rule key_wrap_pad_long) simp_all

text \<open>
  When a padded unwrapping fails after the length check it clears as many bytes as
  the ciphertext has, 8 more than the plaintext buffer the function asks for.
\<close>

theorem key_unwrap_pad_overwrites:
  assumes "length c mod 8 = 0" "16 \<le> length c" "length c < 2 ^ 31" "CRYPTO_128_unwrap_pad D icv c = (0, out)"
  shows "out = replicate (length c) 0"
proof -
  have g: "\<not> (length c mod 8 \<noteq> 0 \<or> length c < 16 \<or> length c \<ge> CRYPTO128_WRAP_MAX)"
    using assms(1-3) by (simp add: CRYPTO128_WRAP_MAX_def)
  show ?thesis
    using assms(4) unfolding CRYPTO_128_unwrap_pad_def Let_def [of "length c"] if_not_P [OF g]
    by (auto simp: Let_def split: if_splits prod.splits)
qed

theorem key_unwrap_pad_overwrites_witness:
  "CRYPTO_128_unwrap_pad rev None (replicate 16 0) = (0, replicate 16 0)"
proof -
  have f: "fst (CRYPTO_128_unwrap_pad rev None (replicate 16 0)) = 0"
    by (simp add: CRYPTO_128_unwrap_pad_def Let_def default_aiv_def CRYPTO128_WRAP_MAX_def)
  then obtain out where o: "CRYPTO_128_unwrap_pad rev None (replicate 16 0) = (0, out)" by (metis surjective_pairing)
  then show ?thesis using key_unwrap_pad_overwrites [OF _ _ _ o] by simp
qed

end
