(* ===== verification/Modes64.thy ===== *)
theory Modes64
  imports Stream_Props
begin

text \<open>
  The modes of the ciphers with 64-bit blocks.  Each of these ciphers has its own copy of the same four files;
  here are the loads, stores and loops they share, for a cipher that maps a pair of 32-bit words to a pair
  (\<^verbatim>\<open>tin[2]\<close>, \<^verbatim>\<open>ti[2]\<close>, \<^verbatim>\<open>d[2]\<close>).  The files of a cipher are the instances, in its theory.

  \<open>cipher64\<close> is the contract of such a cipher; its lemmas are the round trips of the modes.
\<close>

type_synonym pair = "u32 \<times> u32"

section \<open>Loads and stores\<close>

text \<open>\<^verbatim>\<open>n2l(c, l)\<close> twice and \<^verbatim>\<open>l2n(l, c)\<close> twice.\<close>

definition n2l2 :: "u8 list \<Rightarrow> pair" where
  "n2l2 c = (load_be (take 4 c), load_be (take 4 (drop 4 c)))"

definition l2n2 :: "pair \<Rightarrow> u8 list" where
  "l2n2 = (\<lambda>(l1, l2). store_be 4 l1 @ store_be 4 l2)"

text \<open>The fall-through switches of \<^verbatim>\<open>n2ln\<close> and \<^verbatim>\<open>l2nn\<close> for the first \<open>n\<close> bytes.\<close>

definition n2ln :: "u8 list \<Rightarrow> nat \<Rightarrow> pair" where
  "n2ln c n =
     (let byte = (\<lambda>i k. if i < n then push_bit k (ucast (c ! i)) else 0 :: u32)
      in (byte 3 0 OR byte 2 8 OR byte 1 16 OR byte 0 24, byte 7 0 OR byte 6 8 OR byte 5 16 OR byte 4 24))"

definition l2nn :: "pair \<Rightarrow> nat \<Rightarrow> u8 list" where
  "l2nn = (\<lambda>(l1, l2) n. take n [ucast (drop_bit 24 l1), ucast (drop_bit 16 l1), ucast (drop_bit 8 l1), ucast l1,
                                ucast (drop_bit 24 l2), ucast (drop_bit 16 l2), ucast (drop_bit 8 l2), ucast l2])"

definition xor2 :: "pair \<Rightarrow> pair \<Rightarrow> pair" where
  "xor2 a b = (fst a XOR fst b, snd a XOR snd b)"

section \<open>Modes\<close>

definition ecb64 :: "(pair \<Rightarrow> pair) \<Rightarrow> u8 list \<Rightarrow> u8 list" where
  "ecb64 f inp = l2n2 (f (n2l2 inp))"

text \<open>CBC encryption: \<open>tout\<close> is the previous block; the last block may be short.\<close>

fun cbc64_enc :: "(pair \<Rightarrow> pair) \<Rightarrow> pair \<Rightarrow> u8 list \<Rightarrow> u8 list \<times> pair" where
  "cbc64_enc E tout inp =
     (if 8 \<le> length inp then
        let t = E (xor2 (n2l2 inp) tout); (out, r) = cbc64_enc E t (drop 8 inp) in (l2n2 t @ out, r)
      else if inp \<noteq> [] then let t = E (xor2 (n2ln inp (length inp)) tout) in (l2n2 t, t)
      else ([], tout))"

declare cbc64_enc.simps [simp del]

text \<open>CBC decryption of \<open>len\<close> bytes; whole blocks are read.\<close>

fun cbc64_dec :: "(pair \<Rightarrow> pair) \<Rightarrow> pair \<Rightarrow> nat \<Rightarrow> u8 list \<Rightarrow> (u8 list \<times> pair) res" where
  "cbc64_dec D x len inp =
     (if len = 0 then Inr ([], x)
      else if length inp < 8 then Inl OutOfBounds
      else let tin = n2l2 inp; tout = xor2 (D tin) x in
        if len < 8 then Inr (l2nn tout len, tin)
        else rbind (cbc64_dec D tin (len - 8) (drop 8 inp)) (\<lambda>(out, r). Inr (l2n2 tout @ out, r)))"

declare cbc64_dec.simps [simp del]

definition cbc64 :: "(pair \<Rightarrow> pair) \<Rightarrow> (pair \<Rightarrow> pair) \<Rightarrow> u8 list \<Rightarrow> nat \<Rightarrow> u8 list \<Rightarrow> bool \<Rightarrow> (u8 list \<times> u8 list) res" where
  "cbc64 E D inp len ivec enc =
     (if enc then (if length inp < len then Inl OutOfBounds
                   else let (out, t) = cbc64_enc E (n2l2 ivec) (take len inp) in Inr (out, l2n2 t))
      else rbind (cbc64_dec D (n2l2 ivec) len inp) (\<lambda>(out, x). Inr (out, l2n2 x)))"

text \<open>CFB: the vector is encrypted in place when a block begins.\<close>

definition cfb64 :: "(pair \<Rightarrow> pair) \<Rightarrow> u8 list \<Rightarrow> u8 list \<Rightarrow> int \<Rightarrow> bool \<Rightarrow> (u8 list \<times> u8 list \<times> int) res" where
  "cfb64 E inp ivec num enc =
     (if inp = [] then Inr ([], ivec, num)
      else if num < 0 then Inl OutOfBounds
      else rbind (stream_bytes 8 (\<lambda>iv. l2n2 (E (n2l2 iv))) (if enc then cfb_enc_byte else cfb_dec_byte) (nat num) ivec inp)
             (\<lambda>(out, iv, n). Inr (out, iv, int n)))"

text \<open>OFB: \<open>ti\<close> is the block of key stream, \<open>save\<close> whether it was renewed.\<close>

definition ofb64_byte :: "(pair \<times> bool) emit" where
  "ofb64_byte n x = (\<lambda>(ti, save). (x XOR l2n2 ti ! n, ti, save))"

definition ofb64 :: "(pair \<Rightarrow> pair) \<Rightarrow> u8 list \<Rightarrow> u8 list \<Rightarrow> int \<Rightarrow> (u8 list \<times> u8 list \<times> int) res" where
  "ofb64 E inp ivec num =
     (if inp = [] then Inr ([], ivec, num)
      else if num < 0 then Inl OutOfBounds
      else rbind (stream_bytes 8 (\<lambda>(ti, save). (E ti, True)) ofb64_byte (nat num) (n2l2 ivec, False) inp)
             (\<lambda>(out, (ti, save), n). Inr (out, if save then l2n2 ti else ivec, int n)))"

section \<open>Laws\<close>

lemma length_l2n2 [simp]: "length (l2n2 p) = 8"
  by (simp add: l2n2_def split: prod.split)

lemma n2l2_l2n2 [simp]: "n2l2 (l2n2 p @ r) = p"
  by (cases p) (simp add: n2l2_def l2n2_def load_store_be)

lemma n2l2_l2n2' [simp]: "n2l2 (l2n2 p) = p"
  using n2l2_l2n2 [of p "[]"] by simp

lemma l2n2_n2l2: "8 \<le> length c \<Longrightarrow> l2n2 (n2l2 c) = take 8 c"
proof -
  assume "8 \<le> length c"
  then have "l2n2 (n2l2 c) = take 4 c @ take 4 (drop 4 c)"
    by (simp add: n2l2_def l2n2_def store_load_be)
  also have "\<dots> = take 8 c" using take_add [of 4 4 c] by simp
  finally show ?thesis .
qed

lemma xor2_cancel [simp]: "xor2 (xor2 a b) b = a"
  by (simp add: xor2_def prod_eq_iff)

lemma store_be_4: "store_be 4 (v :: u32) = [ucast (drop_bit 24 v), ucast (drop_bit 16 v), ucast (drop_bit 8 v), ucast v]"
proof -
  have four: "(4 :: nat) = Suc (Suc (Suc (Suc 0)))" by simp
  show ?thesis unfolding store_be_def four store_le.simps by (simp add: drop_bit_drop_bit)
qed

lemma l2nn_take: "l2nn p n = take n (l2n2 p)"
  by (cases p) (simp add: l2nn_def l2n2_def store_be_4)

lemma load_be_4: "load_be [a, b, c, d] = (push_bit 24 (ucast a) OR push_bit 16 (ucast b) OR push_bit 8 (ucast c) OR ucast d :: u32)"
  by (simp add: load_be_def push_bit_or ac_simps)

text \<open>A short block is completed with zeros.\<close>

lemma n2ln_pad:
  assumes "n \<le> 8" "n \<le> length c" shows "n2ln c n = n2l2 (take n c @ replicate (8 - n) 0)"
proof -
  define z where "z i = (if i < n then c ! i else 0)" for i
  have "take n c @ replicate (8 - n) 0 = [z 0, z 1, z 2, z 3, z 4, z 5, z 6, z 7]"
    using assms by (intro nth_equalityI) (auto simp: z_def nth_append nth_Cons numeral_eq_Suc less_Suc_eq)
  then have "n2l2 (take n c @ replicate (8 - n) 0) = (load_be [z 0, z 1, z 2, z 3], load_be [z 4, z 5, z 6, z 7])"
    by (simp add: n2l2_def)
  moreover have "(if i < n then push_bit k (ucast (c ! i)) else 0 :: u32) = push_bit k (ucast (z i))" for i k
    by (simp add: z_def)
  ultimately show ?thesis by (simp add: n2ln_def load_be_4 Let_def ac_simps)
qed

locale cipher64 =
  fixes E D :: "pair \<Rightarrow> pair"
  assumes D_E: "D (E p) = p"
begin

lemma ecb64_roundtrip: "length b = 8 \<Longrightarrow> ecb64 D (ecb64 E b) = b"
  by (simp add: ecb64_def D_E l2n2_n2l2)

lemma cbc64_bytes:
  "cbc64_enc E x inp = (c, t) \<Longrightarrow> length c = 8 * ((length inp + 7) div 8) \<and> cbc64_dec D x (length inp) (c @ junk) = Inr (inp, t)"
proof (induction inp arbitrary: x c rule: length_induct)
  case (1 inp)
  note IH = 1(1) and e = 1(2)
  consider (whole) "8 \<le> length inp" | (short) "length inp < 8" "inp \<noteq> []" | (empty) "inp = []" by fastforce
  then show ?case
  proof cases
    case whole
    let ?t = "E (xor2 (n2l2 inp) x)"
    obtain out where r: "cbc64_enc E ?t (drop 8 inp) = (out, t)" "c = l2n2 ?t @ out"
      using e whole by (auto simp: cbc64_enc.simps [of E x inp] Let_def split: prod.splits)
    have l: "length (drop 8 inp) < length inp" using whole by (cases inp) auto
    have h: "length out = 8 * ((length (drop 8 inp) + 7) div 8)" "cbc64_dec D ?t (length inp - 8) (out @ junk) = Inr (drop 8 inp, t)"
      using IH [rule_format, OF l r(1)] by simp_all
    have "length c = 8 * ((length inp + 7) div 8)" using r(2) h(1) whole by (simp add: le_div_geq)
    moreover have "cbc64_dec D x (length inp) (c @ junk) = Inr (inp, t)"
      using r(2) h(2) whole by (auto simp: cbc64_dec.simps [of D x "length inp"] D_E l2n2_n2l2 Let_def)
    ultimately show ?thesis ..
  next
    case short
    let ?b = "inp @ replicate (8 - length inp) 0"
    let ?t = "E (xor2 (n2l2 ?b) x)"
    have c: "c = l2n2 ?t" "t = ?t"
      using e short by (auto simp: cbc64_enc.simps [of E x inp] n2ln_pad Let_def)
    obtain k where "length inp = Suc k" using short(2) by (cases inp) auto
    with short(1) have "(length inp + 7) div 8 = 1" by simp
    then show ?thesis
      using c short by (simp add: cbc64_dec.simps [of D x "length inp"] D_E l2nn_take l2n2_n2l2 Let_def)
  next
    case empty
    then show ?thesis using e by (simp add: cbc64_enc.simps cbc64_dec.simps)
  qed
qed

lemma cbc64_roundtrip:
  assumes "length ivec = 8"
  shows "\<exists>c ivec'. cbc64 E D inp (length inp) ivec True = Inr (c, ivec') \<and> length c = 8 * ((length inp + 7) div 8)
    \<and> cbc64 E D (c @ junk) (length inp) ivec False = Inr (inp, ivec')"
proof -
  obtain c t where "cbc64_enc E (n2l2 ivec) inp = (c, t)" by (metis surj_pair)
  with cbc64_bytes [OF this, of junk] show ?thesis by (simp add: cbc64_def)
qed

end

text \<open>CFB and OFB need only the encryption function.\<close>

lemma cfb64_roundtrip:
  assumes "0 \<le> num" "num < 8"
  shows "\<exists>out ivec' num'. cfb64 E inp ivec num True = Inr (out, ivec', num') \<and> length out = length inp
    \<and> num' = (num + int (length inp)) mod 8 \<and> cfb64 E out ivec num False = Inr (inp, ivec', num')"
proof (cases "inp = []")
  case True
  then show ?thesis using assms by (simp add: cfb64_def)
next
  case False
  let ?r = "\<lambda>iv. l2n2 (E (n2l2 iv))"
  have n: "nat num < 8" using assms by simp
  obtain out iv n' where s: "stream_bytes 8 ?r cfb_enc_byte (nat num) ivec inp = Inr (out, iv, n')"
    using stream_bytes_total [OF n] by (metis surj_pair)
  have d: "stream_bytes 8 ?r cfb_dec_byte (nat num) ivec out = Inr (inp, iv, n')"
    using s by (rule stream_bytes_roundtrip [rotated]) (simp add: cfb_enc_byte_def cfb_dec_byte_def Let_def)
  have "int n' = (num + int (length inp)) mod 8" using stream_bytes_index [OF s n] assms(1) by (simp add: zmod_int)
  moreover have "length out = length inp" by (rule stream_bytes_length [OF s])
  ultimately show ?thesis using s d False assms(1) by (auto simp: cfb64_def)
qed

lemma ofb64_roundtrip:
  assumes "0 \<le> num" "num < 8"
  shows "\<exists>out ivec' num'. ofb64 E inp ivec num = Inr (out, ivec', num') \<and> length out = length inp
    \<and> num' = (num + int (length inp)) mod 8 \<and> ofb64 E out ivec num = Inr (inp, ivec', num')"
proof (cases "inp = []")
  case True
  then show ?thesis using assms by (simp add: ofb64_def)
next
  case False
  let ?r = "\<lambda>(ti, save). (E ti, True)" and ?s = "(n2l2 ivec, False)"
  have n: "nat num < 8" using assms by simp
  obtain out ti save n' where s: "stream_bytes 8 ?r ofb64_byte (nat num) ?s inp = Inr (out, (ti, save), n')"
    using stream_bytes_total [OF n] by (metis surj_pair)
  have d: "stream_bytes 8 ?r ofb64_byte (nat num) ?s out = Inr (inp, (ti, save), n')"
    using s by (rule stream_bytes_roundtrip [rotated]) (auto simp: ofb64_byte_def split: prod.splits)
  have "int n' = (num + int (length inp)) mod 8" using stream_bytes_index [OF s n] assms(1) by (simp add: zmod_int)
  moreover have "length out = length inp" by (rule stream_bytes_length [OF s])
  ultimately show ?thesis using s d False assms(1) by (auto simp: ofb64_def)
qed

text \<open>A position outside the block is not checked.\<close>

lemma bad_position64:
  assumes "num < 0 \<or> 8 \<le> num" "inp \<noteq> []"
  shows "cfb64 E inp ivec num enc = Inl OutOfBounds" "ofb64 E inp ivec num = Inl OutOfBounds"
proof -
  have "0 \<le> num \<Longrightarrow> 8 \<le> nat num" using assms(1) by linarith
  then show "cfb64 E inp ivec num enc = Inl OutOfBounds" "ofb64 E inp ivec num = Inl OutOfBounds"
    using assms by (cases inp; cases "num < 0"; simp add: cfb64_def ofb64_def)+
qed

end
