(* ===== verification/Blowfish_Props.thy ===== *)
theory Blowfish_Props
  imports Blowfish
begin

text \<open>
  What the key schedule of Blowfish makes of a key, and the round trips of the modes on it.
\<close>

section \<open>The key schedule\<close>

definition BF_KEY_ok :: "BF_KEY \<Rightarrow> bool" where
  "BF_KEY_ok key \<longleftrightarrow> length (P key) = 18 \<and> length (S key) = 1024"

text \<open>The schedule after the key was combined with \<^verbatim>\<open>P\<close>.\<close>

definition expand_key :: "u32 list \<Rightarrow> BF_KEY" where
  "expand_key p =
     (let (inp, key) = fill_P (map (\<lambda>i. 2 * i) [0..<9]) (0, 0) (bf_init\<lparr>P := p\<rparr>)
      in snd (fill_S (map (\<lambda>i. 2 * i) [0..<512]) inp key))"

lemma set_key_expand:
  "BF_set_key len data = rbind (xor_key data (if len > 72 then 72 else len) 0 (P bf_init)) (\<lambda>p. Inr (expand_key p))"
  by (simp add: BF_set_key_def expand_key_def Let_def split_def)

lemma expand_key_ok: "length p = 18 \<Longrightarrow> BF_KEY_ok (expand_key p)"
  by (simp add: BF_KEY_ok_def expand_key_def Let_def split_def length_fill_S length_fill_P length_bf_init)

text \<open>The words the key contributes: its first \<open>n\<close> bytes, repeated as often as needed.\<close>

definition key_words :: "u8 list \<Rightarrow> nat \<Rightarrow> u32 list" where
  "key_words data n = map (\<lambda>i. load_be (map (\<lambda>j. data ! ((4 * i + j) mod n)) [0..<4])) [0..<18]"

lemma set_key_in:
  assumes "0 < n" "n \<le> length data"
  shows "xor_key data (int n) 0 (P bf_init) = Inr (map2 (XOR) (P bf_init) (key_words data n))"
proof -
  have "map (\<lambda>i. P bf_init ! i XOR load_be (map (\<lambda>j. data ! ((0 + 4 * i + j) mod n)) [0..<4])) [0..<length (P bf_init)]
      = map2 (XOR) (P bf_init) (key_words data n)"
    by (rule nth_equalityI) (simp_all add: key_words_def length_bf_init)
  with xor_key_in [OF assms assms(1)] show ?thesis by simp
qed

lemma set_key_Inr:
  assumes "0 < len" "min len 72 \<le> length data"
  shows "BF_set_key (int len) data = Inr (expand_key (map2 (XOR) (P bf_init) (key_words data (min len 72))))"
proof -
  have "(if int len > 72 then 72 else int len) = int (min len 72)" by simp
  then show ?thesis
    using assms by (simp only: set_key_expand) (subst set_key_in; simp)
qed

lemma length_key_xor: "length (map2 (XOR) (P bf_init) (key_words data n)) = 18"
  by (simp add: key_words_def length_bf_init)

lemma key_words_cong: "(\<And>x. data ! (x mod n) = data' ! (x mod n')) \<Longrightarrow> key_words data n = key_words data' n'"
  by (simp add: key_words_def)

lemma key_words_twice:
  assumes "0 < length k" shows "key_words (k @ k) (length k + length k) = key_words k (length k)"
proof (rule key_words_cong)
  fix x
  let ?n = "length k" and ?y = "x mod (length k + length k)"
  have "?y < ?n + ?n" using assms by simp
  moreover have "?y mod ?n = x mod ?n" by (simp add: mod_mod_cancel flip: mult_2)
  moreover have "?y mod ?n = (if ?y < ?n then ?y else ?y - ?n)"
    using \<open>?y < ?n + ?n\<close> by (simp add: le_mod_geq not_less)
  ultimately show "(k @ k) ! ?y = k ! (x mod ?n)"
    by (simp add: nth_append split: if_splits)
qed

text \<open>Without a length the first byte is used for all of them.\<close>

lemma key_word_none:
  assumes "len \<le> 0" "data \<noteq> []"
  shows "key_word data len 0 = key_word data 1 0"
  using assms by (simp add: key_word_def key_byte_def)

lemma xor_key_none:
  assumes "len \<le> 0" "data \<noteq> []"
  shows "xor_key data len 0 ps = xor_key data 1 0 ps"
proof (induction ps)
  case (Cons p ps)
  have "key_word data 1 0 = Inr (w, d) \<Longrightarrow> d = 0" for w d
    using assms(2) by (auto simp: key_word_def key_byte_def)
  with Cons show ?case
    by (cases "key_word data 1 0") (auto simp: key_word_none [OF assms])
qed simp

section \<open>Results\<close>

text \<open>
  For a key of at least one byte (of which the first \<open>min len 72\<close> are there) the key schedule
  reads only those bytes and returns 18 words of \<^verbatim>\<open>P\<close> and 1024 of \<^verbatim>\<open>S\<close>.  Bytes after the 72nd do not matter, and
  neither does writing the key twice in a row: both give the same schedule.
\<close>

theorem BF_set_key_correct:
  assumes "0 < len" "min len 72 \<le> length data"
  shows "\<exists>key. BF_set_key (int len) data = Inr key \<and> BF_KEY_ok key
    \<and> BF_set_key (int (min len 72)) (take (min len 72) data) = Inr key
    \<and> (len = length data \<and> len \<le> 36 \<longrightarrow> BF_set_key (int (2 * len)) (data @ data) = Inr key)"
proof -
  let ?n = "min len 72"
  let ?key = "expand_key (map2 (XOR) (P bf_init) (key_words data ?n))"
  have n: "0 < ?n" "min ?n 72 \<le> length (take ?n data)" using assms by auto
  have "key_words (take ?n data) ?n = key_words data ?n"
    by (intro key_words_cong nth_take) (rule mod_less_divisor [OF n(1)])
  then have t: "BF_set_key (int ?n) (take ?n data) = Inr ?key"
    using set_key_Inr [OF n] by (simp del: of_nat_min)
  have "BF_set_key (int (2 * len)) (data @ data) = Inr ?key" if l: "len = length data" "len \<le> 36"
  proof -
    have m: "min (2 * len) 72 = length data + length data" "?n = length data" using l by simp_all
    have "0 < 2 * len" "min (2 * len) 72 \<le> length (data @ data)" using l assms(1) by simp_all
    from set_key_Inr [OF this] show ?thesis
      using assms(1) l(1) unfolding m by (simp only: key_words_twice)
  qed
  then show ?thesis
    using t set_key_Inr [OF assms] expand_key_ok [OF length_key_xor] by blast
qed

theorem BF_set_key_correct_witness:
  "\<exists>key. BF_set_key 3 [1, 2, 3] = Inr key \<and> BF_KEY_ok key \<and> BF_set_key 6 [1, 2, 3, 1, 2, 3] = Inr key"
  using BF_set_key_correct [of 3 "[1, 2, 3]"] by auto

text \<open>
  A length of zero or less is not refused.  With an empty buffer the schedule reads outside it;
  otherwise it uses the first byte, which does not belong to the key, as if the key were that byte.
\<close>

theorem BF_set_key_empty:
  assumes "len \<le> 0"
  shows "BF_set_key len [] = Inl OutOfBounds \<and> (data \<noteq> [] \<longrightarrow> BF_set_key len data = BF_set_key 1 [hd data])"
proof (intro conjI impI)
  obtain p ps where "P bf_init = p # ps" using length_bf_init(1) by (cases "P bf_init") auto
  then show "BF_set_key len [] = Inl OutOfBounds"
    using assms by (simp add: set_key_expand key_word_def key_byte_def)
next
  assume d: "data \<noteq> []"
  have "key_words data 1 = key_words [hd data] 1"
    using d by (intro key_words_cong) (simp add: hd_conv_nth)
  then have "xor_key data 1 0 (P bf_init) = xor_key [hd data] 1 0 (P bf_init)"
    using set_key_in [of 1 data] set_key_in [of 1 "[hd data]"] d by (cases data) simp_all
  then show "BF_set_key len data = BF_set_key 1 [hd data]"
    using assms d by (simp add: set_key_expand xor_key_none)
qed

theorem BF_set_key_empty_witness: "BF_set_key 0 [] = Inl OutOfBounds \<and> BF_set_key 0 [7, 8] = BF_set_key 1 [7]"
  using BF_set_key_empty [of 0 "[7, 8]"] by simp

text \<open>
  C38: in all four modes, and whatever the key, decryption gives the message back.  CBC takes messages of
  any length, writes whole blocks, ignores what follows them and returns the vector encryption returned; CFB and OFB keep
  the length and start and stop at any byte of a block.
\<close>

theorem BF_modes_roundtrip:
  fixes key :: BF_KEY
  assumes "length block = 8" "length ivec = 8" "0 \<le> num" "num < 8"
  shows "BF_ecb_encrypt (BF_ecb_encrypt block key True) key False = block
    \<and> (\<exists>c ivec'. BF_cbc_encrypt msg (length msg) key ivec True = Inr (c, ivec') \<and> length c = 8 * ((length msg + 7) div 8)
      \<and> BF_cbc_encrypt (c @ junk) (length msg) key ivec False = Inr (msg, ivec'))
    \<and> (\<exists>c ivec' num'. BF_cfb64_encrypt msg key ivec num True = Inr (c, ivec', num') \<and> length c = length msg
      \<and> num' = (num + int (length msg)) mod 8 \<and> BF_cfb64_encrypt c key ivec num False = Inr (msg, ivec', num'))
    \<and> (\<exists>c ivec' num'. BF_ofb64_encrypt msg key ivec num = Inr (c, ivec', num') \<and> length c = length msg
      \<and> num' = (num + int (length msg)) mod 8 \<and> BF_ofb64_encrypt c key ivec num = Inr (msg, ivec', num'))"
  unfolding BF_ecb_encrypt_def BF_cbc_encrypt_def BF_cfb64_encrypt_def BF_ofb64_encrypt_def
  using bf.ecb64_roundtrip [OF assms(1)] bf.cbc64_roundtrip [OF assms(2)]
    cfb64_roundtrip [OF assms(3,4)] ofb64_roundtrip [OF assms(3,4)] by (intro conjI) simp_all

theorem BF_modes_roundtrip_witness:
  "\<exists>c ivec'. BF_cbc_encrypt [1, 2, 3] 3 bf_init (replicate 8 0) True = Inr (c, ivec') \<and> length c = 8
    \<and> BF_cbc_encrypt (c @ [9]) 3 bf_init (replicate 8 0) False = Inr ([1, 2, 3], ivec')"
  using BF_modes_roundtrip [of "replicate 8 0" "replicate 8 0" 0 bf_init "[1, 2, 3]" "[9]"]
  by (simp add: numeral_3_eq_3)

end
