(* ===== verification/AES_Tables.thy ===== *)
theory AES_Tables
  imports AES SM4_Props Key_Wrap_Props
begin

text \<open>
  AES: the eight tables of words are the S-box, or its inverse, followed by the column mixing, or its inverse, over the field
  with 256 elements; so a round by tables is a substitution with a permutation of the bytes, a linear map on each word and the
  round key, and decryption with the reversed and mixed schedule undoes encryption.
\<close>

section \<open>Words of four bytes\<close>

definition pack :: "u8 \<Rightarrow> u8 \<Rightarrow> u8 \<Rightarrow> u8 \<Rightarrow> u32" where
  "pack a b c d = push_bit 24 (ucast a) XOR push_bit 16 (ucast b) XOR push_bit 8 (ucast c) XOR ucast d"

definition byte_of :: "nat \<Rightarrow> u32 \<Rightarrow> u8" where
  "byte_of k w = ucast (drop_bit k w)"

lemma bit_pack:
  "bit (pack a b c d) n \<longleftrightarrow>
     (if n < 8 then bit d n else if n < 16 then bit c (n - 8) else if n < 24 then bit b (n - 16) else bit a (n - 24))"
  by (auto simp: pack_def bit_simps dest: bit_imp_le_length)

lemma byte_of_pack [simp]:
  "byte_of 24 (pack a b c d) = a" "byte_of 16 (pack a b c d) = b" "byte_of 8 (pack a b c d) = c" "byte_of 0 (pack a b c d) = d"
  by (rule bit_word_eqI; simp add: byte_of_def bit_simps bit_pack)+

lemma pack_byte_of [simp]: "pack (byte_of 24 w) (byte_of 16 w) (byte_of 8 w) (byte_of 0 w) = w"
  by (rule bit_word_eqI) (auto simp: byte_of_def bit_simps bit_pack)

lemma pack_cases: obtains a b c d where "w = pack a b c d"
  using pack_byte_of [of w] by metis

lemma pack_inject [simp]: "pack a b c d = pack a' b' c' d' \<longleftrightarrow> a = a' \<and> b = b' \<and> c = c' \<and> d = d'"
  by (metis byte_of_pack)

lemma pack_xor: "pack a b c d XOR pack a' b' c' d' = pack (a XOR a') (b XOR b') (c XOR c') (d XOR d')"
  by (rule bit_word_eqI) (simp add: bit_simps bit_pack)

lemma byte_of_xor: "byte_of k (v XOR w) = byte_of k v XOR byte_of k w"
  by (rule bit_word_eqI) (simp add: byte_of_def bit_simps)

lemma bit_masks:
  "bit (0xff000000 :: u32) n \<longleftrightarrow> 24 \<le> n \<and> n < 32" "bit (0xff0000 :: u32) n \<longleftrightarrow> 16 \<le> n \<and> n < 24"
  "bit (0xff00 :: u32) n \<longleftrightarrow> 8 \<le> n \<and> n < 16" "bit (0xff :: u32) n \<longleftrightarrow> n < 8"
proof -
  have "(0xff000000 :: u32) = push_bit 24 (mask 8)" "(0xff0000 :: u32) = push_bit 16 (mask 8)"
    "(0xff00 :: u32) = push_bit 8 (mask 8)" "(0xff :: u32) = mask 8"
    by code_simp+
  then show "bit (0xff000000 :: u32) n \<longleftrightarrow> 24 \<le> n \<and> n < 32" "bit (0xff0000 :: u32) n \<longleftrightarrow> 16 \<le> n \<and> n < 24"
    "bit (0xff00 :: u32) n \<longleftrightarrow> 8 \<le> n \<and> n < 16" "bit (0xff :: u32) n \<longleftrightarrow> n < 8"
    by (simp_all only: bit_simps) auto
qed

lemma pack_masks:
  "pack a b c d AND 0xff000000 = pack a 0 0 0" "pack a b c d AND 0xff0000 = pack 0 b 0 0"
  "pack a b c d AND 0xff00 = pack 0 0 c 0" "pack a b c d AND 0xff = pack 0 0 0 d"
  by (rule bit_word_eqI; simp only: bit_and_iff bit_masks bit_pack bit_0_eq bot_apply; auto)+

lemma byte_at_eq: "byte_at w k = unat (byte_of k w)"
  by (simp add: byte_at_def byte_of_def)

section \<open>The field\<close>

definition xtime :: "u8 \<Rightarrow> u8" where
  "xtime a = push_bit 1 a XOR (if bit a 7 then 0x1b else 0)"

lemma xtime_xor: "xtime (a XOR b) = xtime a XOR xtime b"
  by (simp add: xtime_def bit_xor_iff push_bit_xor ac_simps)

definition m3 :: "u8 \<Rightarrow> u8" where "m3 a = xtime a XOR a"
definition m9 :: "u8 \<Rightarrow> u8" where "m9 a = xtime (xtime (xtime a)) XOR a"
definition m11 :: "u8 \<Rightarrow> u8" where "m11 a = xtime (xtime (xtime a)) XOR xtime a XOR a"
definition m13 :: "u8 \<Rightarrow> u8" where "m13 a = xtime (xtime (xtime a)) XOR xtime (xtime a) XOR a"
definition m14 :: "u8 \<Rightarrow> u8" where "m14 a = xtime (xtime (xtime a)) XOR xtime (xtime a) XOR xtime a"

lemmas field_defs = m3_def m9_def m11_def m13_def m14_def

definition mix :: "u32 \<Rightarrow> u32" where
  "mix w = (let a = byte_of 24 w; b = byte_of 16 w; c = byte_of 8 w; d = byte_of 0 w in
     pack (xtime a XOR m3 b XOR c XOR d) (a XOR xtime b XOR m3 c XOR d) (a XOR b XOR xtime c XOR m3 d) (m3 a XOR b XOR c XOR xtime d))"

definition unmix :: "u32 \<Rightarrow> u32" where
  "unmix w = (let a = byte_of 24 w; b = byte_of 16 w; c = byte_of 8 w; d = byte_of 0 w in
     pack (m14 a XOR m11 b XOR m13 c XOR m9 d) (m9 a XOR m14 b XOR m11 c XOR m13 d)
       (m13 a XOR m9 b XOR m14 c XOR m11 d) (m11 a XOR m13 b XOR m9 c XOR m14 d))"

lemma unmix_xor: "unmix (v XOR w) = unmix v XOR unmix w"
  by (simp add: unmix_def Let_def byte_of_xor pack_xor field_defs xtime_xor ac_simps)

lemma unmix_mix: "unmix (mix w) = w"
  by (rule pack_cases [of w]) (simp add: unmix_def mix_def Let_def field_defs xtime_xor ac_simps)

section \<open>The tables\<close>

lemma tables_length: "length Te4 = 256" "length Td4 = 256"
  by (simp_all add: Te4_def Td4_def)

lemma Te0_eq: "Te0 = map (\<lambda>s. pack (xtime s) s s (m3 s)) Te4"
  by (simp add: Te0_def Te4_def pack_def field_defs xtime_def)

lemma Te1_eq: "Te1 = map (\<lambda>s. pack (m3 s) (xtime s) s s) Te4"
  by (simp add: Te1_def Te4_def pack_def field_defs xtime_def)

lemma Te2_eq: "Te2 = map (\<lambda>s. pack s (m3 s) (xtime s) s) Te4"
  by (simp add: Te2_def Te4_def pack_def field_defs xtime_def)

lemma Te3_eq: "Te3 = map (\<lambda>s. pack s s (m3 s) (xtime s)) Te4"
  by (simp add: Te3_def Te4_def pack_def field_defs xtime_def)

lemma Td0_eq: "Td0 = map (\<lambda>s. pack (m14 s) (m9 s) (m13 s) (m11 s)) Td4"
  by (simp add: Td0_def Td4_def pack_def field_defs xtime_def)

lemma Td1_eq: "Td1 = map (\<lambda>s. pack (m11 s) (m14 s) (m9 s) (m13 s)) Td4"
  by (simp add: Td1_def Td4_def pack_def field_defs xtime_def)

lemma Td2_eq: "Td2 = map (\<lambda>s. pack (m13 s) (m11 s) (m14 s) (m9 s)) Td4"
  by (simp add: Td2_def Td4_def pack_def field_defs xtime_def)

lemma Td3_eq: "Td3 = map (\<lambda>s. pack (m9 s) (m13 s) (m11 s) (m14 s)) Td4"
  by (simp add: Td3_def Td4_def pack_def field_defs xtime_def)

lemma Td4_Te4_list: "map (\<lambda>s. Td4 ! unat s) Te4 = map of_nat [0..<256]"
  by code_simp

definition Sub :: "u8 \<Rightarrow> u8" where "Sub x = Te4 ! unat x"
definition InvSub :: "u8 \<Rightarrow> u8" where "InvSub x = Td4 ! unat x"

lemma u8_less: "unat (x :: u8) < 256"
  using unsigned_less [of x, where 'a = nat] by simp

lemma InvSub_Sub [simp]: "InvSub (Sub x) = x"
proof -
  have "map (\<lambda>s. Td4 ! unat s) Te4 ! unat x = map of_nat [0..<256] ! unat x" by (simp only: Td4_Te4_list)
  then show ?thesis using u8_less [of x] by (simp add: Sub_def InvSub_def tables_length)
qed

lemma Te_nth:
  "Te0 ! unat x = pack (xtime (Sub x)) (Sub x) (Sub x) (m3 (Sub x))" "Te1 ! unat x = pack (m3 (Sub x)) (xtime (Sub x)) (Sub x) (Sub x)"
  "Te2 ! unat x = pack (Sub x) (m3 (Sub x)) (xtime (Sub x)) (Sub x)" "Te3 ! unat x = pack (Sub x) (Sub x) (m3 (Sub x)) (xtime (Sub x))"
  by (simp_all add: Te0_eq Te1_eq Te2_eq Te3_eq Sub_def tables_length u8_less)

lemma Td_nth:
  "Td0 ! unat x = pack (m14 (InvSub x)) (m9 (InvSub x)) (m13 (InvSub x)) (m11 (InvSub x))" "Td1 ! unat x = pack (m11 (InvSub x)) (m14 (InvSub x)) (m9 (InvSub x)) (m13 (InvSub x))"
  "Td2 ! unat x = pack (m13 (InvSub x)) (m11 (InvSub x)) (m14 (InvSub x)) (m9 (InvSub x))" "Td3 ! unat x = pack (m9 (InvSub x)) (m13 (InvSub x)) (m11 (InvSub x)) (m14 (InvSub x))"
  by (simp_all add: Td0_eq Td1_eq Td2_eq Td3_eq InvSub_def tables_length u8_less)

lemma unat_pack_low: "unat (pack 0 0 0 x) = unat x"
  by (simp add: pack_def unsigned_ucast_eq take_bit_nat_eq_self less_trans [OF u8_less])

lemma inv_mix_eq: "inv_mix w = unmix w"
  by (simp add: inv_mix_def unmix_def byte_at_eq Te_nth pack_masks unat_pack_low Td_nth pack_xor Let_def)

end
