(* ===== verification/AES_Props.thy ===== *)
theory AES_Props
  imports AES_Tables Stream_Results CBC_Results
begin

text \<open>
  AES: a round by tables is a substitution with a permutation of the bytes, a linear map on each word and the round key; the
  schedule for decryption is the reversed schedule with the inner round keys mixed backwards; so decryption undoes
  encryption, and AES with the two schedules of a key is an instance of the contract of the modes.
\<close>

section \<open>Rounds\<close>

definition map4 :: "(u32 \<Rightarrow> u32) \<Rightarrow> quad \<Rightarrow> quad" where
  "map4 f = (\<lambda>(s0, s1, s2, s3). (f s0, f s1, f s2, f s3))"

definition xor4 :: "quad \<Rightarrow> quad \<Rightarrow> quad" where
  "xor4 = (\<lambda>(s0, s1, s2, s3) (t0, t1, t2, t3). (s0 XOR t0, s1 XOR t1, s2 XOR t2, s3 XOR t3))"

text \<open>The round key at \<open>off\<close>, the substitution with the shift of the rows, and its inverse.\<close>

definition key_at :: "u32 list \<Rightarrow> nat \<Rightarrow> quad" where
  "key_at rk off = (rk ! off, rk ! (off + 1), rk ! (off + 2), rk ! (off + 3))"

definition sub_shift :: "quad \<Rightarrow> quad" where
  "sub_shift = (\<lambda>(s0, s1, s2, s3).
     let row = (\<lambda>a b c d. pack (Sub (byte_of 24 a)) (Sub (byte_of 16 b)) (Sub (byte_of 8 c)) (Sub (byte_of 0 d)))
     in (row s0 s1 s2 s3, row s1 s2 s3 s0, row s2 s3 s0 s1, row s3 s0 s1 s2))"

definition unsub_shift :: "quad \<Rightarrow> quad" where
  "unsub_shift = (\<lambda>(s0, s1, s2, s3).
     let row = (\<lambda>a b c d. pack (InvSub (byte_of 24 a)) (InvSub (byte_of 16 b)) (InvSub (byte_of 8 c)) (InvSub (byte_of 0 d)))
     in (row s0 s3 s2 s1, row s1 s0 s3 s2, row s2 s1 s0 s3, row s3 s2 s1 s0))"

lemma unsub_sub_shift: "unsub_shift (sub_shift s) = s"
  by (cases s) (simp add: unsub_shift_def sub_shift_def Let_def)

lemma xor4_cancel: "xor4 (xor4 s k) k = s"
  by (cases s; cases k) (simp add: xor4_def xor.assoc)

lemma map4_xor4: "map4 unmix (xor4 s k) = xor4 (map4 unmix s) (map4 unmix k)"
  by (cases s; cases k) (simp add: map4_def xor4_def unmix_xor)

lemma map4_unmix_mix: "map4 unmix (map4 mix s) = s"
  by (cases s) (simp add: map4_def unmix_mix)

lemma mix_columns:
  "Te0 ! byte_at a 24 XOR Te1 ! byte_at b 16 XOR Te2 ! byte_at c 8 XOR Te3 ! byte_at d 0 XOR k =
     mix (pack (Sub (byte_of 24 a)) (Sub (byte_of 16 b)) (Sub (byte_of 8 c)) (Sub (byte_of 0 d))) XOR k"
proof -
  have "Te0 ! byte_at a 24 XOR Te1 ! byte_at b 16 XOR Te2 ! byte_at c 8 XOR Te3 ! byte_at d 0 =
     mix (pack (Sub (byte_of 24 a)) (Sub (byte_of 16 b)) (Sub (byte_of 8 c)) (Sub (byte_of 0 d)))"
    by (simp add: byte_at_eq Te_nth pack_xor mix_def Let_def)
  from arg_cong [OF this, of "\<lambda>w. w XOR k"] show ?thesis by (simp only: xor.assoc)
qed

lemma unmix_columns:
  "Td0 ! byte_at a 24 XOR Td1 ! byte_at b 16 XOR Td2 ! byte_at c 8 XOR Td3 ! byte_at d 0 XOR k =
     unmix (pack (InvSub (byte_of 24 a)) (InvSub (byte_of 16 b)) (InvSub (byte_of 8 c)) (InvSub (byte_of 0 d))) XOR k"
proof -
  have "Td0 ! byte_at a 24 XOR Td1 ! byte_at b 16 XOR Td2 ! byte_at c 8 XOR Td3 ! byte_at d 0 =
     unmix (pack (InvSub (byte_of 24 a)) (InvSub (byte_of 16 b)) (InvSub (byte_of 8 c)) (InvSub (byte_of 0 d)))"
    by (simp add: byte_at_eq Td_nth pack_xor unmix_def Let_def)
  from arg_cong [OF this, of "\<lambda>w. w XOR k"] show ?thesis by (simp only: xor.assoc)
qed

lemma last_columns:
  "(Te2 ! byte_at a 24 AND 0xff000000) XOR (Te3 ! byte_at b 16 AND 0x00ff0000) XOR (Te0 ! byte_at c 8 AND 0x0000ff00)
     XOR (Te1 ! byte_at d 0 AND 0x000000ff) XOR k =
     pack (Sub (byte_of 24 a)) (Sub (byte_of 16 b)) (Sub (byte_of 8 c)) (Sub (byte_of 0 d)) XOR k"
proof -
  have "(Te2 ! byte_at a 24 AND 0xff000000) XOR (Te3 ! byte_at b 16 AND 0x00ff0000) XOR (Te0 ! byte_at c 8 AND 0x0000ff00)
     XOR (Te1 ! byte_at d 0 AND 0x000000ff) =
     pack (Sub (byte_of 24 a)) (Sub (byte_of 16 b)) (Sub (byte_of 8 c)) (Sub (byte_of 0 d))"
    by (simp add: byte_at_eq Te_nth pack_masks pack_xor)
  from arg_cong [OF this, of "\<lambda>w. w XOR k"] show ?thesis by (simp only: xor.assoc)
qed

lemma unlast_columns:
  "push_bit 24 (ucast (Td4 ! byte_at a 24)) XOR push_bit 16 (ucast (Td4 ! byte_at b 16)) XOR push_bit 8 (ucast (Td4 ! byte_at c 8))
     XOR ucast (Td4 ! byte_at d 0) XOR k =
     pack (InvSub (byte_of 24 a)) (InvSub (byte_of 16 b)) (InvSub (byte_of 8 c)) (InvSub (byte_of 0 d)) XOR k"
  by (simp only: pack_def InvSub_def byte_at_eq xor.assoc)

lemma enc_round_eq: "enc_round rk off s = xor4 (map4 mix (sub_shift s)) (key_at rk off)"
  by (cases s) (simp only: enc_round_def mix_columns sub_shift_def map4_def xor4_def key_at_def Let_def split_conv)

lemma enc_last_eq: "enc_last rk off s = xor4 (sub_shift s) (key_at rk off)"
  by (cases s) (simp only: enc_last_def last_columns sub_shift_def xor4_def key_at_def Let_def split_conv)

lemma dec_round_eq: "dec_round rk off s = xor4 (map4 unmix (unsub_shift s)) (key_at rk off)"
  by (cases s) (simp only: dec_round_def unmix_columns unsub_shift_def map4_def xor4_def key_at_def Let_def split_conv)

lemma dec_last_eq: "dec_last rk off s = xor4 (unsub_shift s) (key_at rk off)"
  by (cases s) (simp only: dec_last_def unlast_columns unsub_shift_def xor4_def key_at_def Let_def split_conv)

section \<open>The loop\<close>

fun rounds_upto :: "(u32 list \<Rightarrow> nat \<Rightarrow> quad \<Rightarrow> quad) \<Rightarrow> u32 list \<Rightarrow> nat \<Rightarrow> quad \<Rightarrow> quad" where
  "rounds_upto f rk 0 s = s"
| "rounds_upto f rk (Suc i) s = f rk (4 * Suc i) (rounds_upto f rk i s)"

lemma aes_loop_eq:
  "0 < r \<Longrightarrow> aes_loop f rk r (8 * i) (rounds_upto f rk (2 * i) s) = (rounds_upto f rk (2 * (i + r) - 1) s, 8 * (i + r))"
proof (induction r arbitrary: i)
  case (Suc r)
  show ?case
  proof (cases "r = 0")
    case True
    then show ?thesis by (simp add: add.commute)
  next
    case False
    then have "aes_loop f rk (Suc r) (8 * i) x = aes_loop f rk r (8 * Suc i) (f rk (4 * Suc (Suc (2 * i))) (f rk (4 * Suc (2 * i)) x))" for x
      by (simp add: Let_def add.commute)
    moreover have "2 * Suc i = Suc (Suc (2 * i))" "Suc i + r = i + Suc r" by simp_all
    ultimately show ?thesis using Suc.IH [of "Suc i"] False by (simp only: rounds_upto.simps)
  qed
qed simp

lemma aes_loop_rounds: "0 < r \<Longrightarrow> aes_loop f rk r 0 s = (rounds_upto f rk (2 * r - 1) s, 8 * r)"
  using aes_loop_eq [of r f rk 0 s] by simp

text \<open>The state of decryption after \<open>i\<close> rounds is that of encryption before its last \<open>i\<close> mixings.\<close>

lemma aes_rounds_inverse:
  assumes "\<And>i. 0 < i \<Longrightarrow> i < n \<Longrightarrow> key_at dk (4 * i) = map4 unmix (key_at rk (4 * (n - i)))"
  shows "i < n \<Longrightarrow> rounds_upto dec_round dk i (sub_shift (rounds_upto enc_round rk (n - 1) s)) = sub_shift (rounds_upto enc_round rk (n - 1 - i) s)"
proof (induction i)
  case (Suc i)
  obtain k where k: "n - 1 - i = Suc k" "k = n - 1 - Suc i" "n - Suc i = Suc k" using Suc.prems by (cases "n - 1 - i") auto
  have "rounds_upto dec_round dk (Suc i) (sub_shift (rounds_upto enc_round rk (n - 1) s)) =
      dec_round dk (4 * Suc i) (sub_shift (rounds_upto enc_round rk (Suc k) s))"
    using Suc.IH Suc.prems unfolding rounds_upto.simps(2) [of dec_round] k(1) by (simp only: Suc_lessD)
  also have "\<dots> = xor4 (map4 unmix (rounds_upto enc_round rk (Suc k) s)) (key_at dk (4 * Suc i))"
    by (simp only: dec_round_eq unsub_sub_shift)
  also have "\<dots> = sub_shift (rounds_upto enc_round rk k s)"
    using assms [of "Suc i"] Suc.prems k by (simp add: enc_round_eq map4_xor4 map4_unmix_mix xor4_cancel)
  finally show ?case using k by simp
qed simp

lemma cipher_inverse:
  assumes "0 < n" "\<And>i. 0 < i \<Longrightarrow> i < n \<Longrightarrow> key_at dk (4 * i) = map4 unmix (key_at rk (4 * (n - i)))"
    "key_at dk 0 = key_at rk (4 * n)" "key_at dk (4 * n) = key_at rk 0"
  shows "dec_last dk (4 * n) (rounds_upto dec_round dk (n - 1)
      (xor4 (enc_last rk (4 * n) (rounds_upto enc_round rk (n - 1) (xor4 s (key_at rk 0)))) (key_at dk 0))) = s"
  using aes_rounds_inverse [OF assms(2), where i = "n - 1" and s = "xor4 s (key_at rk 0)"] assms(1,3,4)
  by (simp add: enc_last_eq dec_last_eq xor4_cancel unsub_sub_shift)

section \<open>The schedule for decryption\<close>

lemma swap_at_nth: "i < length rk \<Longrightarrow> j < length rk \<Longrightarrow> swap_at rk i j ! n = (if n = j then rk ! i else if n = i then rk ! j else rk ! n)"
  by (auto simp: swap_at_def nth_list_update)

lemma length_swap_at [simp]: "length (swap_at rk i j) = length rk"
  by (simp add: swap_at_def)

lemma length_swap_loop [simp]: "length (swap_loop rk i j) = length rk"
  by (induction rk i j rule: swap_loop.induct) (subst swap_loop.simps, simp)

definition swap_blocks :: "u32 list \<Rightarrow> nat \<Rightarrow> nat \<Rightarrow> u32 list" where
  "swap_blocks rk i j = swap_at (swap_at (swap_at (swap_at rk i j) (i + 1) (j + 1)) (i + 2) (j + 2)) (i + 3) (j + 3)"

lemma swap_blocks_nth:
  assumes "i + 4 \<le> j" "j + 4 \<le> length rk"
  shows "u < 4 \<Longrightarrow> swap_blocks rk i j ! (i + u) = rk ! (j + u)" "u < 4 \<Longrightarrow> swap_blocks rk i j ! (j + u) = rk ! (i + u)"
    "n + 4 \<le> i \<or> i + 4 \<le> n \<and> n + 4 \<le> j \<or> j + 4 \<le> n \<Longrightarrow> u < 4 \<Longrightarrow> swap_blocks rk i j ! (n + u) = rk ! (n + u)"
proof -
  have four: "u = 0 \<or> u = 1 \<or> u = 2 \<or> u = 3" if "u < 4" using that by auto
  show "swap_blocks rk i j ! (i + u) = rk ! (j + u)" if "u < 4"
    using four [OF that] assms by (elim disjE) (simp_all add: swap_blocks_def swap_at_nth)
  show "swap_blocks rk i j ! (j + u) = rk ! (i + u)" if "u < 4"
    using four [OF that] assms by (elim disjE) (simp_all add: swap_blocks_def swap_at_nth)
  show "swap_blocks rk i j ! (n + u) = rk ! (n + u)" if "n + 4 \<le> i \<or> i + 4 \<le> n \<and> n + 4 \<le> j \<or> j + 4 \<le> n" "u < 4"
  proof -
    have "n + u \<noteq> i + v \<and> n + u \<noteq> j + v" if "v < 4" for v using that assms(1) \<open>u < 4\<close> \<open>_ \<or> _\<close> by auto
    from this [of 0] this [of 1] this [of 2] this [of 3] show ?thesis
      using assms by (simp add: swap_blocks_def swap_at_nth)
  qed
qed

lemma key_at_cong: "(\<And>u. u < 4 \<Longrightarrow> rk ! (i + u) = rk' ! (j + u)) \<Longrightarrow> key_at rk i = key_at rk' j"
proof -
  assume "\<And>u. u < 4 \<Longrightarrow> rk ! (i + u) = rk' ! (j + u)"
  from this [of 0] this [of 1] this [of 2] this [of 3] show ?thesis by (simp only: key_at_def) simp
qed

lemma key_at_swap_blocks:
  assumes "a < b" "4 * b + 4 \<le> length rk"
  shows "key_at (swap_blocks rk (4 * a) (4 * b)) (4 * i) = key_at rk (4 * (if i = a then b else if i = b then a else i))"
proof (rule key_at_cong)
  fix u :: nat assume u: "u < 4"
  have "4 * a + 4 \<le> 4 * b" using assms by simp
  note nth = swap_blocks_nth(3) [OF this assms(2) _ u, of "4 * i"] swap_blocks_nth(1,2) [OF this assms(2) u]
  consider "i = a" | "i = b" | "4 * i + 4 \<le> 4 * a \<or> 4 * a + 4 \<le> 4 * i \<and> 4 * i + 4 \<le> 4 * b \<or> 4 * b + 4 \<le> 4 * i" "i \<noteq> a" "i \<noteq> b" by linarith
  then show "swap_blocks rk (4 * a) (4 * b) ! (4 * i + u) = rk ! (4 * (if i = a then b else if i = b then a else i) + u)"
    using assms(1) by cases (simp_all only: nth, simp_all)
qed

lemma key_at_swap_loop:
  "4 * b + 4 \<le> length rk \<Longrightarrow>
     key_at (swap_loop rk (4 * a) (4 * b)) (4 * i) = key_at rk (4 * (if a \<le> i \<and> i \<le> b then a + b - i else i))"
proof (induction "b - a" arbitrary: a b rk rule: less_induct)
  case less
  show ?case
  proof (cases "a < b")
    case True
    then have "swap_loop rk (4 * a) (4 * b) = swap_loop (swap_blocks rk (4 * a) (4 * b)) (4 * (a + 1)) (4 * (b - 1))"
      by (subst swap_loop.simps) (simp add: swap_blocks_def diff_mult_distrib2 add.commute)
    then have "key_at (swap_loop rk (4 * a) (4 * b)) (4 * i) = 
        key_at (swap_blocks rk (4 * a) (4 * b)) (4 * (if a + 1 \<le> i \<and> i \<le> b - 1 then a + 1 + (b - 1) - i else i))"
      using less.hyps [of "b - 1" "a + 1"] less.prems True by (simp add: swap_blocks_def)
    also have "\<dots> = key_at rk (4 * (if a \<le> i \<and> i \<le> b then a + b - i else i))"
      using True less.prems by (auto simp: key_at_swap_blocks)
    finally show ?thesis .
  next
    case False
    then have "a \<le> i \<and> i \<le> b \<Longrightarrow> a + b - i = i" by auto
    with False show ?thesis by (subst swap_loop.simps) simp
  qed
qed

lemma length_mix_loop [simp]: "length (mix_loop f is rk) = length rk"
  by (induction "is" arbitrary: rk) (simp_all add: Let_def)

lemma key_at_mix_loop:
  "distinct is \<Longrightarrow> \<forall>i\<in>set is. 4 * i + 4 \<le> length rk \<Longrightarrow>
     key_at (mix_loop f is rk) (4 * j) = (if j \<in> set is then map4 f (key_at rk (4 * j)) else key_at rk (4 * j))"
proof (induction "is" arbitrary: rk)
  case (Cons i "is")
  let ?rk = "rk[4 * i := f (rk ! (4 * i)), 4 * i + 1 := f (rk ! (4 * i + 1)), 4 * i + 2 := f (rk ! (4 * i + 2)), 4 * i + 3 := f (rk ! (4 * i + 3))]"
  have same: "key_at ?rk (4 * i) = map4 f (key_at rk (4 * i))"
    using Cons.prems by (simp add: key_at_def map4_def nth_list_update)
  have other: "key_at ?rk (4 * j) = key_at rk (4 * j)" if "j \<noteq> i"
  proof -
    have "?rk ! (4 * j + u) = rk ! (4 * j + u)" if "u < 4" for u
    proof -
      have "4 * i + v \<noteq> 4 * j + u" if "v < 4" for v using that \<open>u < 4\<close> \<open>j \<noteq> i\<close> by presburger
      from this [of 0] this [of 1] this [of 2] this [of 3] show ?thesis by simp
    qed
    then show ?thesis by (rule key_at_cong)
  qed
  have "key_at (mix_loop f (i # is) rk) (4 * j) = (if j \<in> set is then map4 f (key_at ?rk (4 * j)) else key_at ?rk (4 * j))"
    using Cons.IH [of ?rk] Cons.prems by (simp only: mix_loop.simps Let_def) simp
  then show ?case using Cons.prems same other by (cases "j = i") simp_all
qed simp

section \<open>Blocks\<close>

lemma put_block_eq: "put_block s = store4 s"
  by (cases s) (simp add: put_block_def PUTU32_def store_u32_be_def)

lemma GETU32_eq: "4 * n + 4 \<le> length inp \<Longrightarrow> GETU32 (drop (4 * n) inp) = load_u32_be inp n"
  by (simp add: GETU32_def load_u32_be_def or_bytes)

lemma add_key_eq: "length inp = 16 \<Longrightarrow> add_key inp rk = xor4 (load4 inp) (key_at rk 0)"
  using GETU32_eq [of 0 inp] GETU32_eq [of 1 inp] GETU32_eq [of 2 inp] GETU32_eq [of 3 inp]
  by (simp add: add_key_def xor4_def key_at_def load4_def numeral_2_eq_2 numeral_3_eq_3)

interpretation aes: block128 "AES_encrypt key" for key
  by unfold_locales (simp add: AES_encrypt_def put_block_eq split_def Let_def)

text \<open>A pair of schedules of \<open>2 * r\<close> rounds, of which the second is the first reversed and mixed.\<close>

definition aes_keys :: "AES_KEY \<Rightarrow> AES_KEY \<Rightarrow> bool" where
  "aes_keys ek dk \<longleftrightarrow> rounds dk = rounds ek \<and> 0 < nat (drop_bit 1 (rounds ek))
     \<and> (let n = 2 * nat (drop_bit 1 (rounds ek)) in \<forall>i\<le>n. key_at (rd_key dk) (4 * i) =
          (if i = 0 \<or> i = n then key_at (rd_key ek) (4 * (n - i)) else map4 unmix (key_at (rd_key ek) (4 * (n - i)))))"

lemma AES_decrypt_encrypt:
  assumes "aes_keys ek dk" "length b = 16"
  shows "AES_decrypt dk (AES_encrypt ek b) = b"
proof -
  define r where "r = nat (drop_bit 1 (rounds ek))"
  have r: "0 < r" "rounds dk = rounds ek" using assms(1) by (simp_all add: aes_keys_def r_def)
  have keys: "i \<le> 2 * r \<Longrightarrow> key_at (rd_key dk) (4 * i) = (if i = 0 \<or> i = 2 * r then key_at (rd_key ek) (4 * (2 * r - i))
      else map4 unmix (key_at (rd_key ek) (4 * (2 * r - i))))" for i
    using assms(1) by (simp add: aes_keys_def r_def Let_def)
  have "AES_encrypt ek b = store4 (enc_last (rd_key ek) (8 * r) (rounds_upto enc_round (rd_key ek) (2 * r - 1) (xor4 (load4 b) (key_at (rd_key ek) 0))))"
    using r(1) assms(2) by (simp add: AES_encrypt_def r_def [unfolded One_nat_def, symmetric] aes_loop_rounds put_block_eq add_key_eq)
  moreover have "AES_decrypt dk (store4 s) = store4 (dec_last (rd_key dk) (8 * r) (rounds_upto dec_round (rd_key dk) (2 * r - 1) (xor4 s (key_at (rd_key dk) 0))))" for s
    using r by (simp add: AES_decrypt_def r_def [unfolded One_nat_def, symmetric] aes_loop_rounds put_block_eq add_key_eq load4_store4)
  moreover note cipher_inverse [of "2 * r" "rd_key dk" "rd_key ek" "load4 b"]
  ultimately show ?thesis
    using keys [of 0] keys [of "2 * r"] keys r(1) store4_load4 [OF assms(2)] by simp
qed

lemma aes_cipher: "aes_keys ek dk \<Longrightarrow> cipher128 (AES_encrypt ek) (AES_decrypt dk)"
proof unfold_locales
  show "length b = 16 \<Longrightarrow> length (AES_decrypt dk b) = 16" for b
    by (simp add: AES_decrypt_def put_block_eq split_def Let_def)
qed (simp_all add: AES_decrypt_encrypt aes.length_block)

section \<open>The two builds\<close>

lemma pack_eq: "push_bit 24 (ucast a) XOR push_bit 16 (ucast b) XOR push_bit 8 (ucast c) XOR ucast d = pack a b c d"
  by (simp add: pack_def)

lemma rot_sub_builds: "rot_sub_asm = rot_sub" "sub_word_asm = sub_word"
  unfolding rot_sub_asm_def sub_word_asm_def pack_eq rot_sub_def sub_word_def fun_eq_iff byte_at_eq Sub_def [symmetric]
  by (simp_all add: Te_nth pack_masks pack_xor)

lemma pack_and: "pack a b c d AND pack a' b' c' d' = pack (a AND a') (b AND b') (c AND c') (d AND d')"
  by (rule bit_word_eqI) (simp add: bit_and_iff bit_pack)

lemma pack_consts:
  "0x80808080 = pack 0x80 0x80 0x80 0x80" "0x7f7f7f7f = pack 0x7f 0x7f 0x7f 0x7f" "0x1b1b1b1b = pack 0x1b 0x1b 0x1b 0x1b"
  by code_simp+

lemma pack_shift:
  "drop_bit 8 (pack a b c d) = pack 0 a b c" "drop_bit 16 (pack a b c d) = pack 0 0 a b" "drop_bit 24 (pack a b c d) = pack 0 0 0 a"
  "push_bit 8 (pack a b c d) = pack b c d 0" "push_bit 16 (pack a b c d) = pack c d 0 0" "push_bit 24 (pack a b c d) = pack d 0 0 0"
  by (rule bit_word_eqI; auto simp: bit_drop_bit_eq bit_push_bit_iff bit_pack dest: bit_imp_le_length)+

definition top_bit :: "u8 \<Rightarrow> u8" where "top_bit a = (if bit a 7 then 0x80 else 0)"

lemma bit_consts: "bit (0x80 :: u8) n \<longleftrightarrow> n = 7" "n < 8 \<Longrightarrow> bit (0x7f :: u8) n \<longleftrightarrow> n < 7"
proof -
  have "(0x80 :: u8) = push_bit 7 1" "(0x7f :: u8) = mask 7" by code_simp+
  then show "bit (0x80 :: u8) n \<longleftrightarrow> n = 7" "n < 8 \<Longrightarrow> bit (0x7f :: u8) n \<longleftrightarrow> n < 7"
    by (auto simp only: bit_simps) auto
qed

lemma and_top: "a AND 0x80 = top_bit a"
  by (rule bit_word_eqI) (auto simp: bit_and_iff bit_consts(1) top_bit_def simp del: bit_numeral_simps)

lemma bit_low: "bit (a AND 0x7f :: u8) k \<longleftrightarrow> k < 7 \<and> bit a k"
  using bit_consts(2) [of k] bit_imp_le_length [of a k] by (auto simp only: bit_and_iff) (auto simp: bit_consts(2))

lemma push_low: "push_bit 1 (pack (a AND 0x7f) (b AND 0x7f) (c AND 0x7f) (d AND 0x7f)) = pack (push_bit 1 a) (push_bit 1 b) (push_bit 1 c) (push_bit 1 d)"
proof (rule bit_word_eqI)
  fix n assume n: "n < LENGTH(32)"
  have b: "bit (push_bit 1 x) k \<longleftrightarrow> 0 < k \<and> k < 8 \<and> bit x (k - 1)" for x :: u8 and k by (simp only: bit_push_bit_iff) auto
  consider "n = 0" | "0 < n" "n < 8" | "n = 8" | "8 < n" "n < 16" | "n = 16" | "16 < n" "n < 24" | "n = 24" | "24 < n" by linarith
  then show "bit (push_bit 1 (pack (a AND 0x7f) (b AND 0x7f) (c AND 0x7f) (d AND 0x7f))) n = bit (pack (push_bit 1 a) (push_bit 1 b) (push_bit 1 c) (push_bit 1 d)) n"
    using n by cases (simp_all only: bit_push_bit_iff bit_pack bit_low b, auto simp: diff_right_commute)
qed

lemma top_mask: "pack (top_bit a) (top_bit b) (top_bit c) (top_bit d) - drop_bit 7 (pack (top_bit a) (top_bit b) (top_bit c) (top_bit d)) =
    pack (if bit a 7 then 0x7f else 0) (if bit b 7 then 0x7f else 0) (if bit c 7 then 0x7f else 0) (if bit d 7 then 0x7f else 0)"
  by (cases "bit a 7"; cases "bit b 7"; cases "bit c 7"; cases "bit d 7") (simp_all add: top_bit_def pack_def)

lemma double4_pack: "double4 (pack a b c d) = pack (xtime a) (xtime b) (xtime c) (xtime d)"
  unfolding double4_def Let_def pack_consts pack_and and_top push_low top_mask pack_xor
  by (simp add: xtime_def)

lemma inv_mix_builds: "inv_mix_asm = inv_mix"
proof
  fix w show "inv_mix_asm w = inv_mix w"
    by (rule pack_cases [of w]) (simp add: inv_mix_asm_def Let_def double4_pack pack_xor pack_shift inv_mix_eq unmix_def field_defs ac_simps)
qed

section \<open>The schedules of a key\<close>

lemma length_expand128: "length (expand128 rot is rk) = length rk + 4 * length is"
  by (induction "is" arbitrary: rk) (simp_all add: Let_def)

lemma length_expand192: "k + i = 7 \<Longrightarrow> length (expand192 rot [i..<8] rk) = length rk + 6 * k + 4"
proof (induction k arbitrary: i rk)
  case 0
  moreover have "[7..<8] = [7]" by code_simp
  ultimately show ?case by (simp add: Let_def)
next
  case (Suc k)
  then have "[i..<8] = i # [Suc i..<8]" "i + 1 \<noteq> 8" by (simp_all add: upt_conv_Cons)
  with Suc show ?case by (simp add: Let_def del: upt_Suc upt_rec_numeral)
qed

lemma length_expand256: "k + i = 6 \<Longrightarrow> length (expand256 rot sub [i..<7] rk) = length rk + 8 * k + 4"
proof (induction k arbitrary: i rk)
  case 0
  moreover have "[6..<7] = [6]" by code_simp
  ultimately show ?case by (simp add: Let_def)
next
  case (Suc k)
  then have "[i..<7] = i # [Suc i..<7]" "i + 1 \<noteq> 7" by (simp_all add: upt_conv_Cons)
  with Suc show ?case by (simp add: Let_def del: upt_Suc upt_rec_numeral)
qed

definition schedule :: "u8 list \<Rightarrow> int \<Rightarrow> u32 list" where
  "schedule userKey bits =
     (if bits = 128 then expand128 rot_sub [0..<10] (key_words_of userKey 4)
      else if bits = 192 then expand192 rot_sub [0..<8] (key_words_of userKey 6)
      else expand256 rot_sub sub_word [0..<7] (key_words_of userKey 8))"

definition rounds_of :: "int \<Rightarrow> int" where
  "rounds_of bits = (if bits = 128 then 10 else if bits = 192 then 12 else 14)"

lemma length_schedule: "bits \<in> {128, 192, 256} \<Longrightarrow> length (schedule userKey bits) = nat (4 * rounds_of bits + 4)"
  using length_expand192 [of 7 0] length_expand256 [of 6 0]
  by (auto simp: schedule_def rounds_of_def length_expand128 key_words_of_def)

lemma set_encrypt_key_ok:
  assumes "bits \<in> {128, 192, 256}" "bits div 8 \<le> int (length userKey)"
  shows "AES_set_encrypt_key (Some userKey) bits key =
    Inr (0, key\<lparr>rd_key := schedule userKey bits @ drop (length (schedule userKey bits)) (rd_key key), rounds := rounds_of bits\<rparr>)"
  using assms by (auto simp: AES_set_encrypt_key_def set_encrypt_key_def schedule_def rounds_of_def Let_def)

lemma aes_schedules:
  assumes "bits \<in> {128, 192, 256}" "bits div 8 \<le> int (length userKey)"
  obtains ek dk where "AES_set_encrypt_key (Some userKey) bits key = Inr (0, ek)" "AES_set_decrypt_key (Some userKey) bits key' = Inr (0, dk)"
    "aes_keys ek dk"
proof -
  define s n where "s = schedule userKey bits" and "n = nat (rounds_of bits)"
  have n: "rounds_of bits = int n" "n \<in> {10, 12, 14}" using assms(1) by (auto simp: n_def rounds_of_def)
  have s: "length s = 4 * n + 4" using length_schedule [OF assms(1)] n(1) by (simp add: s_def)
  let ?rk = "\<lambda>key. s @ drop (length s) (rd_key key)"
  let ?dk = "mix_loop inv_mix [1..<n] (swap_loop (?rk key') 0 (4 * n))"
  have "AES_set_decrypt_key (Some userKey) bits key' = Inr (0, key'\<lparr>rd_key := ?dk, rounds := rounds_of bits\<rparr>)"
    using set_encrypt_key_ok [OF assms, of key'] by (simp add: AES_set_decrypt_key_def set_decrypt_key_def s_def n(1) Let_def)
  moreover have "key_at ?dk (4 * i) =
      (if i = 0 \<or> i = n then key_at (?rk key) (4 * (n - i)) else map4 unmix (key_at (?rk key) (4 * (n - i))))" if "i \<le> n" for i
  proof -
    have eq: "key_at (?rk key') (4 * j) = key_at (?rk key) (4 * j)" if "j \<le> n" for j
      using that s by (intro key_at_cong) (simp add: nth_append)
    have "key_at (swap_loop (?rk key') 0 (4 * n)) (4 * i) = key_at (?rk key) (4 * (n - i))"
      using key_at_swap_loop [of n "?rk key'" 0 i] that s eq [of "n - i"] by simp
    then show ?thesis
      using key_at_mix_loop [of "[1..<n]" "swap_loop (?rk key') 0 (4 * n)" inv_mix i] that s inv_mix_eq
      by (auto simp: map4_def split_def)
  qed
  ultimately show ?thesis
    using n set_encrypt_key_ok [OF assms, of key] that [of "key\<lparr>rd_key := ?rk key, rounds := rounds_of bits\<rparr>"]
    by (auto simp: s_def aes_keys_def Let_def)
qed

section \<open>The reference cipher\<close>

text \<open>
  The cipher as the standard states it: the first round key \<open>k\<close>, the inner round keys \<open>ks\<close> and the last round key
  \<open>k'\<close>; the state is four words, one for each column.
\<close>

definition aes_spec :: "quad \<Rightarrow> quad list \<Rightarrow> quad \<Rightarrow> u8 list \<Rightarrow> u8 list" where
  "aes_spec k ks k' b =
     store4 (xor4 (sub_shift (foldl (\<lambda>s k. xor4 (map4 mix (sub_shift s)) k) (xor4 (load4 b) k) ks)) k')"

definition aes_inv_spec :: "quad \<Rightarrow> quad list \<Rightarrow> quad \<Rightarrow> u8 list \<Rightarrow> u8 list" where
  "aes_inv_spec k ks k' b =
     store4 (xor4 (unsub_shift (foldl (\<lambda>s k. xor4 (map4 unmix (unsub_shift s)) k) (xor4 (load4 b) k) ks)) k')"

lemma rounds_upto_foldl: "rounds_upto f rk n s = foldl (\<lambda>s i. f rk (4 * i) s) s [1..<Suc n]"
  by (induction n) simp_all

lemma AES_encrypt_spec:
  assumes "0 < r" "rounds key = int (2 * r)" "length b = 16"
  shows "AES_encrypt key b =
    aes_spec (key_at (rd_key key) 0) (map (\<lambda>i. key_at (rd_key key) (4 * i)) [1..<2 * r]) (key_at (rd_key key) (8 * r)) b"
proof -
  have "nat (drop_bit (Suc 0) (rounds key)) = r" "Suc (2 * r - Suc 0) = 2 * r" using assms(1,2) by (simp_all add: drop_bit_Suc)
  then show ?thesis
    using assms(1,3)
    by (simp add: AES_encrypt_def aes_loop_rounds put_block_eq add_key_eq aes_spec_def rounds_upto_foldl enc_last_eq enc_round_eq foldl_map del: upt_Suc)
qed

lemma AES_decrypt_spec:
  assumes "0 < r" "rounds key = int (2 * r)" "length b = 16"
  shows "AES_decrypt key b =
    aes_inv_spec (key_at (rd_key key) 0) (map (\<lambda>i. key_at (rd_key key) (4 * i)) [1..<2 * r]) (key_at (rd_key key) (8 * r)) b"
proof -
  have "nat (drop_bit (Suc 0) (rounds key)) = r" "Suc (2 * r - Suc 0) = 2 * r" using assms(1,2) by (simp_all add: drop_bit_Suc)
  then show ?thesis
    using assms(1,3)
    by (simp add: AES_decrypt_def aes_loop_rounds put_block_eq add_key_eq aes_inv_spec_def rounds_upto_foldl dec_last_eq dec_round_eq foldl_map del: upt_Suc)
qed

lemma unrolled_eq: "n \<in> {10, 12, 14} \<Longrightarrow> unrolled f rk (int n) s = rounds_upto f rk (n - 1) s"
  by (auto simp: unrolled_def Let_def eval_nat_numeral)

lemma unrolled_agrees:
  assumes "rounds key \<in> {10, 12, 14}"
  shows "AES_encrypt_unrolled key b = AES_encrypt key b" "AES_decrypt_unrolled key b = AES_decrypt key b"
proof -
  obtain r where r: "rounds key = int (2 * r)" "r \<in> {5, 6, 7}" using assms that [of 5] that [of 6] that [of 7] by auto
  have n: "nat (drop_bit (Suc 0) (rounds key)) = r" "nat (push_bit 2 (rounds key)) = 8 * r"
    using r by (auto simp: drop_bit_Suc push_bit_eq_mult nat_mult_distrib)
  have "0 < r" using r(2) by auto
  have u: "unrolled f rk (int (2 * r)) s = rounds_upto f rk (2 * r - 1) s" for f rk s
    using r(2) by (intro unrolled_eq) auto
  show "AES_encrypt_unrolled key b = AES_encrypt key b" "AES_decrypt_unrolled key b = AES_decrypt key b"
    unfolding AES_encrypt_unrolled_def AES_decrypt_unrolled_def AES_encrypt_def AES_decrypt_def One_nat_def n
    using \<open>0 < r\<close> by (simp_all only: aes_loop_rounds u r(1) Let_def split_conv)
qed

section \<open>Results\<close>

text \<open>
  C34: the rounds by tables compute the cipher.  For every schedule of 10, 12 or 14 rounds, encryption is
  the reference cipher, which substitutes each byte, shifts the rows, multiplies the columns in the field with 256 elements
  and adds the round key, and decryption is the reference cipher of the inverse steps with the schedule read from the start;
  so all 2048 words of the eight tables are right.  The two S-boxes are inverse to each other.  The build with unrolled rounds
  computes the same, and the build that leaves the rounds to assembly makes the same schedules, with the same results for a missing key and for a wrong number of bits.
\<close>

theorem AES_reference:
  assumes "r \<in> {5, 6, 7}" "rounds key = int (2 * r)" "length b = 16"
  shows "AES_encrypt key b =
      aes_spec (key_at (rd_key key) 0) (map (\<lambda>i. key_at (rd_key key) (4 * i)) [1..<2 * r]) (key_at (rd_key key) (8 * r)) b
    \<and> AES_decrypt key b =
      aes_inv_spec (key_at (rd_key key) 0) (map (\<lambda>i. key_at (rd_key key) (4 * i)) [1..<2 * r]) (key_at (rd_key key) (8 * r)) b
    \<and> AES_encrypt_unrolled key b = AES_encrypt key b \<and> AES_decrypt_unrolled key b = AES_decrypt key b
    \<and> Td4 ! unat (Te4 ! unat x) = x
    \<and> AES_set_encrypt_key_asm userKey bits key' = AES_set_encrypt_key userKey bits key'
    \<and> AES_set_decrypt_key_asm userKey bits key' = AES_set_decrypt_key userKey bits key'"
  using AES_encrypt_spec [OF _ assms(2,3)] AES_decrypt_spec [OF _ assms(2,3)] InvSub_Sub [of x] unrolled_agrees [of key b] assms(1,2)
  by (auto simp: Sub_def InvSub_def AES_set_encrypt_key_def AES_set_encrypt_key_asm_def AES_set_decrypt_key_def
      AES_set_decrypt_key_asm_def rot_sub_builds inv_mix_builds)

theorem AES_reference_witness:
  "AES_encrypt \<lparr>rd_key = replicate 44 7, rounds = 10\<rparr> (replicate 16 0) =
    aes_spec (7, 7, 7, 7) (replicate 9 (7, 7, 7, 7)) (7, 7, 7, 7) (replicate 16 0)"
proof -
  have "key_at (replicate 44 7) (4 * i) = (7, 7, 7, 7)" if "i < 11" for i using that by (simp add: key_at_def)
  moreover from this [of 0] this [of 10] have "key_at (replicate 44 7) 0 = (7, 7, 7, 7)" "key_at (replicate 44 7) 40 = (7, 7, 7, 7)" by simp_all
  moreover have "map (\<lambda>i. key_at (replicate 44 7) (4 * i)) [1..<10] = replicate 9 (7, 7, 7, 7)"
    using calculation(1) by (intro replicate_eqI) auto
  ultimately show ?thesis
    using AES_reference [of 5 "\<lparr>rd_key = replicate 44 7, rounds = 10\<rparr>" "replicate 16 0"] by simp
qed

text \<open>
  C35: for every key of 128, 192 or 256 bits both schedules are made, and with them decryption undoes
  encryption: of a block in ECB, of a message of any length in CBC, whatever follows the ciphertext in memory, in CFB and OFB
  from every position inside a block, and of whole 8-byte blocks in key wrapping.  A missing key gives -1 and a wrong number
  of bits -2, with the structure unchanged.
\<close>

theorem AES_modes_roundtrip:
  assumes "bits \<in> {128, 192, 256}" "bits div 8 \<le> int (length userKey)" "length block = 16" "length ivec = 16" "n < 16"
    and "length kek mod 8 = 0" "16 \<le> length kek" "length kek \<le> 2 ^ 31" "wrong \<notin> {128, 192, 256}"
  shows "(\<exists>ek dk. AES_set_encrypt_key (Some userKey) bits key = Inr (0, ek) \<and> AES_set_decrypt_key (Some userKey) bits key' = Inr (0, dk)
    \<and> AES_ecb_encrypt (AES_ecb_encrypt block ek True) dk False = block
    \<and> (\<exists>c ivec'. AES_cbc_encrypt p in_place msg (length msg) ek ivec True = Inr (c, ivec')
      \<and> AES_cbc_encrypt p' in_place' (c @ junk) (length msg) dk ivec False = Inr (msg, ivec'))
    \<and> (\<exists>c ivec' num'. AES_cfb128_encrypt p msg ek ivec (int n) True = Inr (c, ivec', num') \<and> length c = length msg
      \<and> AES_cfb128_encrypt p' c ek ivec (int n) False = Inr (msg, ivec', num'))
    \<and> (\<exists>c ivec' num'. AES_ofb128_encrypt p msg ek ivec (int n) = Inr (c, ivec', num') \<and> length c = length msg
      \<and> AES_ofb128_encrypt p' c ek ivec (int n) = Inr (msg, ivec', num'))
    \<and> (\<exists>c. AES_wrap_key ek None kek = (length kek + 8, c) \<and> AES_unwrap_key dk None c = (length kek, kek)))
    \<and> AES_set_encrypt_key None bits key = Inr (-1, key) \<and> AES_set_decrypt_key None bits key = Inr (-1, key)
    \<and> AES_set_encrypt_key (Some userKey) wrong key = Inr (-2, key) \<and> AES_set_decrypt_key (Some userKey) wrong key = Inr (-2, key)"
proof (intro conjI)
  obtain ek dk where keys: "AES_set_encrypt_key (Some userKey) bits key = Inr (0, ek)" "AES_set_decrypt_key (Some userKey) bits key' = Inr (0, dk)"
    "aes_keys ek dk" using aes_schedules [OF assms(1,2)] by blast
  note c = aes_cipher [OF keys(3)]
  obtain c ivec' where cbc: "CRYPTO_cbc128_encrypt p (AES_encrypt ek) ivec msg = (c, ivec')" by fastforce
  obtain l w where wrap: "CRYPTO_128_wrap (AES_encrypt ek) None kek = (l, w)" by fastforce
  have "AES_ecb_encrypt (AES_ecb_encrypt block ek True) dk False = block"
    using AES_decrypt_encrypt [OF keys(3) assms(3)] by (simp add: AES_ecb_encrypt_def)
  moreover have "\<exists>c ivec'. AES_cbc_encrypt p in_place msg (length msg) ek ivec True = Inr (c, ivec')
      \<and> AES_cbc_encrypt p' in_place' (c @ junk) (length msg) dk ivec False = Inr (msg, ivec')"
    using cbc cipher128.cbc_roundtrip [OF c assms(4) cbc, of p' in_place' junk] by (simp add: AES_cbc_encrypt_def)
  moreover have "\<exists>c. AES_wrap_key ek None kek = (length kek + 8, c) \<and> AES_unwrap_key dk None c = (length kek, kek)"
    using cipher128.unwrap_wrap [OF c assms(6-8) _ wrap] wrap by (simp add: AES_wrap_key_def AES_unwrap_key_def)
  ultimately show "\<exists>ek dk. AES_set_encrypt_key (Some userKey) bits key = Inr (0, ek) \<and> AES_set_decrypt_key (Some userKey) bits key' = Inr (0, dk)
    \<and> AES_ecb_encrypt (AES_ecb_encrypt block ek True) dk False = block
    \<and> (\<exists>c ivec'. AES_cbc_encrypt p in_place msg (length msg) ek ivec True = Inr (c, ivec')
      \<and> AES_cbc_encrypt p' in_place' (c @ junk) (length msg) dk ivec False = Inr (msg, ivec'))
    \<and> (\<exists>c ivec' num'. AES_cfb128_encrypt p msg ek ivec (int n) True = Inr (c, ivec', num') \<and> length c = length msg
      \<and> AES_cfb128_encrypt p' c ek ivec (int n) False = Inr (msg, ivec', num'))
    \<and> (\<exists>c ivec' num'. AES_ofb128_encrypt p msg ek ivec (int n) = Inr (c, ivec', num') \<and> length c = length msg
      \<and> AES_ofb128_encrypt p' c ek ivec (int n) = Inr (msg, ivec', num'))
    \<and> (\<exists>c. AES_wrap_key ek None kek = (length kek + 8, c) \<and> AES_unwrap_key dk None c = (length kek, kek))"
    using keys(1,2) aes.cfb_roundtrip [OF assms(4,5), of p ek msg p'] aes.ofb_roundtrip [OF assms(4,5), of p ek msg p']
    unfolding AES_cfb128_encrypt_def AES_ofb128_encrypt_def by blast
qed (use assms(9) in \<open>simp_all add: AES_set_decrypt_key_def set_decrypt_key_def AES_set_encrypt_key_def set_encrypt_key_def\<close>)

theorem AES_modes_roundtrip_witness:
  "\<exists>ek dk. AES_set_encrypt_key (Some (replicate 24 1)) 192 \<lparr>rd_key = [], rounds = 0\<rparr> = Inr (0, ek)
    \<and> AES_set_decrypt_key (Some (replicate 24 1)) 192 \<lparr>rd_key = [], rounds = 0\<rparr> = Inr (0, dk)
    \<and> AES_ecb_encrypt (AES_ecb_encrypt (replicate 16 5) ek True) dk False = replicate 16 5
    \<and> (\<exists>c. AES_wrap_key ek None (replicate 16 9) = (24, c) \<and> AES_unwrap_key dk None c = (16, replicate 16 9))"
  using AES_modes_roundtrip [of 192 "replicate 24 1" "replicate 16 5" "replicate 16 0" 0 "replicate 16 9" 64 "\<lparr>rd_key = [], rounds = 0\<rparr>" "\<lparr>rd_key = [], rounds = 0\<rparr>"]
  by simp blast

end
