(* ===== verification/AES_IGE.thy ===== *)
theory AES_IGE
  imports AES_Props
begin

text \<open>
  Infinite garble extension (\<^verbatim>\<open>crypto/aes/aes_ige.c\<close>): each block is masked with the ciphertext block before it, encrypted
  and masked with the plaintext block before it.  The two-way variant runs over the message forwards and then backwards.  The
  one-way mode comes back on every path and in pieces; the two-way mode comes back unless it encrypts in place, where it
  reads the plaintext block before after it was overwritten.
\<close>

section \<open>One way\<close>

definition blocks_of :: "u8 list \<Rightarrow> nat \<Rightarrow> u8 list list" where
  "blocks_of xs n = map (\<lambda>k. take 16 (drop (16 * k) xs)) [0..<n]"

text \<open>
  The path with copies, which the code takes in place or for unaligned buffers.  The results are the blocks written and the two
  vectors left in \<open>ivec\<close>.
\<close>

fun ige_enc_copy :: "(u8 list \<Rightarrow> u8 list) \<Rightarrow> u8 list list \<Rightarrow> u8 list \<Rightarrow> u8 list \<Rightarrow> u8 list list \<times> u8 list \<times> u8 list" where
  "ige_enc_copy E [] iv iv2 = ([], iv, iv2)"
| "ige_enc_copy E (tmp # bs) iv iv2 =
     (let tmp2 = words16 (XOR) tmp iv; tmp2 = E tmp2; tmp2 = words16 (XOR) tmp2 iv2;
          (out, ivs) = ige_enc_copy E bs tmp2 tmp
      in (tmp2 # out, ivs))"

fun ige_dec_copy :: "(u8 list \<Rightarrow> u8 list) \<Rightarrow> u8 list list \<Rightarrow> u8 list \<Rightarrow> u8 list \<Rightarrow> u8 list list \<times> u8 list \<times> u8 list" where
  "ige_dec_copy D [] iv iv2 = ([], iv, iv2)"
| "ige_dec_copy D (tmp # bs) iv iv2 =
     (let tmp2 = tmp; tmp = words16 (XOR) tmp iv2; tmp = D tmp; tmp = words16 (XOR) tmp iv;
          (out, ivs) = ige_dec_copy D bs tmp2 tmp
      in (tmp # out, ivs))"

text \<open>
  The path with pointers into separate buffers: \<open>ivp\<close> and \<open>iv2p\<close> point to the halves of \<open>ivec\<close> in the first turn \<open>k = 0\<close>, and to
  the blocks before afterwards.
\<close>

fun ige_enc_ptr :: "(u8 list \<Rightarrow> u8 list) \<Rightarrow> u8 list list \<Rightarrow> u8 list \<Rightarrow> u8 list \<Rightarrow> nat list \<Rightarrow> u8 list list \<Rightarrow> u8 list list" where
  "ige_enc_ptr E inp iv iv2 [] out = out"
| "ige_enc_ptr E inp iv iv2 (k # ks) out =
     (let ivp = (if k = 0 then iv else out ! (k - 1)); iv2p = (if k = 0 then iv2 else inp ! (k - 1));
          outp = words16 (XOR) (inp ! k) ivp; outp = E outp; outp = words16 (XOR) outp iv2p
      in ige_enc_ptr E inp iv iv2 ks (out @ [outp]))"

fun ige_dec_ptr :: "(u8 list \<Rightarrow> u8 list) \<Rightarrow> u8 list list \<Rightarrow> u8 list \<Rightarrow> u8 list \<Rightarrow> nat list \<Rightarrow> u8 list list \<Rightarrow> u8 list list" where
  "ige_dec_ptr D inp iv iv2 [] out = out"
| "ige_dec_ptr D inp iv iv2 (k # ks) out =
     (let ivp = (if k = 0 then iv else inp ! (k - 1)); iv2p = (if k = 0 then iv2 else out ! (k - 1));
          tmp = words16 (XOR) (inp ! k) iv2p; outp = D tmp; outp = words16 (XOR) outp ivp
      in ige_dec_ptr D inp iv iv2 ks (out @ [outp]))"

text \<open>The whole function; \<open>copy\<close> selects the path, and a failed assertion ends the program.\<close>

definition AES_ige_encrypt :: "bool \<Rightarrow> u8 list \<Rightarrow> nat \<Rightarrow> AES_KEY \<Rightarrow> u8 list \<Rightarrow> bool \<Rightarrow> (u8 list \<times> u8 list) res" where
  "AES_ige_encrypt copy inp len key ivec enc =
     (if len = 0 then Inr ([], ivec)
      else if len mod 16 \<noteq> 0 then Inl ExitProgram
      else if length inp < len \<or> length ivec < 32 then Inl OutOfBounds
      else
        let n = len div 16; bs = blocks_of inp n; iv = take 16 ivec; iv2 = take 16 (drop 16 ivec);
            (out, iv, iv2) =
              (if enc then
                 if copy then ige_enc_copy (AES_encrypt key) bs iv iv2
                 else let out = ige_enc_ptr (AES_encrypt key) bs iv iv2 [0..<n] [] in (out, last out, last bs)
               else
                 if copy then ige_dec_copy (AES_decrypt key) bs iv iv2
                 else let out = ige_dec_ptr (AES_decrypt key) bs iv iv2 [0..<n] [] in (out, last bs, last out))
        in Inr (concat out, iv @ iv2 @ drop 32 ivec))"

section \<open>Two ways\<close>

text \<open>
  The forward pass.  \<^verbatim>\<open>prev\<close> is copied from the input after the output was written, so in place it is the block written.
\<close>

fun bi_forward :: "bool \<Rightarrow> (u8 list \<Rightarrow> u8 list) \<Rightarrow> u8 list list \<Rightarrow> u8 list \<Rightarrow> u8 list \<Rightarrow> u8 list list" where
  "bi_forward in_place E [] iv iv2 = []"
| "bi_forward in_place E (inp # bs) iv iv2 =
     (let out = bytes16 (XOR) inp iv; out = E out; out = bytes16 (XOR) out iv2; prev = (if in_place then out else inp)
      in out # bi_forward in_place E bs out prev)"

text \<open>The backward pass, on the blocks written from the last to the first, and the pass of decryption.\<close>

fun bi_backward :: "(u8 list \<Rightarrow> u8 list) \<Rightarrow> u8 list list \<Rightarrow> u8 list \<Rightarrow> u8 list \<Rightarrow> u8 list list" where
  "bi_backward E [] iv iv2 = []"
| "bi_backward E (out # bs) iv iv2 =
     (let tmp = out; out = bytes16 (XOR) out iv; out = E out; out = bytes16 (XOR) out iv2 in out # bi_backward E bs out tmp)"

fun bi_undo :: "(u8 list \<Rightarrow> u8 list) \<Rightarrow> u8 list list \<Rightarrow> u8 list \<Rightarrow> u8 list \<Rightarrow> u8 list list" where
  "bi_undo D [] iv iv2 = []"
| "bi_undo D (inp # bs) iv iv2 =
     (let tmp = bytes16 (XOR) inp iv2; out = D tmp; out = bytes16 (XOR) out iv in out # bi_undo D bs inp out)"

definition AES_bi_ige_encrypt :: "bool \<Rightarrow> u8 list \<Rightarrow> nat \<Rightarrow> AES_KEY \<Rightarrow> AES_KEY \<Rightarrow> u8 list \<Rightarrow> bool \<Rightarrow> u8 list res" where
  "AES_bi_ige_encrypt in_place inp len key key2 ivec enc =
     (if len mod 16 \<noteq> 0 then Inl ExitProgram
      else if length inp < len \<or> 0 < len \<and> length ivec < 64 then Inl OutOfBounds
      else
        let bs = blocks_of inp (len div 16); iv = (\<lambda>k. take 16 (drop (16 * k) ivec)) in
        if enc then
          let out = bi_forward in_place (AES_encrypt key) bs (iv 0) (iv 1);
              out = rev (bi_backward (AES_encrypt key) (rev out) (iv 2) (iv 3))
          in Inr (concat out)
        else
          let out = rev (bi_undo (AES_decrypt key) (rev bs) (iv 2) (iv 3));
              out = bi_undo (AES_decrypt key) out (iv 0) (iv 1)
          in Inr (concat out))"

section \<open>Blocks\<close>

lemma length_blocks_of [simp]: "length (blocks_of xs n) = n"
  by (simp add: blocks_of_def)

lemma blocks_of_16: "16 * n \<le> length xs \<Longrightarrow> \<forall>b\<in>set (blocks_of xs n). length b = 16"
  by (auto simp: blocks_of_def min_def)

lemma blocks_of_Suc: "blocks_of xs (Suc n) = take 16 xs # blocks_of (drop 16 xs) n"
  by (simp add: blocks_of_def upt_conv_Cons map_Suc_upt [symmetric] comp_def ac_simps del: upt_Suc)

lemma concat_blocks_of: "concat (blocks_of xs n) = take (16 * n) xs"
proof (induction n arbitrary: xs)
  case (Suc n)
  have "take (16 * Suc n) xs = take 16 xs @ take (16 * n) (drop 16 xs)" by (simp add: take_add)
  then show ?case by (simp add: blocks_of_Suc Suc)
qed (simp add: blocks_of_def)

lemma blocks_of_concat: "\<forall>b\<in>set bs. length b = 16 \<Longrightarrow> blocks_of (concat bs @ junk) (length bs) = bs"
  by (induction bs) (simp_all add: blocks_of_Suc, simp add: blocks_of_def)

lemma length_concat_16: "\<forall>b\<in>set bs. length b = 16 \<Longrightarrow> length (concat bs) = 16 * length bs"
  by (induction bs) simp_all

section \<open>The paths of one way\<close>

lemma length_ige_copy [simp]:
  "length (fst (ige_enc_copy E bs iv iv2)) = length bs" "length (fst (ige_dec_copy D bs iv iv2)) = length bs"
  by (induction bs arbitrary: iv iv2) (simp_all add: Let_def split_def)

lemma ige_copy_Nil [simp]:
  "fst (ige_enc_copy E bs iv iv2) = [] \<longleftrightarrow> bs = []" "fst (ige_dec_copy D bs iv iv2) = [] \<longleftrightarrow> bs = []"
  by (metis length_0_conv length_ige_copy)+

lemma ige_copy_last:
  "snd (ige_enc_copy E bs iv iv2) = (if bs = [] then (iv, iv2) else (last (fst (ige_enc_copy E bs iv iv2)), last bs))"
  "snd (ige_dec_copy D bs iv iv2) = (if bs = [] then (iv, iv2) else (last bs, last (fst (ige_dec_copy D bs iv iv2))))"
  by (induction bs arbitrary: iv iv2) (simp_all add: Let_def split_def)

lemma ige_enc_ptr_eq:
  "length pre = length out \<Longrightarrow> ige_enc_ptr E (pre @ bs) iv iv2 [length out..<length out + length bs] out =
     out @ fst (ige_enc_copy E bs (if out = [] then iv else last out) (if pre = [] then iv2 else last pre))"
proof (induction bs arbitrary: pre out)
  case (Cons b bs)
  let ?iv = "if out = [] then iv else last out" and ?iv2 = "if pre = [] then iv2 else last pre"
  let ?c = "words16 (XOR) (E (words16 (XOR) b ?iv)) ?iv2"
  have "[length out..<length out + length (b # bs)] = length out # [length (out @ [?c])..<length (out @ [?c]) + length bs]"
    by (simp add: upt_conv_Cons del: upt_Suc)
  moreover have "(pre @ b # bs) ! length out = b" "out \<noteq> [] \<Longrightarrow> out ! (length out - 1) = last out"
    "pre \<noteq> [] \<Longrightarrow> (pre @ b # bs) ! (length out - 1) = last pre"
    using Cons.prems by (simp_all add: nth_append last_conv_nth flip: Cons.prems)
  moreover have "pre = [] \<longleftrightarrow> out = []" using Cons.prems by auto
  ultimately have "ige_enc_ptr E (pre @ b # bs) iv iv2 [length out..<length out + length (b # bs)] out =
      ige_enc_ptr E ((pre @ [b]) @ bs) iv iv2 [length (out @ [?c])..<length (out @ [?c]) + length bs] (out @ [?c])"
    by (simp add: Let_def del: upt_Suc)
  also have "\<dots> = (out @ [?c]) @ fst (ige_enc_copy E bs ?c b)"
    using Cons.IH [of "pre @ [b]" "out @ [?c]"] Cons.prems by simp
  finally show ?case by (simp add: Let_def split_def)
qed simp

lemma ige_dec_ptr_eq:
  "length pre = length out \<Longrightarrow> ige_dec_ptr D (pre @ bs) iv iv2 [length out..<length out + length bs] out =
     out @ fst (ige_dec_copy D bs (if pre = [] then iv else last pre) (if out = [] then iv2 else last out))"
proof (induction bs arbitrary: pre out)
  case (Cons b bs)
  let ?iv = "if pre = [] then iv else last pre" and ?iv2 = "if out = [] then iv2 else last out"
  let ?c = "words16 (XOR) (D (words16 (XOR) b ?iv2)) ?iv"
  have "[length out..<length out + length (b # bs)] = length out # [length (out @ [?c])..<length (out @ [?c]) + length bs]"
    by (simp add: upt_conv_Cons del: upt_Suc)
  moreover have "(pre @ b # bs) ! length out = b" "out \<noteq> [] \<Longrightarrow> out ! (length out - 1) = last out"
    "pre \<noteq> [] \<Longrightarrow> (pre @ b # bs) ! (length out - 1) = last pre"
    using Cons.prems by (simp_all add: nth_append last_conv_nth flip: Cons.prems)
  moreover have "pre = [] \<longleftrightarrow> out = []" using Cons.prems by auto
  ultimately have "ige_dec_ptr D (pre @ b # bs) iv iv2 [length out..<length out + length (b # bs)] out =
      ige_dec_ptr D ((pre @ [b]) @ bs) iv iv2 [length (out @ [?c])..<length (out @ [?c]) + length bs] (out @ [?c])"
    by (simp add: Let_def del: upt_Suc)
  also have "\<dots> = (out @ [?c]) @ fst (ige_dec_copy D bs b ?c)"
    using Cons.IH [of "pre @ [b]" "out @ [?c]"] Cons.prems by simp
  finally show ?case by (simp add: Let_def split_def)
qed simp

lemma ige_enc_paths:
  "bs \<noteq> [] \<Longrightarrow> (let out = ige_enc_ptr E bs iv iv2 [0..<length bs] [] in (out, last out, last bs)) = ige_enc_copy E bs iv iv2"
  using ige_enc_ptr_eq [of "[]" "[]" E bs iv iv2] by (simp add: prod_eq_iff ige_copy_last Let_def)

lemma ige_dec_paths:
  "bs \<noteq> [] \<Longrightarrow> (let out = ige_dec_ptr D bs iv iv2 [0..<length bs] [] in (out, last bs, last out)) = ige_dec_copy D bs iv iv2"
  using ige_dec_ptr_eq [of "[]" "[]" D bs iv iv2] by (simp add: prod_eq_iff ige_copy_last Let_def)

text \<open>All paths compute the loop with copies, also on no blocks at all.\<close>

lemma AES_ige_encrypt_eq:
  assumes "length inp = 16 * n" "length ivec = 32"
  shows "AES_ige_encrypt copy (inp @ junk) (length inp) key ivec enc =
    (let (out, iv, iv2) = (if enc then ige_enc_copy (AES_encrypt key) else ige_dec_copy (AES_decrypt key))
       (blocks_of inp n) (take 16 ivec) (drop 16 ivec) in Inr (concat out, iv @ iv2))"
proof (cases "n = 0")
  case True
  then show ?thesis using assms by (simp add: AES_ige_encrypt_def blocks_of_def)
next
  case False
  have "blocks_of (inp @ junk) n = blocks_of inp n" using assms(1) by (auto simp: blocks_of_def)
  moreover have "blocks_of inp n \<noteq> []" using False by (metis length_0_conv length_blocks_of)
  note paths = ige_enc_paths [OF this] ige_dec_paths [OF this]
  ultimately show ?thesis
    using assms False unfolding length_blocks_of
    by (simp add: AES_ige_encrypt_def paths [unfolded length_blocks_of] Let_def split_def)
qed

section \<open>Decryption\<close>

lemma ige_enc_append:
  "ige_enc_copy E (as @ bs) iv iv2 =
     (let (out, iv', iv2') = ige_enc_copy E as iv iv2; (out2, ivs) = ige_enc_copy E bs iv' iv2' in (out @ out2, ivs))"
  by (induction as arbitrary: iv iv2) (simp_all add: Let_def split_def)

context cipher128 begin

lemma step_inverse:
  assumes "length iv = 16" "length iv2 = 16" "length b = 16"
  shows "words16 (XOR) (D (words16 (XOR) (words16 (XOR) (E (words16 (XOR) b iv)) iv2) iv2)) iv = b"
    "bytes16 (XOR) (D (bytes16 (XOR) (bytes16 (XOR) (E (bytes16 (XOR) b iv)) iv2) iv2)) iv = b"
proof -
  have "length (E (xorl b iv)) = 16" "D (E (xorl b iv)) = xorl b iv" using assms by (simp_all add: enc.length_block D_E)
  then show "words16 (XOR) (D (words16 (XOR) (words16 (XOR) (E (words16 (XOR) b iv)) iv2) iv2)) iv = b"
    "bytes16 (XOR) (D (bytes16 (XOR) (bytes16 (XOR) (E (bytes16 (XOR) b iv)) iv2) iv2)) iv = b"
    using assms by (simp_all add: words16_xor bytes16_eq)
qed

lemma ige_inverse:
  "\<lbrakk>length iv = 16; length iv2 = 16; \<forall>b\<in>set bs. length b = 16\<rbrakk> \<Longrightarrow>
     ige_dec_copy D (fst (ige_enc_copy E bs iv iv2)) iv iv2 = (bs, snd (ige_enc_copy E bs iv iv2))
     \<and> (\<forall>c\<in>set (fst (ige_enc_copy E bs iv iv2)). length c = 16)"
proof (induction bs arbitrary: iv iv2)
  case (Cons b bs)
  define c where "c = words16 (XOR) (E (words16 (XOR) b iv)) iv2"
  have "ige_enc_copy E (b # bs) iv iv2 = (c # fst (ige_enc_copy E bs c b), snd (ige_enc_copy E bs c b))"
    by (simp add: Let_def split_def c_def)
  moreover have "words16 (XOR) (D (words16 (XOR) c iv2)) iv = b"
    unfolding c_def using Cons.prems by (simp only: step_inverse list.set_intros)
  moreover have "length c = 16" by (simp add: c_def)
  ultimately show ?case using Cons.IH [of c b] Cons.prems by (simp add: Let_def)
qed simp

lemma bi_forward_16: "\<forall>c\<in>set (bi_forward in_place E bs iv iv2). length c = 16"
  by (induction bs arbitrary: iv iv2) (simp_all add: Let_def)

lemma bi_backward_16: "\<forall>c\<in>set (bi_backward E bs iv iv2). length c = 16"
  by (induction bs arbitrary: iv iv2) (simp_all add: Let_def)

lemma bi_undo_forward:
  "\<lbrakk>length iv = 16; length iv2 = 16; \<forall>b\<in>set bs. length b = 16\<rbrakk> \<Longrightarrow> bi_undo D (bi_forward False E bs iv iv2) iv iv2 = bs"
  by (induction bs arbitrary: iv iv2) (simp_all add: Let_def step_inverse)

lemma bi_undo_backward:
  "\<lbrakk>length iv = 16; length iv2 = 16; \<forall>b\<in>set bs. length b = 16\<rbrakk> \<Longrightarrow> bi_undo D (bi_backward E bs iv iv2) iv iv2 = bs"
  by (induction bs arbitrary: iv iv2) (simp_all add: Let_def step_inverse)

lemma D_inject:
  assumes "length x = 16" "length y = 16" "D x = D y" shows "x = y"
proof -
  let ?S = "{xs :: u8 list. length xs = 16}"
  have "finite ?S" using finite_lists_length_eq [of "UNIV :: u8 set" 16] by simp
  moreover have "E ` ?S \<subseteq> ?S" by (auto simp: enc.length_block)
  moreover have "inj_on E ?S" by (rule inj_onI) (metis D_E mem_Collect_eq)
  ultimately have "E ` ?S = ?S" by (rule endo_inj_surj)
  then obtain u v where "x = E u" "length u = 16" "y = E v" "length v = 16" using assms(1,2) by blast
  then show ?thesis using assms(3) by (simp add: D_E)
qed

text \<open>In place, the second of two blocks comes back only if the first one was mapped to itself.\<close>

lemma bi_undo_in_place:
  assumes "length iv = 16" "length iv2 = 16" "length a = 16" "length b = 16"
  shows "bi_undo D (bi_forward True E [a, b] iv iv2) iv iv2 = [a, b] \<longleftrightarrow> xorl (E (xorl a iv)) iv2 = a"
proof -
  define c where "c = bytes16 (XOR) (E (bytes16 (XOR) a iv)) iv2"
  define x where "x = E (xorl b c)"
  have l: "length c = 16" "length x = 16" "length (xorl (xorl x c) a) = 16" "length (D (xorl (xorl x c) a)) = 16"
    and x: "D x = xorl b c"
    using assms by (simp_all add: c_def x_def enc.length_block dec.length_block D_E)
  have c: "c = xorl (E (xorl a iv)) iv2" using assms by (simp add: c_def bytes16_eq enc.length_block)
  have "bi_forward True E [a, b] iv iv2 = [c, xorl x c]"
    using assms l by (simp add: Let_def flip: c_def) (simp add: x_def bytes16_eq)
  moreover have "bi_undo D [c, xorl x c] iv iv2 = [a, xorl (D (xorl (xorl x c) a)) c]"
    using step_inverse(2) [OF assms(1-3)] l assms(3) by (simp add: Let_def flip: c_def) (simp add: bytes16_eq)
  moreover have "xorl (D (xorl (xorl x c) a)) c = b \<longleftrightarrow> D (xorl (xorl x c) a) = D x"
    unfolding x using xorl_cancel(1) [of "D (xorl (xorl x c) a)" c] xorl_cancel(1) [of b c] l assms(4) by metis
  moreover have "\<dots> \<longleftrightarrow> xorl (xorl x c) a = x" using D_inject [OF l(3,2)] by metis
  moreover have "\<dots> \<longleftrightarrow> c = a"
    using xorl_cancel(1) [of x a] xorl_cancel(4) [of c x] xorl_cancel(1) [of "xorl x c" a] xorl_cancel(4) [of a x] l assms(3) by (metis length_map length_zip min.idem)
  ultimately show ?thesis unfolding c by simp
qed

end

section \<open>The functions with the two schedules of a key\<close>

lemma blocks_of_append:
  "length a = 16 * m \<Longrightarrow> blocks_of (a @ b) (m + n) = blocks_of a m @ blocks_of b n"
  by (induction m arbitrary: a) (simp_all add: blocks_of_Suc, simp add: blocks_of_def)

lemma ige_chaining:
  assumes keys: "aes_keys ek dk" and "length a = 16 * m" "length b = 16 * n" and ivec: "length ivec = 32"
  obtains c ivec1 d ivec2 where "AES_ige_encrypt copy a (length a) ek ivec True = Inr (c, ivec1)"
    "AES_ige_encrypt copy2 b (length b) ek ivec1 True = Inr (d, ivec2)"
    "AES_ige_encrypt copy3 (a @ b) (length (a @ b)) ek ivec True = Inr (c @ d, ivec2)"
    "AES_ige_encrypt copy4 (c @ d @ junk) (length (a @ b)) dk ivec False = Inr (a @ b, ivec2)"
proof -
  let ?E = "AES_encrypt ek" and ?iv = "take 16 ivec" and ?iv2 = "drop 16 ivec"
  obtain o1 iv iv2 where 1: "ige_enc_copy ?E (blocks_of a m) ?iv ?iv2 = (o1, iv, iv2)" by (metis surj_pair)
  obtain o2 iv' iv2' where 2: "ige_enc_copy ?E (blocks_of b n) iv iv2 = (o2, iv', iv2')" by (metis surj_pair)
  note c = aes_cipher [OF keys]
  have a16: "\<forall>x\<in>set (blocks_of a m). length x = 16" and b16: "\<forall>x\<in>set (blocks_of b n). length x = 16"
    using assms(2,3) blocks_of_16 [of m a] blocks_of_16 [of n b] by auto
  have o1: "\<forall>x\<in>set o1. length x = 16" "length o1 = m" using cipher128.ige_inverse [OF c _ _ a16, of ?iv ?iv2] ivec 1 length_ige_copy(1) [of ?E "blocks_of a m" ?iv ?iv2] by simp_all
  have l: "(iv, iv2) = (if o1 = [] then (?iv, ?iv2) else (last o1, last (blocks_of a m)))" "o1 = [] \<longleftrightarrow> blocks_of a m = []"
    using ige_copy_last(1) [of ?E "blocks_of a m" ?iv ?iv2] ige_copy_Nil(1) [of ?E "blocks_of a m" ?iv ?iv2] unfolding 1 by (auto split: if_splits)
  then have iv: "length iv = 16" "length iv2 = 16"
    using o1(1) a16 ivec last_in_set [of o1] last_in_set [of "blocks_of a m"] by (cases "o1 = []"; simp)+
  have o2: "\<forall>x\<in>set o2. length x = 16" "length o2 = n" using cipher128.ige_inverse [OF c iv b16] 2 length_ige_copy(1) [of ?E "blocks_of b n" iv iv2] by simp_all
  have both: "ige_enc_copy ?E (blocks_of (a @ b) (m + n)) ?iv ?iv2 = (o1 @ o2, iv', iv2')"
    using assms(2) by (simp add: blocks_of_append ige_enc_append 1 2)
  have "\<forall>x\<in>set (blocks_of (a @ b) (m + n)). length x = 16" using assms(2) a16 b16 by (simp add: blocks_of_append ball_Un)
  from cipher128.ige_inverse [OF c _ _ this, of ?iv ?iv2] both ivec
  have inverse: "ige_dec_copy (AES_decrypt dk) (o1 @ o2) ?iv ?iv2 = (blocks_of (a @ b) (m + n), iv', iv2')" by simp
  have len: "length (concat (o1 @ o2)) = length (a @ b)" "length (a @ b) = 16 * (m + n)"
    using o1 o2 assms(2,3) by (simp_all add: length_concat_16)
  have blocks: "blocks_of (concat (o1 @ o2)) (m + n) = o1 @ o2"
    using blocks_of_concat [of "o1 @ o2" "[]"] o1 o2 by (simp add: ball_Un)
  show thesis
  proof (rule that [of "concat o1" "iv @ iv2" "concat o2" "iv' @ iv2'"])
    show "AES_ige_encrypt copy a (length a) ek ivec True = Inr (concat o1, iv @ iv2)"
      using AES_ige_encrypt_eq [OF assms(2) ivec, of copy "[]"] 1 by simp
    show "AES_ige_encrypt copy2 b (length b) ek (iv @ iv2) True = Inr (concat o2, iv' @ iv2')"
      using AES_ige_encrypt_eq [OF assms(3), of "iv @ iv2" copy2 "[]"] iv 2 by simp
    show "AES_ige_encrypt copy3 (a @ b) (length (a @ b)) ek ivec True = Inr (concat o1 @ concat o2, iv' @ iv2')"
      using AES_ige_encrypt_eq [OF len(2) ivec, of copy3 "[]"] both by simp
    show "AES_ige_encrypt copy4 (concat o1 @ concat o2 @ junk) (length (a @ b)) dk ivec False = Inr (a @ b, iv' @ iv2')"
      using AES_ige_encrypt_eq [of "concat (o1 @ o2)" "m + n" ivec copy4 junk dk False] ivec len blocks inverse
      by (simp add: concat_blocks_of)
  qed
qed

lemma AES_bi_ige_encrypt_eq:
  assumes "length inp = 16 * n" "length ivec = 64"
  shows "AES_bi_ige_encrypt in_place inp (length inp) key key2 ivec True =
      Inr (concat (rev (bi_backward (AES_encrypt key) (rev (bi_forward in_place (AES_encrypt key) (blocks_of inp n)
        (take 16 ivec) (take 16 (drop 16 ivec)))) (take 16 (drop 32 ivec)) (take 16 (drop 48 ivec)))))"
    "AES_bi_ige_encrypt in_place inp (length inp) key key2 ivec False =
      Inr (concat (bi_undo (AES_decrypt key) (rev (bi_undo (AES_decrypt key) (rev (blocks_of inp n))
        (take 16 (drop 32 ivec)) (take 16 (drop 48 ivec)))) (take 16 ivec) (take 16 (drop 16 ivec))))"
  using assms by (simp_all add: AES_bi_ige_encrypt_def Let_def)

lemma length_bi [simp]:
  "length (bi_forward in_place E bs iv iv2) = length bs" "length (bi_backward E bs iv iv2) = length bs" "length (bi_undo D bs iv iv2) = length bs"
  by (induction bs arbitrary: iv iv2) (simp_all add: Let_def)

lemma bi_undo_16: "\<forall>x\<in>set (bi_undo D bs iv iv2). length x = 16"
  by (induction bs arbitrary: iv iv2) (simp_all add: Let_def)

text \<open>Decryption undoes the backward pass, whatever the forward pass made.\<close>

lemma bi_ige_decrypt:
  assumes keys: "aes_keys ek dk" and "length msg = 16 * n" "length ivec = 64"
  obtains c where "AES_bi_ige_encrypt in_place msg (length msg) ek key2 ivec True = Inr c" "length c = length msg"
    "AES_bi_ige_encrypt in_place' c (length c) dk key2' ivec False =
       Inr (concat (bi_undo (AES_decrypt dk) (bi_forward in_place (AES_encrypt ek) (blocks_of msg n)
         (take 16 ivec) (take 16 (drop 16 ivec))) (take 16 ivec) (take 16 (drop 16 ivec))))"
proof -
  note c = aes_cipher [OF keys]
  let ?iv = "take 16 (drop 32 ivec)" and ?iv2 = "take 16 (drop 48 ivec)"
  define out where "out = bi_forward in_place (AES_encrypt ek) (blocks_of msg n) (take 16 ivec) (take 16 (drop 16 ivec))"
  define bs where "bs = rev (bi_backward (AES_encrypt ek) (rev out) ?iv ?iv2)"
  have out: "\<forall>x\<in>set out. length x = 16" "length out = n" using cipher128.bi_forward_16 [OF c] by (simp_all add: out_def)
  have bs: "\<forall>x\<in>set bs. length x = 16" "length bs = n"
    using cipher128.bi_backward_16 [OF c] out(2) by (simp_all add: bs_def)
  have len: "length (concat bs) = 16 * n" using length_concat_16 [OF bs(1)] bs(2) by simp
  have "bi_undo (AES_decrypt dk) (rev bs) ?iv ?iv2 = rev out"
    unfolding bs_def using cipher128.bi_undo_backward [OF c, of ?iv ?iv2 "rev out"] out(1) assms(3) by simp
  moreover have "blocks_of (concat bs) n = bs" using blocks_of_concat [OF bs(1), of "[]"] bs(2) by simp
  ultimately show thesis
    using that [of "concat bs"] AES_bi_ige_encrypt_eq(1) [OF assms(2,3), of in_place ek key2]
      AES_bi_ige_encrypt_eq(2) [OF len assms(3), of in_place' dk key2'] len assms(2)
    by (simp add: bs_def out_def)
qed

section \<open>Results\<close>

text \<open>
  C36: for every key and all messages of whole blocks.  One way, a message may be handed over in two pieces, on
  any of the two paths, and decryption on either path gives it back with the same vectors.  Two ways, with separate
  buffers, decryption gives the message back, in place or not.  Two ways and in place, a message of two blocks comes back only
  if its first block is mapped to itself, because the plaintext block before is read after it was overwritten.
\<close>

theorem AES_ige_roundtrip:
  assumes "bits \<in> {128, 192, 256}" "bits div 8 \<le> int (length userKey)" "length a mod 16 = 0" "length b mod 16 = 0"
    and "length ivec = 32" "length ivec4 = 64" "length x = 16" "length y = 16"
  shows "\<exists>ek dk. AES_set_encrypt_key (Some userKey) bits key = Inr (0, ek) \<and> AES_set_decrypt_key (Some userKey) bits key' = Inr (0, dk)
    \<and> (\<exists>c ivec1 d ivec2. AES_ige_encrypt copy a (length a) ek ivec True = Inr (c, ivec1)
      \<and> AES_ige_encrypt copy2 b (length b) ek ivec1 True = Inr (d, ivec2)
      \<and> AES_ige_encrypt copy3 (a @ b) (length (a @ b)) ek ivec True = Inr (c @ d, ivec2)
      \<and> AES_ige_encrypt copy4 (c @ d @ junk) (length (a @ b)) dk ivec False = Inr (a @ b, ivec2))
    \<and> (\<exists>c. AES_bi_ige_encrypt False a (length a) ek key2 ivec4 True = Inr c \<and> length c = length a
      \<and> AES_bi_ige_encrypt in_place c (length c) dk key2' ivec4 False = Inr a)
    \<and> (\<exists>c. AES_bi_ige_encrypt True (x @ y) 32 ek key2 ivec4 True = Inr c \<and> length c = 32
      \<and> (AES_bi_ige_encrypt in_place c 32 dk key2' ivec4 False = Inr (x @ y)
        \<longleftrightarrow> xorl (AES_encrypt ek (xorl x (take 16 ivec4))) (take 16 (drop 16 ivec4)) = x))"
proof -
  obtain ek dk where keys: "AES_set_encrypt_key (Some userKey) bits key = Inr (0, ek)" "AES_set_decrypt_key (Some userKey) bits key' = Inr (0, dk)"
    "aes_keys ek dk" using aes_schedules [OF assms(1,2)] by blast
  note c = aes_cipher [OF keys(3)]
  let ?iv = "take 16 ivec4" and ?iv2 = "take 16 (drop 16 ivec4)"
  obtain m n where mn: "length a = 16 * m" "length b = 16 * n" using assms(3,4) by fastforce
  have "\<exists>c ivec1 d ivec2. AES_ige_encrypt copy a (length a) ek ivec True = Inr (c, ivec1)
      \<and> AES_ige_encrypt copy2 b (length b) ek ivec1 True = Inr (d, ivec2)
      \<and> AES_ige_encrypt copy3 (a @ b) (length (a @ b)) ek ivec True = Inr (c @ d, ivec2)
      \<and> AES_ige_encrypt copy4 (c @ d @ junk) (length (a @ b)) dk ivec False = Inr (a @ b, ivec2)"
    by (rule ige_chaining [OF keys(3) mn assms(5)]) blast
  moreover have "\<exists>c. AES_bi_ige_encrypt False a (length a) ek key2 ivec4 True = Inr c \<and> length c = length a
      \<and> AES_bi_ige_encrypt in_place c (length c) dk key2' ivec4 False = Inr a"
    by (rule bi_ige_decrypt [OF keys(3) mn(1) assms(6), of False key2 in_place key2'])
      (use cipher128.bi_undo_forward [OF c, of ?iv ?iv2 "blocks_of a m"] assms(6) mn(1) blocks_of_16 [of m a] in \<open>auto simp: concat_blocks_of\<close>)
  moreover have "\<exists>c. AES_bi_ige_encrypt True (x @ y) 32 ek key2 ivec4 True = Inr c \<and> length c = 32
      \<and> (AES_bi_ige_encrypt in_place c 32 dk key2' ivec4 False = Inr (x @ y)
        \<longleftrightarrow> xorl (AES_encrypt ek (xorl x ?iv)) ?iv2 = x)"
  proof -
    have len: "length (x @ y) = 16 * 2" using assms(7,8) by simp
    have bs: "blocks_of (x @ y) 2 = [x, y]" using assms(7,8) by (simp add: numeral_2_eq_2 blocks_of_Suc) (simp add: blocks_of_def)
    define u where "u = bi_undo (AES_decrypt dk) (bi_forward True (AES_encrypt ek) [x, y] ?iv ?iv2) ?iv ?iv2"
    have "length u = 2" "\<forall>z\<in>set u. length z = 16" using bi_undo_16 by (auto simp: u_def simp del: bi_undo.simps bi_forward.simps)
    then have "concat u = x @ y \<longleftrightarrow> u = [x, y]" using assms(7,8) by (auto simp: length_Suc_conv numeral_2_eq_2)
    moreover have "u = [x, y] \<longleftrightarrow> xorl (AES_encrypt ek (xorl x ?iv)) ?iv2 = x"
      unfolding u_def using cipher128.bi_undo_in_place [OF c _ _ assms(7,8), of ?iv ?iv2] assms(6) by simp
    moreover obtain c where "AES_bi_ige_encrypt True (x @ y) (length (x @ y)) ek key2 ivec4 True = Inr c" "length c = length (x @ y)"
      "AES_bi_ige_encrypt in_place c (length c) dk key2' ivec4 False = Inr (concat u)"
      using bi_ige_decrypt [OF keys(3) len assms(6), of True key2 in_place key2'] unfolding bs u_def by blast
    ultimately show ?thesis using len by simp
  qed
  ultimately show ?thesis using keys(1,2) by blast
qed

theorem AES_ige_roundtrip_witness:
  "\<exists>ek dk. AES_set_encrypt_key (Some (replicate 16 1)) 128 \<lparr>rd_key = [], rounds = 0\<rparr> = Inr (0, ek)
    \<and> AES_set_decrypt_key (Some (replicate 16 1)) 128 \<lparr>rd_key = [], rounds = 0\<rparr> = Inr (0, dk)
    \<and> (\<exists>c. AES_bi_ige_encrypt False (replicate 32 3) 32 ek ek (replicate 64 0) True = Inr c \<and> length c = 32
      \<and> AES_bi_ige_encrypt True c 32 dk dk (replicate 64 0) False = Inr (replicate 32 3))"
proof -
  let ?k = "\<lparr>rd_key = [], rounds = 0\<rparr>"
  obtain ek dk where "AES_set_encrypt_key (Some (replicate 16 1)) 128 ?k = Inr (0, ek)" "AES_set_decrypt_key (Some (replicate 16 1)) 128 ?k = Inr (0, dk)"
    by (rule aes_schedules [of 128 "replicate 16 1" ?k ?k]) simp_all
  then show ?thesis
    using AES_ige_roundtrip [of 128 "replicate 16 1" "replicate 32 3" "[]" "replicate 32 0" "replicate 64 0" "replicate 16 0" "replicate 16 0"
        ?k ?k True True True True "[]" ek True dk] by auto
qed

end
