(* ===== verification/Rcv_Stream_Props.thy ===== *)
theory Rcv_Stream_Props
  imports Rcv_Stream
begin

text \<open>
  What the file stream does with packets: files of one node arrive whole; beyond the first node, and when a gap is
  closed, it does not work.  The classification of early packets is right for packets that do not overlap in part.
\<close>

section \<open>Packets in order within the first node\<close>

text \<open>
  The stream has taken the bytes \<open>w\<close>, in order, into its only node.  The link of that node is \<open>t\<close>: a node from the pool comes
  with the link it had there, because \<^verbatim>\<open>NodePool::pop\<close> does not clear it.
\<close>

definition fr_at :: "addr \<Rightarrow> frs \<Rightarrow> u8 list \<Rightarrow> bool" where
  "fr_at t = (\<lambda>(h, pool, st) w.
     fr_head st \<noteq> 0 \<and> fr_head st < cbrk h \<and> clive h (fr_head st) \<and> fr_tail st = fr_head st \<and> ntail (cnode h (fr_head st)) = t \<and> fr_ub_list st = []
     \<and> fr_file st = [] \<and> fr_headSeq st = 0 \<and> length w \<le> 4096
     \<and> fr_headByteCount st = word_of_nat (length w) \<and> fr_lastSeq st = word_of_nat (length w)
     \<and> (\<forall>i<length w. nbytes (cnode h (fr_head st)) i = w ! i))"

lemma unat_u16_small: "n \<le> 4096 \<Longrightarrow> unat (word_of_nat n :: u16) = n"
  by (simp add: unat_of_nat)

lemma unat_u32_small: "n \<le> 8192 \<Longrightarrow> unat (word_of_nat n :: u32) = n"
  by (simp add: unat_of_nat)

lemma u16_u32_small: "n \<le> 4096 \<Longrightarrow> ucast (word_of_nat n :: u16) = (word_of_nat n :: u32)"
  by (simp add: word_unat_eq_iff unsigned_ucast_eq unat_u16_small unat_u32_small take_bit_nat_eq_self)

lemma u32_u16_small: "n \<le> 4096 \<Longrightarrow> ucast (word_of_nat n :: u32) = (word_of_nat n :: u16)"
  by (simp add: word_unat_eq_iff unsigned_ucast_eq unat_u16_small unat_u32_small take_bit_nat_eq_self)

lemma writable: "n \<le> 4096 \<Longrightarrow> unat (4096 - word_of_nat n :: u32) = 4096 - n"
  by (simp add: unat_minus_cases unat_u32_small)

lemma fr_at_append:
  assumes "fr_at t s w" "length w + length d \<le> 4096"
  shows "\<exists>s'. Append WriteFile s (word_of_nat (length w)) (word_of_nat (length d)) (d @ junk) = Inr (0, s') \<and> fr_at t s' (w @ d)"
proof -
  obtain h pool st where s: "s = (h, pool, st)" by (metis surj_pair)
  define a where "a = fr_head st"
  note F = assms(1) [unfolded s fr_at_def prod.case]
  have w: "length w \<le> 4096" "length d \<le> 4096" using assms(2) by linarith+
  have c: "CheckUB st (word_of_nat (length w)) (word_of_nat (length d)) = (UBM_ONSEQ, st)"
    using F by (simp add: CheckUB_def)
  have fits: "(word_of_nat (length d) :: u32) \<le> 4096 - word_of_nat (length w)"
    using assms(2) w by (simp add: word_le_nat_alt writable unat_u32_small)
  define h' where "h' = h\<lparr>cnode := (cnode h)(a := (cnode h a)\<lparr>nbytes := blit (nbytes (cnode h a)) (length w) d\<rparr>)\<rparr>"
  have m: "memcpy_c h a (uint (word_of_nat (length w) :: u16)) (d @ junk) 0 (unat (word_of_nat (length d) :: u32)) = Inr h'"
    using F w assms(2) by (simp add: memcpy_c_def h'_def a_def unat_u32_small unat_u16_small uint_nat flip: of_nat_add)
  define st' where "st' = st\<lparr>fr_unSeqLen := 0, fr_lastSeq := word_of_nat (length (w @ d)), fr_headByteCount := word_of_nat (length (w @ d))\<rparr>"
  have "Append WriteFile s (word_of_nat (length w)) (word_of_nat (length d)) (d @ junk) = Inr (0, h', pool, st')"
    using F fits m w c
    by (simp add: s Append_def append_onseq_def a_def sgt0_def u16_u32_small u32_u16_small st'_def)
  moreover have "fr_at t (h', pool, st') (w @ d)"
    using F assms(2) by (auto simp: fr_at_def st'_def h'_def a_def blit_def nth_append)
  ultimately show ?thesis by blast
qed

fun append_all :: "write_file \<Rightarrow> nat \<Rightarrow> frs \<Rightarrow> u8 list list \<Rightarrow> frs cres" where
  "append_all WriteFile n s [] = Inr s"
| "append_all WriteFile n s (d # ds) =
     rbind (Append WriteFile s (word_of_nat n) (word_of_nat (length d)) d) (\<lambda>(r, s). append_all WriteFile (n + length d) s ds)"

lemma fr_at_append_all:
  "fr_at t s w \<Longrightarrow> length (w @ concat ds) \<le> 4096 \<Longrightarrow> \<exists>s'. append_all WriteFile (length w) s ds = Inr s' \<and> fr_at t s' (w @ concat ds)"
proof (induction ds arbitrary: s w)
  case (Cons d ds)
  obtain s' where s': "Append WriteFile s (word_of_nat (length w)) (word_of_nat (length d)) d = Inr (0, s')" "fr_at t s' (w @ d)"
    using fr_at_append [OF Cons.prems(1), of d WriteFile "[]"] Cons.prems(2) by auto
  with Cons.IH [OF s'(2)] Cons.prems(2) show ?case by simp
qed simp

definition writes :: "write_file \<Rightarrow> bool" where
  "writes WriteFile \<longleftrightarrow> (\<forall>f d. WriteFile f d = (length d, f @ d))"

lemma fr_at_finalize:
  assumes "fr_at t s w" "writes WriteFile"
  shows "if t = 0 then \<exists>h pool st. Finalize WriteFile s = Inr (h, pool, st) \<and> fr_file st = w
    else Finalize WriteFile s = Inl (RuntimeError ''cannot finalize stream: incomplete data'')"
proof -
  obtain h pool st where s: "s = (h, pool, st)" by (metis surj_pair)
  note F = assms(1) [unfolded s fr_at_def prod.case]
  have "map (nbytes (cnode h (fr_head st))) [0..<length w] = w" using F by (intro nth_equalityI) auto
  then show ?thesis
    using F assms(2) by (auto simp: s Finalize_def write_node_def writes_def unat_u16_small)
qed

text \<open>A pool from which a node can be had, and the node it gives.\<close>

definition pool_ok :: "nheap \<Rightarrow> NodePool \<Rightarrow> bool" where
  "pool_ok h pool \<longleftrightarrow> (if rhead pool = 0 then 0 < cbrk h \<and> cbrk h < climit h else clive h (rhead pool) \<and> rhead pool < cbrk h)"

definition pool_link :: "nheap \<Rightarrow> NodePool \<Rightarrow> addr" where
  "pool_link h pool = (if rhead pool = 0 then 0 else ntail (cnode h (rhead pool)))"

lemma pop_or_new_ok:
  assumes "pool_ok h pool"
  obtains b h' pool' where "pop_or_new h pool = Inr (b, h', pool')" "b \<noteq> 0" "b < cbrk h'" "clive h' b" "ntail (cnode h' b) = pool_link h pool"
    "\<And>a. a < cbrk h \<Longrightarrow> a \<noteq> rhead pool \<Longrightarrow> a \<noteq> b \<and> clive h' a = clive h a \<and> cnode h' a = cnode h a"
proof (cases "rhead pool = 0")
  case True
  let ?h = "h\<lparr>clive := (clive h)(cbrk h := True), cbrk := cbrk h + 1, cnode := (cnode h)(cbrk h := (cnode h (cbrk h))\<lparr>ntail := 0\<rparr>)\<rparr>"
  have "pop_or_new h pool = Inr (cbrk h, ?h, pool)"
    using True assms by (simp add: pool_ok_def pop_or_new_def NodePool_pop_def new_Node_def Let_def)
  then show ?thesis by (rule that) (use True assms in \<open>auto simp: pool_ok_def pool_link_def\<close>)
next
  case False
  then have "pop_or_new h pool = Inr (rhead pool, h, pool\<lparr>rhead := ntail (cnode h (rhead pool)), pool_size := pool_size pool - 1\<rparr>)"
    using assms by (simp add: pool_ok_def pop_or_new_def NodePool_pop_def pop_locked_def cderef_def)
  then show ?thesis by (rule that) (use False assms in \<open>auto simp: pool_ok_def pool_link_def\<close>)
qed

lemma fr_at_new:
  assumes "pool_ok h pool"
  shows "\<exists>s. FileRcvStream_new True cap h pool = Inr s \<and> fr_at (pool_link h pool) s []"
proof -
  obtain b h' pool' where "pop_or_new h pool = Inr (b, h', pool')" "b \<noteq> 0" "b < cbrk h'" "clive h' b" "ntail (cnode h' b) = pool_link h pool"
    by (rule pop_or_new_ok [OF assms]) blast
  then show ?thesis by (simp add: FileRcvStream_new_def fr_at_def)
qed

section \<open>A packet that crosses into the second node\<close>

lemma append_later_not_in_order:
  assumes "fr_ub_list st = []" "seq \<noteq> fr_lastSeq st"
  shows "Append WriteFile (h, pool, st) seq len data = Inr (r, s) \<Longrightarrow> r \<noteq> 0"
  using assms by (auto simp: Append_def CheckUB_def rbind_Inr_iff Let_def split: if_splits prod.splits)

lemma fr_at_cross:
  assumes "fr_at t (h, pool, st) w" "length d \<le> 4096" "4096 < length w + length d"
    and "writes WriteFile" "pool_ok h pool" "rhead pool \<noteq> fr_head st"
  shows "\<exists>h' pool' st'. Append WriteFile (h, pool, st) (word_of_nat (length w)) (word_of_nat (length d)) d = Inr (0, h', pool', st')
    \<and> fr_file st' = take 4096 (w @ d) \<and> fr_lastSeq st' = fr_lastSeq st \<and> fr_head st' = fr_head st \<and> fr_headByteCount st' = 0
    \<and> fr_ub_list st' = [] \<and> Finalize WriteFile (h', pool', st') = Inl (RuntimeError ''cannot finalize stream: incomplete data'')"
proof -
  define a where "a = fr_head st"
  note F = assms(1) [unfolded fr_at_def prod.case]
  have w: "length w \<le> 4096" using F by simp
  have c: "CheckUB st (word_of_nat (length w)) (word_of_nat (length d)) = (UBM_ONSEQ, st)"
    using F by (simp add: CheckUB_def)
  have fits: "\<not> (word_of_nat (length d) :: u32) \<le> 4096 - word_of_nat (length w)"
    using assms(2,3) w by (simp add: word_le_nat_alt writable unat_u32_small)
  have rest: "unat (word_of_nat (length d) - (4096 - word_of_nat (length w)) :: u32) = length d - (4096 - length w)"
    using assms(2,3) w by (simp add: unat_minus_cases writable unat_u32_small)
  let ?bytes = "blit (nbytes (cnode h a)) (length w) (take (4096 - length w) d)"
  have copied: "map ?bytes [0..<4096] = take 4096 (w @ d)"
    using F assms(3) by (intro nth_equalityI) (auto simp: blit_def nth_append a_def)
  define h1 where "h1 = h\<lparr>cnode := (cnode h)(a := (cnode h a)\<lparr>nbytes := ?bytes\<rparr>)\<rparr>"
  have "pool_ok h1 pool" using assms(5) by (simp add: pool_ok_def h1_def)
  then obtain b hb pool' where P: "pop_or_new h1 pool = Inr (b, hb, pool')" "b \<noteq> 0" "clive hb b"
      "\<And>a. a < cbrk h1 \<Longrightarrow> a \<noteq> rhead pool \<Longrightarrow> a \<noteq> b \<and> clive hb a = clive h1 a \<and> cnode hb a = cnode h1 a"
    by (rule pop_or_new_ok) blast
  have ab: "a \<noteq> 0" "a \<noteq> b" "clive h a" "clive hb a" "cnode hb a = (cnode h a)\<lparr>nbytes := ?bytes\<rparr>" "b \<noteq> a"
    using F P(4) [of a] assms(6) by (auto simp: a_def h1_def)
  define h2 where "h2 = hb\<lparr>cnode := (cnode hb)(a := (cnode hb a)\<lparr>ntail := b\<rparr>)\<rparr>"
  define h3 where "h3 = h2\<lparr>cnode := (cnode h2)(b := (cnode h2 b)\<lparr>nbytes := blit (nbytes (cnode h2 b)) 0 (drop (4096 - length w) d)\<rparr>)\<rparr>"
  define st' where "st' = st\<lparr>fr_unSeqLen := 0, fr_nodeCount := fr_nodeCount st + 1, fr_headByteCount := 0, fr_file := take 4096 (w @ d), fr_headSeq := 4096\<rparr>"
  define st1 where "st1 = st\<lparr>fr_unSeqLen := 0\<rparr>"
  have m1: "memcpy_c h a (uint (word_of_nat (length w) :: u16)) d 0 (unat (4096 - word_of_nat (length w) :: u32)) = Inr h1"
    using ab w assms(3) by (simp add: memcpy_c_def h1_def writable unat_u16_small uint_nat)
  have live: "cderef h1 a = Inr (cnode h1 a)" using ab by (simp add: cderef_def h1_def)
  have nn: "NewNode (h1, pool, st1) = Inr (h2, pool', st1\<lparr>fr_nodeCount := fr_nodeCount st + 1\<rparr>)"
    using F ab live P(1) unfolding NewNode_def
    by (simp add: st1_def h2_def flip: a_def)
  have m2: "memcpy_c h2 b 0 d (unat (4096 - word_of_nat (length w) :: u32)) (unat (word_of_nat (length d) - (4096 - word_of_nat (length w)) :: u32)) = Inr h3"
    using ab P(2,3) w assms(2,3) by (simp add: memcpy_c_def h3_def h2_def writable rest)
  have fl: "FlushNode WriteFile (h3, pool', st1\<lparr>fr_nodeCount := fr_nodeCount st + 1, fr_headByteCount := n\<rparr>) = Inr (h3, pool', st')" for n
    using F ab assms(4) copied unfolding FlushNode_def write_node_def writes_def
    by (simp add: st1_def st'_def h3_def h2_def flip: a_def)
  have "Append WriteFile (h, pool, st) (word_of_nat (length w)) (word_of_nat (length d)) d = Inr (0, h3, pool', st')"
    using F fits m1 nn m2 fl w c ab
    by (simp add: Append_def append_onseq_def sgt0_def u16_u32_small flip: a_def st1_def) (simp add: h2_def st1_def a_def)
  moreover have "Finalize WriteFile (h3, pool', st') = Inl (RuntimeError ''cannot finalize stream: incomplete data'')"
    using ab P(2) by (simp add: Finalize_def st'_def h3_def h2_def flip: a_def)
  ultimately show ?thesis using F by (intro exI [of _ h3] exI [of _ pool'] exI [of _ st']) (simp add: st'_def)
qed

section \<open>The loop that merges\<close>

lemma merge_loop_fails: "m < 4096 \<Longrightarrow> \<exists>e. merge_loop WriteFile m s = Inl e"
proof (induction WriteFile m s rule: merge_loop.induct)
  case (1 WriteFile m s)
  then show ?case
    by (subst merge_loop.simps) (cases "FlushNode WriteFile s"; auto)
qed

lemma rbind_fails: "(\<And>x. \<exists>e. f x = Inl e) \<Longrightarrow> \<exists>e. rbind m f = Inl e"
  by (cases m) auto

lemma append_merging_fails:
  assumes "sint (len + snd (hd (fr_ub_list st)) - fst (hd (fr_ub_list st))) < 4096"
  shows "\<exists>e. append_merging WriteFile (h, pool, st) len data = Inl e"
proof -
  have "\<exists>e. rbind (merge_loop WriteFile (sint (len + snd (hd (fr_ub_list st)) - fst (hd (fr_ub_list st)))) s) g = Inl e"
    for s and g :: "frs \<Rightarrow> (int \<times> frs) cres"
    using merge_loop_fails [OF assms, of WriteFile s] by auto
  then show ?thesis unfolding append_merging_def prod.case Let_def by (intro rbind_fails) simp
qed

section \<open>Early packets\<close>

fun wf_blocks :: "u32 \<Rightarrow> nat \<Rightarrow> blocks \<Rightarrow> bool" where
  "wf_blocks b lo [] \<longleftrightarrow> True"
| "wf_blocks b lo ((hs, ts) # bs) \<longleftrightarrow> lo < soff b hs \<and> soff b hs < soff b ts \<and> soff b ts < 2147483648 \<and> wf_blocks b (soff b ts) bs"

fun covered :: "u32 \<Rightarrow> blocks \<Rightarrow> nat set" where
  "covered b [] = {}"
| "covered b ((hs, ts) # bs) = {soff b hs..<soff b ts} \<union> covered b bs"

lemma wf_blocks_above: "wf_blocks b lo bs \<Longrightarrow> x \<in> covered b bs \<Longrightarrow> lo < x"
  by (induction bs arbitrary: lo) (auto dest: less_trans, fastforce)

lemma wf_blocks_start: "wf_blocks b lo bs \<Longrightarrow> (h, t) \<in> set bs \<Longrightarrow> lo < soff b h"
  by (induction bs arbitrary: lo) (auto, meson less_trans)

lemma wf_blocks_weaken: "wf_blocks b lo bs \<Longrightarrow> lo' \<le> lo \<Longrightarrow> wf_blocks b lo' bs"
  by (cases bs) auto

lemma sint_neg_soff:
  assumes "soff b x < 2147483648" "soff b y < 2147483648"
  shows "sint (x - y) < 0 \<longleftrightarrow> soff b x < soff b y"
proof -
  have "sint (x - y) < 0 \<longleftrightarrow> \<not> sgt0 (x - y) \<and> sint (x - y) \<noteq> 0" by (auto simp: sgt0_def)
  also have "\<dots> \<longleftrightarrow> \<not> soff b y < soff b x \<and> x \<noteq> y"
    using assms by (simp add: sgt0_soff signed_eq_0_iff)
  also have "\<dots> \<longleftrightarrow> soff b x < soff b y" by (metis linorder_neqE_nat not_less_iff_gr_or_eq soff_inject)
  finally show ?thesis .
qed

text \<open>A packet overlaps no block, or lies within one.\<close>

definition honest :: "u32 \<Rightarrow> blocks \<Rightarrow> nat set \<Rightarrow> bool" where
  "honest b bs pk \<longleftrightarrow> pk \<inter> covered b bs = {} \<or> (\<exists>(hs, ts)\<in>set bs. pk \<subseteq> {soff b hs..<soff b ts})"

definition packet :: "u32 \<Rightarrow> u32 \<Rightarrow> u32 \<Rightarrow> nat set" where
  "packet b seq len = {soff b seq..<soff b seq + unat len}"

definition checked :: "u32 \<Rightarrow> nat \<Rightarrow> blocks \<Rightarrow> nat set \<Rightarrow> bool \<Rightarrow> UBM \<times> blocks \<Rightarrow> bool" where
  "checked b lo bs pk full = (\<lambda>(r, bs').
     wf_blocks b lo bs' \<and>
     (if pk \<subseteq> covered b bs then r = UBM_OVERLAP \<and> bs' = bs
      else r = UBM_FULL \<and> bs' = bs \<and> full \<or> r \<in> {UBM_ADDED, UBM_EXTENDED} \<and> covered b bs' = covered b bs \<union> pk))"

text \<open>A packet meets the blocks that are left: the hypotheses of the four cases below.\<close>

definition meets :: "u32 \<Rightarrow> nat \<Rightarrow> u32 \<Rightarrow> u32 \<Rightarrow> blocks \<Rightarrow> u32 \<Rightarrow> u32 \<Rightarrow> bool" where
  "meets b lo hs ts bs seq len \<longleftrightarrow> wf_blocks b lo ((hs, ts) # bs) \<and> lo < soff b seq \<and> 0 < len
     \<and> soff b seq + unat len < 2147483648 \<and> honest b ((hs, ts) # bs) (packet b seq len)"

lemma packet_end: "soff b seq + unat len < 2147483648 \<Longrightarrow> soff b (seq + len) = soff b seq + unat len"
  by (intro soff_add) simp

lemma packet_start: "0 < len \<Longrightarrow> soff b seq \<in> packet b seq len"
  by (simp add: packet_def word_gt_0 unat_gt_0)

lemma meetsD:
  assumes "meets b lo hs ts bs seq len"
  shows "lo < soff b hs" "soff b hs < soff b ts" "soff b ts < 2147483648" "wf_blocks b (soff b ts) bs" "lo < soff b seq"
    and "0 < unat len" "soff b (seq + len) = soff b seq + unat len" "soff b seq \<in> packet b seq len"
    and "sgt0 (hs - seq) \<longleftrightarrow> soff b seq < soff b hs" "sgt0 (hs - (seq + len)) \<longleftrightarrow> soff b seq + unat len < soff b hs"
    and "sgt0 (ts - seq) \<longleftrightarrow> soff b seq < soff b ts" "sint (ts - (seq + len)) < 0 \<longleftrightarrow> soff b ts < soff b seq + unat len"
    and "soff b seq + unat len < 2147483648"
proof -
  note M = assms [unfolded meets_def]
  show W: "lo < soff b hs" "soff b hs < soff b ts" "soff b ts < 2147483648" "wf_blocks b (soff b ts) bs" "lo < soff b seq"
    using M by simp_all
  show "soff b seq + unat len < 2147483648" using M by simp
  show "0 < unat len" "soff b seq \<in> packet b seq len" and e: "soff b (seq + len) = soff b seq + unat len"
    using M packet_start packet_end by (simp_all add: word_gt_0 unat_gt_0)
  have l: "soff b seq < 2147483648" "soff b hs < 2147483648" "soff b (seq + len) < 2147483648" using M W e by linarith+
  show "sgt0 (hs - seq) \<longleftrightarrow> soff b seq < soff b hs" "sgt0 (hs - (seq + len)) \<longleftrightarrow> soff b seq + unat len < soff b hs"
    "sgt0 (ts - seq) \<longleftrightarrow> soff b seq < soff b ts" "sint (ts - (seq + len)) < 0 \<longleftrightarrow> soff b ts < soff b seq + unat len"
    using sgt0_soff [OF l(2,1)] sgt0_soff [OF l(2,3)] sgt0_soff [OF W(3) l(1)] sint_neg_soff [OF W(3) l(3)] e by simp_all
qed

lemma meets_overlap:
  assumes "meets b lo hs ts bs seq len" "packet b seq len \<inter> covered b ((hs, ts) # bs) \<noteq> {}"
  obtains h t where "(h, t) \<in> set ((hs, ts) # bs)" "packet b seq len \<subseteq> {soff b h..<soff b t}" "soff b h \<le> soff b seq"
proof -
  obtain h t where "(h, t) \<in> set ((hs, ts) # bs)" "packet b seq len \<subseteq> {soff b h..<soff b t}"
    using assms by (auto simp: meets_def honest_def)
  then show thesis using that meetsD(8) [OF assms(1)] by fastforce
qed

lemma check_before:
  assumes "meets b lo hs ts bs seq len" "soff b seq < soff b hs"
  shows "checked b lo ((hs, ts) # bs) (packet b seq len) (cap \<le> n \<or> full) (CheckUB_loop cap n headSeq seq len ((hs, ts) # bs))"
proof -
  note M = meetsD [OF assms(1)]
  have out: "\<not> packet b seq len \<subseteq> covered b ((hs, ts) # bs)"
    using M(2,8) assms(2) wf_blocks_above [OF M(4), of "soff b seq"] by auto
  have "\<not> soff b hs < soff b seq + unat len"
  proof
    assume "soff b hs < soff b seq + unat len"
    then have "soff b hs \<in> packet b seq len \<inter> covered b ((hs, ts) # bs)" using assms(2) M(2) by (auto simp: packet_def)
    then obtain h t where "(h, t) \<in> set ((hs, ts) # bs)" "soff b h \<le> soff b seq" using meets_overlap [OF assms(1)] by blast
    then show False using assms(2) M(2) wf_blocks_start [OF M(4), of h t] by auto
  qed
  then consider "soff b seq + unat len < soff b hs" | "soff b seq + unat len = soff b hs" "seq + len = hs"
    using M(7) soff_inject [of b "seq + len" hs] by linarith
  then show ?thesis
    by cases (use out M assms(2) in \<open>auto simp: checked_def packet_def\<close>)
qed

lemma check_within:
  assumes "meets b lo hs ts bs seq len" "soff b hs \<le> soff b seq" "soff b seq < soff b ts"
  shows "checked b lo ((hs, ts) # bs) (packet b seq len) full (CheckUB_loop cap n headSeq seq len ((hs, ts) # bs))"
proof -
  note M = meetsD [OF assms(1)]
  have "packet b seq len \<inter> covered b ((hs, ts) # bs) \<noteq> {}" using M(8) assms(2,3) by auto
  then obtain h t where h: "(h, t) \<in> set ((hs, ts) # bs)" "packet b seq len \<subseteq> {soff b h..<soff b t}" "soff b h \<le> soff b seq"
    using meets_overlap [OF assms(1)] by blast
  then have p: "packet b seq len \<subseteq> {soff b hs..<soff b ts}" using wf_blocks_start [OF M(4), of h t] assms(3) by auto
  moreover have "soff b seq + unat len - 1 \<in> packet b seq len" using M(6) by (simp add: packet_def)
  ultimately have "soff b seq + unat len - 1 < soff b ts" by auto
  then have "soff b seq + unat len \<le> soff b ts" by linarith
  then show ?thesis using p M assms(2,3) by (auto simp: checked_def)
qed

lemma check_touch:
  assumes "meets b lo hs ts bs seq len" "seq = ts"
  shows "checked b lo ((hs, ts) # bs) (packet b seq len) (c \<or> too_far headSeq (seq + len))
    (CheckUB_loop cap n headSeq seq len ((hs, ts) # bs))"
proof -
  note M = meetsD [OF assms(1)]
  have out: "\<not> packet b seq len \<subseteq> covered b ((hs, ts) # bs)"
    using M(8) assms(2) wf_blocks_above [OF M(4), of "soff b seq"] by auto
  have dis: "packet b seq len \<inter> covered b ((hs, ts) # bs) = {}"
    using M(8) assms(2) wf_blocks_start [OF M(4)] meets_overlap [OF assms(1)] by (metis (no_types, lifting)
      atLeastLessThan_iff leD order_less_irrefl prod.inject set_ConsD subsetD)
  show ?thesis
  proof (cases bs)
    case Nil
    then show ?thesis using out M assms(2) by (auto simp: checked_def packet_def)
  next
    case (Cons b2 bs2)
    obtain h2 t2 where b2: "b2 = (h2, t2)" by (cases b2)
    have W2: "soff b ts < soff b h2" "soff b h2 < soff b t2" "soff b t2 < 2147483648" "wf_blocks b (soff b t2) bs2"
      using M(4) by (simp_all add: Cons b2)
    have "soff b h2 \<notin> packet b seq len" using dis W2(2) by (auto simp: Cons b2)
    then have ge: "soff b seq + unat len \<le> soff b h2" using W2(1) assms(2) by (simp add: packet_def)
    then have "h2 \<noteq> seq + len \<Longrightarrow> soff b seq + unat len < soff b h2"
      using M(7) soff_inject [of b h2 "seq + len"] by linarith
    then show ?thesis
      by (cases "h2 = seq + len") (use out M W2 assms(2) in \<open>auto simp: checked_def packet_def Cons b2 word_gt_0\<close>)
  qed
qed

lemma CheckUB_loop_checked:
  assumes "wf_blocks b lo bs" "lo < soff b seq" "0 < len" "soff b seq + unat len < 2147483648" "honest b bs (packet b seq len)"
  shows "checked b lo bs (packet b seq len) (cap \<le> n \<or> too_far headSeq (seq + len)) (CheckUB_loop cap n headSeq seq len bs)"
  using assms(1,2,5)
proof (induction bs arbitrary: lo)
  case Nil
  then show ?case using assms(3,4) packet_end [of b seq len] packet_start [of len b seq]
    by (auto simp: checked_def packet_def word_gt_0 unat_gt_0)
next
  case (Cons block bs)
  obtain hs ts where block: "block = (hs, ts)" by (cases block)
  have m: "meets b lo hs ts bs seq len" using Cons.prems assms(3,4) by (simp add: meets_def block)
  note M = meetsD [OF m]
  consider (before) "soff b seq < soff b hs" | (within) "soff b hs \<le> soff b seq" "soff b seq < soff b ts" | (touch) "seq = ts" | (after) "soff b ts < soff b seq"
    using soff_inject [of b seq ts] by linarith
  then show ?case
  proof cases
    case after
    have "honest b bs (packet b seq len)"
      using Cons.prems(3) M(8) after unfolding honest_def block by fastforce
    note IH = Cons.IH [OF M(4) after this]
    have "packet b seq len \<subseteq> covered b (block # bs) \<longleftrightarrow> packet b seq len \<subseteq> covered b bs"
      using after by (auto simp: packet_def block)
    moreover obtain r bs' where r: "CheckUB_loop cap n headSeq seq len bs = (r, bs')" by (metis surj_pair)
    moreover have "CheckUB_loop cap n headSeq seq len (block # bs) = (r, block # bs')"
      using after M(2,9,11) by (auto simp: block r)
    ultimately show ?thesis using IH M(1-3) by (cases "packet b seq len \<subseteq> covered b bs") (auto simp: checked_def block)
  next
    case before
    show ?thesis unfolding block by (rule check_before [OF m before])
  next
    case within
    show ?thesis unfolding block by (rule check_within [OF m within])
  next
    case touch
    show ?thesis unfolding block by (rule check_touch [OF m touch])
  qed
qed

section \<open>Results\<close>

text \<open>
  C10: a file of at most one node (4096 bytes) is received in order in packets of any sizes, all of
  which are accepted.  If the stream was made with an empty pool, or with a pool of one node, the file is in the temporary file
  after \<^verbatim>\<open>Finalize\<close>, byte for byte.  If the pool had more nodes, the stream's node still has the link it had in the
  pool, and \<^verbatim>\<open>Finalize\<close> throws.  \<^verbatim>\<open>WriteFile\<close> is assumed to write what it is given.
\<close>

theorem FileRcvStream_small_file:
  assumes "pool_ok h pool" "writes WriteFile" "length (concat packets) \<le> 4096"
  shows "\<exists>s s'. FileRcvStream_new True cap h pool = Inr s \<and> append_all WriteFile 0 s packets = Inr s'
    \<and> (if rhead pool = 0 \<or> ntail (cnode h (rhead pool)) = 0
       then \<exists>h' pool' st. Finalize WriteFile s' = Inr (h', pool', st) \<and> fr_file st = concat packets
       else Finalize WriteFile s' = Inl (RuntimeError ''cannot finalize stream: incomplete data''))"
proof -
  obtain s where "FileRcvStream_new True cap h pool = Inr s" "fr_at (pool_link h pool) s []" using fr_at_new [OF assms(1)] by blast
  moreover then obtain s' where "append_all WriteFile 0 s packets = Inr s'" "fr_at (pool_link h pool) s' (concat packets)"
    using fr_at_append_all [of "pool_link h pool" s "[]" packets WriteFile] assms(3) by auto
  moreover note fr_at_finalize [OF this(2) assms(2)]
  moreover have "pool_link h pool = 0 \<longleftrightarrow> rhead pool = 0 \<or> ntail (cnode h (rhead pool)) = 0" by (simp add: pool_link_def)
  ultimately show ?thesis by (intro exI [of _ s] exI [of _ s'] conjI) simp_all
qed

theorem FileRcvStream_small_file_witness:
  "(\<exists>s s' h' pool' st. FileRcvStream_new True 8 ex_nodes NodePool_new = Inr s
    \<and> append_all (\<lambda>f d. (length d, f @ d)) 0 s [[1, 2], [3]] = Inr s'
    \<and> Finalize (\<lambda>f d. (length d, f @ d)) s' = Inr (h', pool', st) \<and> fr_file st = [1, 2, 3])
   \<and> (\<exists>s s'. FileRcvStream_new True 8 (ex_nodes\<lparr>cnode := \<lambda>_. \<lparr>ntail = 2, nbytes = \<lambda>_. 0\<rparr>\<rparr>) \<lparr>pool_size = 2, rhead = 1, rtail = 2\<rparr> = Inr s
    \<and> append_all (\<lambda>f d. (length d, f @ d)) 0 s [[1, 2, 3]] = Inr s'
    \<and> Finalize (\<lambda>f d. (length d, f @ d)) s' = Inl (RuntimeError ''cannot finalize stream: incomplete data''))"
proof
  show "\<exists>s s' h' pool' st. FileRcvStream_new True 8 ex_nodes NodePool_new = Inr s
    \<and> append_all (\<lambda>f d. (length d, f @ d)) 0 s [[1, 2], [3]] = Inr s'
    \<and> Finalize (\<lambda>f d. (length d, f @ d)) s' = Inr (h', pool', st) \<and> fr_file st = [1, 2, 3]"
    using FileRcvStream_small_file [of ex_nodes NodePool_new "\<lambda>f d. (length d, f @ d)" "[[1, 2], [3]]" 8]
    by (simp add: NodePool_new_def ex_nodes_def writes_def pool_ok_def)
  show "\<exists>s s'. FileRcvStream_new True 8 (ex_nodes\<lparr>cnode := \<lambda>_. \<lparr>ntail = 2, nbytes = \<lambda>_. 0\<rparr>\<rparr>) \<lparr>pool_size = 2, rhead = 1, rtail = 2\<rparr> = Inr s
    \<and> append_all (\<lambda>f d. (length d, f @ d)) 0 s [[1, 2, 3]] = Inr s'
    \<and> Finalize (\<lambda>f d. (length d, f @ d)) s' = Inl (RuntimeError ''cannot finalize stream: incomplete data'')"
    using FileRcvStream_small_file [of "ex_nodes\<lparr>cnode := \<lambda>_. \<lparr>ntail = 2, nbytes = \<lambda>_. 0\<rparr>\<rparr>" "\<lparr>pool_size = 2, rhead = 1, rtail = 2\<rparr>" "\<lambda>f d. (length d, f @ d)" "[[1, 2, 3]]" 8]
    by (simp add: ex_nodes_def writes_def pool_ok_def)
qed

text \<open>
  C17: an in-order packet that does not fit into the first node is accepted, with any pool that can
  give a node, and the full node is written, but the stream does not move on: \<^verbatim>\<open>lastSeq\<close> stays, the same node is filled from its
  start, the bytes past the boundary stay in a node that nothing reads, and \<^verbatim>\<open>Finalize\<close> throws.  The packet that follows is not
  taken as the next in order (\<^verbatim>\<open>Append\<close> does not return 0); in order is only a packet with the number of the one before.
\<close>

theorem FileRcvStream_second_node:
  assumes "fr_at t (h, pool, st) w" "length d \<le> 4096" "4096 < length w + length d"
    and "writes WriteFile" "pool_ok h pool" "rhead pool \<noteq> fr_head st"
  shows "\<exists>h' pool' st'. Append WriteFile (h, pool, st) (word_of_nat (length w)) (word_of_nat (length d)) d = Inr (0, h', pool', st')
    \<and> fr_file st' = take 4096 (w @ d) \<and> fr_lastSeq st' = fr_lastSeq st \<and> fr_head st' = fr_head st \<and> fr_headByteCount st' = 0
    \<and> Finalize WriteFile (h', pool', st') = Inl (RuntimeError ''cannot finalize stream: incomplete data'')
    \<and> (\<forall>seq len data r s. seq \<noteq> word_of_nat (length w) \<and> Append WriteFile (h', pool', st') seq len data = Inr (r, s) \<longrightarrow> r \<noteq> 0)
    \<and> word_of_nat (length (w @ d)) \<noteq> (word_of_nat (length w) :: u32)"
proof -
  obtain h' pool' st' where a: "Append WriteFile (h, pool, st) (word_of_nat (length w)) (word_of_nat (length d)) d = Inr (0, h', pool', st')"
      "fr_file st' = take 4096 (w @ d)" "fr_lastSeq st' = fr_lastSeq st" "fr_head st' = fr_head st" "fr_headByteCount st' = 0"
      "fr_ub_list st' = []" "Finalize WriteFile (h', pool', st') = Inl (RuntimeError ''cannot finalize stream: incomplete data'')"
    using fr_at_cross [OF assms] by blast
  have l: "length w \<le> 4096" "fr_lastSeq st = word_of_nat (length w)" using assms(1) by (simp_all add: fr_at_def)
  have "unat (word_of_nat (length (w @ d)) :: u32) \<noteq> unat (word_of_nat (length w) :: u32)"
    using l assms(2,3) by (cases d) (simp_all add: unat_u32_small del: of_nat_add of_nat_Suc)
  then have "word_of_nat (length (w @ d)) \<noteq> (word_of_nat (length w) :: u32)" by metis
  with a append_later_not_in_order [OF a(6)] l(2) show ?thesis by metis
qed

definition ex_stream :: FileRcvStream where
  "ex_stream = \<lparr>fr_lastSeq = 4095, fr_unSeqLen = 0, fr_file = [], fr_head = 1, fr_tail = 1, fr_nodeCount = 0,
     fr_max_nodeCount = 16384, fr_headSeq = 0, fr_headByteCount = 4095, fr_ub_list = [], fr_capacity = 8\<rparr>"

theorem FileRcvStream_second_node_witness:
  "\<exists>h' pool' st'. Append (\<lambda>f d. (length d, f @ d)) (ex_nodes, NodePool_new, ex_stream) 4095 2 [7, 8] = Inr (0, h', pool', st')
    \<and> fr_file st' = replicate 4095 0 @ [7] \<and> fr_lastSeq st' = 4095"
proof -
  have f: "fr_at 0 (ex_nodes, NodePool_new, ex_stream) (replicate 4095 0)"
    by (simp add: fr_at_def ex_nodes_def ex_stream_def)
  have "take 4096 (replicate 4095 0 @ [7, 8 :: u8]) = replicate 4095 0 @ [7]" by simp
  then show ?thesis
    using FileRcvStream_second_node [OF f, of "[7, 8]" "\<lambda>f d. (length d, f @ d)"]
    by (auto simp: writes_def pool_ok_def NodePool_new_def ex_nodes_def ex_stream_def simp del: take_append)
qed

text \<open>
  C18: a packet that closes the gap before the first early block, when both together are
  shorter than a node, never makes \<^verbatim>\<open>Append\<close> return: the loop that should flush full nodes runs while the length is
  \<^emph>\<open>below\<close> the size of a node, and ends in an exception, a fault or the overflow of its counter.
\<close>

theorem FileRcvStream_merge_fails:
  assumes "seq = fr_lastSeq st" "fr_ub_list st = (seq + len, ts) # bs" "sint (ts - seq) < 4096"
  shows "\<exists>e. Append WriteFile (h, pool, st) seq len data = Inl e"
proof -
  have "CheckUB st seq len = (UBM_MERGING, st)"
    using assms(1,2) by (simp add: CheckUB_def sgt0_def)
  then have a: "Append WriteFile (h, pool, st) seq len data
      = append_merging WriteFile (h, pool, st\<lparr>fr_unSeqLen := len\<rparr>) len data"
    using assms(1,2) by (simp add: Append_def sgt0_def)
  have "len + ts - (seq + len) = ts - seq" by simp
  then show ?thesis unfolding a using assms(2,3) by (intro append_merging_fails) simp
qed

theorem FileRcvStream_merge_fails_witness:
  "\<exists>e. Append (\<lambda>f d. (length d, f @ d)) (ex_nodes, NodePool_new, ex_stream\<lparr>fr_lastSeq := 0, fr_ub_list := [(2, 4)]\<rparr>) 0 2 [7, 8] = Inl e"
  by (rule FileRcvStream_merge_fails [of _ _ _ 4 "[]"]) (simp_all add: ex_stream_def)

text \<open>
  C11: let the recorded blocks lie in order, with gaps between them, within 2^31 numbers of \<^verbatim>\<open>lastSeq\<close>, and
  let a packet that is not next in order overlap no block or lie within one.  A packet within a block is reported as
  an overlap.  Any other one is recorded: exactly its bytes are added to the bytes covered, and the blocks stay in
  order with gaps; or it is refused, with nothing changed, and then the vector is full or the packet ends 64 MB or more
  after the first node.
\<close>

theorem CheckUB_correct:
  assumes "wf_blocks (fr_lastSeq st) 0 (fr_ub_list st)" "seq \<noteq> fr_lastSeq st" "0 < len"
    and "soff (fr_lastSeq st) seq + unat len < 2 ^ 31"
    and "honest (fr_lastSeq st) (fr_ub_list st) (packet (fr_lastSeq st) seq len)"
    and "CheckUB st seq len = (r, st')"
  shows "wf_blocks (fr_lastSeq st) 0 (fr_ub_list st') \<and> st' = st\<lparr>fr_ub_list := fr_ub_list st'\<rparr> \<and>
    (if packet (fr_lastSeq st) seq len \<subseteq> covered (fr_lastSeq st) (fr_ub_list st)
     then r = UBM_OVERLAP \<and> st' = st
     else r = UBM_FULL \<and> st' = st \<and> (fr_capacity st \<le> length (fr_ub_list st) \<or> seq + len - fr_headSeq st \<ge> 16384 * 4096)
       \<or> r \<in> {UBM_ADDED, UBM_EXTENDED}
         \<and> covered (fr_lastSeq st) (fr_ub_list st') = covered (fr_lastSeq st) (fr_ub_list st) \<union> packet (fr_lastSeq st) seq len)"
proof -
  let ?b = "fr_lastSeq st" and ?p = "packet (fr_lastSeq st) seq len"
  obtain bs' where l: "CheckUB_loop (fr_capacity st) (length (fr_ub_list st)) (fr_headSeq st) seq len (fr_ub_list st) = (r, bs')"
      "st' = st\<lparr>fr_ub_list := bs'\<rparr>"
    using assms(2,6) by (auto simp: CheckUB_def split: prod.splits)
  have "0 < soff ?b seq" using assms(2) by (simp add: neq0_conv [symmetric] del: neq0_conv)
  moreover have "soff ?b seq + unat len < 2147483648" using assms(4) by simp
  ultimately have "checked ?b 0 (fr_ub_list st) ?p
      (fr_capacity st \<le> length (fr_ub_list st) \<or> too_far (fr_headSeq st) (seq + len)) (r, bs')"
    using CheckUB_loop_checked [OF assms(1) _ assms(3) _ assms(5)] l(1) by metis
  then show ?thesis using l(2)
    by (cases "?p \<subseteq> covered ?b (fr_ub_list st)") (auto simp: checked_def too_far_def)
qed

theorem CheckUB_correct_witness:
  "covered 0 (fr_ub_list (snd (CheckUB (ex_stream\<lparr>fr_lastSeq := 0, fr_ub_list := [(10, 20)]\<rparr>) 20 5))) = {10..<20} \<union> {20..<25}"
proof -
  let ?st = "ex_stream\<lparr>fr_lastSeq := 0, fr_ub_list := [(10, 20)]\<rparr>"
  have s: "soff 0 10 = 10" "soff 0 20 = 20" by (simp_all add: soff_def)
  have c: "CheckUB ?st 20 5 = (UBM_EXTENDED, ?st\<lparr>fr_ub_list := [(10, 25)]\<rparr>)" by code_simp
  have p: "packet 0 20 5 = {20..<25}" "covered 0 [(10, 20)] = {10..<20}" by (simp_all add: packet_def s)
  have h: "honest 0 [(10, 20)] (packet 0 20 5)" unfolding honest_def p by simp
  have n: "\<not> {20..<25} \<subseteq> {10..<20 :: nat}" by simp
  have f: "fr_lastSeq ?st = 0" "fr_ub_list ?st = [(10, 20)]" by simp_all
  have "wf_blocks 0 0 [(10, 20)]" "(20 :: u32) \<noteq> 0" "(0 :: u32) < 5" "soff 0 20 + unat (5 :: u32) < 2 ^ 31" by (simp_all add: s)
  from CheckUB_correct [of ?st, unfolded f, OF this h c] n show ?thesis unfolding c p snd_conv by (metis UBM.distinct)
qed

end
