(* ===== verification/Spec2Isabelle.thy ===== *)
theory Spec2Isabelle
  imports Handshake Send_Stream OS_Stack_Props Stream_Results CBC_Results Key_Wrap_Props Blowfish_Props CAST SEED AES_IGE Rcv_Stream_Props
begin

text \<open>
  ALTUS (\<^verbatim>\<open>src/ALTUS\<close>) carries reliable streams, shared structs and files over UDP.  A host owns a socket and three threads.
  Its listener hands a datagram to the peer it comes from or to the handshake; a peer hands it to the channel named in the
  header; a channel puts it into its window or its file stream; and the peer answers with an acknowledgement.  The sender
  cuts the streams that were put into sending channels into packets, and the connecter repeats handshakes.  The repository
  contains OpenSSL, from which the program is to take its ciphers.

  \<^bold>\<open>Conventions.\<close>  Machine integers are words, or \<open>int\<close> for a C \<^verbatim>\<open>int\<close> whose range is checked where it matters.  A struct or
  class is a record and an operation a function on it that returns the changed record.  Undefined behaviour, \<^verbatim>\<open>exit\<close> and
  exceptions are values: \<open>fault\<close> in the C part, \<open>cxx\<close> in the C++ part, sequenced by \<open>rbind\<close>.  Memory that several objects
  point into is an explicit heap.  Datagrams sent are part of the result.

  \<^bold>\<open>Theories of ALTUS.\<close>

  \<^item> \<open>Prelude\<close>: word types, faults, \<open>rbind\<close>, comparison of sequence numbers.
  \<^item> \<open>UBList\<close> (\<^verbatim>\<open>ublist.h\<close>, \<^verbatim>\<open>ublist.c\<close>): the ranges received ahead of the expected byte.  Classification of a packet is exact, no
    byte is accepted twice.  The contract is the locale \<open>range_tracker\<close>.
  \<^item> \<open>NodeHeap\<close>, \<open>WindowedQueue\<close>, \<open>WQ_Nodes\<close>, \<open>WQ_Copy\<close>, \<open>WQ_Put\<close>, \<open>WQ_Pop\<close>, \<open>WQ_Stream\<close>, \<open>WQ_Rest\<close> (\<^verbatim>\<open>windowedqueue.h\<close>,
    \<^verbatim>\<open>windowedqueue.c\<close>): the window, a chain of nodes in a heap.  \<open>WindowedQueue\<close> has the code; \<open>WQ_Put\<close> and \<open>WQ_Pop\<close> relate it to an
    abstract byte stream, and give the result of a put for the packets it mishandles; \<open>WQ_Stream\<close> states the contract of a
    receiver as the locale \<open>reorder_buffer\<close> and shows that the window meets it for all packets but those the 16-bit offset
    maps back into the node being filled; \<open>WQ_Rest\<close> treats lookup, recount and freeing.
  \<^item> \<open>Node_Pool\<close> (\<^verbatim>\<open>NodeBase.h\<close>, \<^verbatim>\<open>NodeBase.cpp\<close>): the pool of the C++ part, with threads that pop at the same time as a step
    relation.
  \<^item> \<open>Rcv_Stream\<close>, \<open>Rcv_Stream_Props\<close> (\<^verbatim>\<open>fileReceiveStream.h\<close>, \<^verbatim>\<open>fileReceiveStream.cpp\<close>): files being received.  Files of one node
    arrive intact if the pool had at most one node; what goes wrong with other pools and longer files is stated as well.
  \<^item> \<open>Std_Map\<close>: \<^verbatim>\<open>std::map\<close>, with its contract as the locale \<open>dictionary\<close>.
  \<^item> \<open>Channel\<close> (\<^verbatim>\<open>channel.h\<close>, \<^verbatim>\<open>channel.cpp\<close>), \<open>Peer\<close>, \<open>Peer_Props\<close>, \<open>Send_Stream\<close> (\<^verbatim>\<open>ALTUSPeer.h\<close>, \<^verbatim>\<open>ALTUSPeer.cpp\<close>): channels over the windows and file
    streams above, and the channels to one remote host.  A packet made by \<^verbatim>\<open>Send\<close> and given to \<^verbatim>\<open>processPacket\<close> at the other end
    arrives in the stream there; the packets of \<^verbatim>\<open>Send\<close> are the stream cut up in order, up to the first short one, after which
    stale memory is sent and memory outside the node read; \<^verbatim>\<open>newChannel\<close> finds a free identifier whenever there is one.
  \<^item> \<open>Host\<close>, \<open>Host_Props\<close>, \<open>Handshake\<close> (\<^verbatim>\<open>ALTUSHost.h\<close>, \<^verbatim>\<open>ALTUSHost.cpp\<close>): tables of peers, handshake and dispatch.  \<open>host_step\<close> is the step
    relation of a host; its steps keep the tables consistent, the handshake of two hosts succeeds on a network that loses
    nothing, and the packets that make a server run into undefined behaviour are characterised.

  \<^bold>\<open>Theories of OpenSSL\<close> (\<^verbatim>\<open>src/ALTUS/MyLibrary/openssl-master\<close>).

  \<^item> \<open>OS_Stack\<close>, \<open>OS_Stack_Props\<close> (\<^verbatim>\<open>crypto/stack/stack.c\<close>, \<^verbatim>\<open>crypto/bsearch.c\<close>): pointer arrays; insertion, removal, search and growth.
  \<^item> \<open>Bytes\<close>: loads and stores of words in byte buffers.
  \<^item> \<open>Stream_Modes\<close>, \<open>Stream_Props\<close>, \<open>Counter_Mode\<close>, \<open>Stream_Results\<close> (\<^verbatim>\<open>crypto/modes/cfb128.c\<close>, \<^verbatim>\<open>ofb128.c\<close>, \<^verbatim>\<open>ctr128.c\<close>): the
    modes that turn a block function into a stream.  The locale \<open>stream_mode\<close> relates the path by words to the path by bytes;
    decryption inverts encryption, and counter mode is the key stream of consecutive counters.
  \<^item> \<open>CBC_Mode\<close>, \<open>CBC_Props\<close>, \<open>CBC_Results\<close> (\<^verbatim>\<open>cbc128.c\<close>, \<^verbatim>\<open>cts128.c\<close>): chaining and ciphertext stealing, with round trips in the
    locale \<open>cipher128\<close>.
  \<^item> \<open>SM4\<close>, \<open>SM4_Props\<close> (\<^verbatim>\<open>crypto/sm4/sm4.c\<close>): the cipher, its round trip, and the equality of table and bitwise round functions.
  \<^item> \<open>Key_Wrap\<close>, \<open>Key_Wrap_Props\<close> (\<^verbatim>\<open>crypto/modes/wrap128.c\<close>): wrapping with and without padding; unwrapping accepts exactly what
    was wrapped.
  \<^item> \<open>SEED\<close> (\<^verbatim>\<open>crypto/seed\<close>): the cipher in its two builds, which are shown to agree; its modes are those above, with the
    cipher as another instance of \<open>cipher128\<close>.
  \<^item> \<open>AES\<close>, \<open>AES_Tables\<close>, \<open>AES_Props\<close>, \<open>AES_IGE\<close> (\<^verbatim>\<open>crypto/aes\<close>): the cipher by tables, in a loop and unrolled, and the key schedules of two
    builds.  The tables are the S-box and the column mixing, so the rounds are those of the reference cipher, and the
    schedule for decryption undoes them; with its two schedules a key gives an instance of \<open>cipher128\<close>.
    The IGE modes come back, but for two-way encryption in place.
  \<^item> \<open>Modes64\<close>, \<open>Blowfish\<close>, \<open>Blowfish_Props\<close> (\<^verbatim>\<open>crypto/bf\<close>), \<open>CAST\<close> (\<^verbatim>\<open>crypto/cast\<close>): the modes of ciphers with blocks of 64 bits,
    with the round trips in the locale \<open>cipher64\<close>, and two such ciphers with their key schedules.

  \<^bold>\<open>Bounds.\<close>  Loops that follow pointers take fuel.  \<open>free_chain\<close>, \<open>recalculateWinLen_loop\<close>, \<open>delete_chain\<close> and \<open>push_chain\<close> get the
  number of addresses ever handed out, which a chain without repetitions cannot exceed; \<open>node_loop\<close> gets the number of nodes
  up to its offset; \<open>free_peid\<close> gets one turn more than there are peers, enough as long as not every identifier is used
  (\<open>free_peid_ok\<close>).  The theorems about these loops state that they return.  All other loops are total functions with a
  termination proof (\<open>compute_growth\<close> is a partial function that a theorem shows to return); \<open>merge_loop\<close>, which counts away from its bound, stops where the counter leaves the range of \<^verbatim>\<open>int\<close>.

  \<^bold>\<open>Parameters.\<close>  Winsock and the file system: the datagram received, the results of \<^verbatim>\<open>socket\<close> and \<^verbatim>\<open>bind\<close>, of \<^verbatim>\<open>WriteFile\<close> and of
  making a temporary file; the clock; the contents of fresh memory; the user's callback for accepted peers, which is
  assumed to keep the tables where that matters; the allocator and comparison function of the pointer stack; the block
  functions of the modes, assumed to be inverse to each other where a message is to come back.

  \<^bold>\<open>Not modelled.\<close>  \<^verbatim>\<open>main.cpp\<close>, \<^verbatim>\<open>ALTUSModule\<close> and \<^verbatim>\<open>ASCIIART.h\<close> are console input and output; \<^verbatim>\<open>connection.cpp\<close> and \<^verbatim>\<open>fileT.cpp\<close> are unused
  stubs; \<^verbatim>\<open>fileSendStream.c\<close> is commented out.  One turn of a thread of the host is one step, although the code does not lock
  its tables, and \<^verbatim>\<open>connectAction\<close>, which runs in a detached thread, is left out.  The debug printers change nothing.  The rest of
  OpenSSL (TLS, certificates, big numbers, elliptic curves, the other ciphers and digests) is third-party code that ALTUS
  does not call.
\<close>

end
